(* ===== verification/Prelude.thy ===== *)
theory Prelude
  imports Main "HOL-Library.Word" "HOL-Library.Monad_Syntax"
begin

unbundle bit_operations_syntax

text \<open>
  Shared vocabulary of the development.

  \<^item> The C integer types as words, and the kernel's error numbers.
  \<^item> The result convention. A C function that touches memory or loops is modelled in the
    option monad: \<^term>\<open>None\<close> is the outcome that C leaves undefined or that never comes (an
    access outside the buffer, a loop that does not end), \<^term>\<open>Some (r, s)\<close> is a return
    with value \<open>r\<close> in state \<open>s\<close>. \<open>returns m Q\<close> says that \<open>m\<close> does return, and that what it
    returns satisfies \<open>Q\<close>: total correctness, memory safety included.
  \<^item> Checked array and buffer accesses, and little-endian byte layouts.
  \<^item> Word lemmas for the loops over block addresses.
\<close>

section \<open>C types and error numbers\<close>

type_synonym u8 = "8 word"
type_synonym u16 = "16 word"
type_synonym u32 = "32 word"
type_synonym u64 = "64 word"
type_synonym bytes = "8 word list"

text \<open>The incremental checksum of the kernel library (\<open>crc32_le\<close>): seed, bytes, new value.\<close>

type_synonym crc_fn = "u32 \<Rightarrow> bytes \<Rightarrow> u32"

definition ENOENT :: int where "ENOENT = 2"
definition EIO :: int where "EIO = 5"
definition ENOMEM :: int where "ENOMEM = 12"
definition ENODEV :: int where "ENODEV = 19"
definition EINVAL :: int where "EINVAL = 22"
definition EROFS :: int where "EROFS = 30"
definition EBADMSG :: int where "EBADMSG = 74"

lemmas errno_defs = EIO_def ENODEV_def EINVAL_def EROFS_def EBADMSG_def

section \<open>Returning computations\<close>

named_theorems returns_simps \<open>rewriting a returning computation into its verification condition\<close>
named_theorems returns_rules \<open>contracts of operations, to be used with \<open>returns_mono\<close>\<close>

definition returns :: "'a option \<Rightarrow> ('a \<Rightarrow> bool) \<Rightarrow> bool" where
  "returns m Q = (case m of None \<Rightarrow> False | Some x \<Rightarrow> Q x)"

lemma returns_Some [simp]: "returns (Some x) Q = Q x"
  by (simp add: returns_def)

lemma returns_None [simp]: "returns None Q = False"
  by (simp add: returns_def)

lemma returns_bind [returns_simps]: "returns (m \<bind> f) Q = returns m (\<lambda>x. returns (f x) Q)"
  by (cases m) simp_all

lemma returns_case_prod [returns_simps]:
  "returns (case p of (a, b) \<Rightarrow> f a b) Q = (case p of (a, b) \<Rightarrow> returns (f a b) Q)"
  by (cases p) simp

lemma returns_if [returns_simps]:
  "returns (if b then m else n) Q = (if b then returns m Q else returns n Q)"
  by simp

lemma returns_Let [returns_simps]: "returns (Let v f) Q = Let v (\<lambda>x. returns (f x) Q)"
  by (simp add: Let_def)

lemma returns_iff: "returns m Q \<longleftrightarrow> (\<exists>x. m = Some x \<and> Q x)"
  by (cases m) simp_all

lemma returnsE:
  assumes "returns m Q"
  obtains x where "m = Some x" and "Q x"
  using assms by (auto simp: returns_iff)

lemma returns_mono: "returns m P \<Longrightarrow> (\<And>x. P x \<Longrightarrow> Q x) \<Longrightarrow> returns m Q"
  by (auto simp: returns_iff)

lemma returns_bindI:
  "returns m P \<Longrightarrow> (\<And>x. P x \<Longrightarrow> returns (f x) Q) \<Longrightarrow> returns (m \<bind> f) Q"
  by (auto simp: returns_iff)

lemma returns_conj: "returns m P \<Longrightarrow> returns m Q \<Longrightarrow> returns m (\<lambda>x. P x \<and> Q x)"
  by (auto simp: returns_iff)

lemma returns_SomeD: "returns m Q \<Longrightarrow> m = Some x \<Longrightarrow> Q x"
  by simp

section \<open>Checked array and buffer accesses\<close>

definition arr_get :: "'a list \<Rightarrow> nat \<Rightarrow> 'a option" where
  "arr_get xs i = (if i < length xs then Some (xs ! i) else None)"

definition arr_set :: "'a list \<Rightarrow> nat \<Rightarrow> 'a \<Rightarrow> 'a list option" where
  "arr_set xs i v = (if i < length xs then Some (xs[i := v]) else None)"

definition mem_read :: "'a list \<Rightarrow> nat \<Rightarrow> nat \<Rightarrow> 'a list option" where
  "mem_read buf off len =
     (if off + len \<le> length buf then Some (take len (drop off buf)) else None)"

definition mem_write :: "'a list \<Rightarrow> nat \<Rightarrow> 'a list \<Rightarrow> 'a list option" where
  "mem_write buf off d =
     (if off + length d \<le> length buf
      then Some (take off buf @ d @ drop (off + length d) buf) else None)"

lemma arr_get_returns [returns_simps]:
  "returns (arr_get xs i) Q \<longleftrightarrow> i < length xs \<and> Q (xs ! i)"
  by (simp add: arr_get_def)

lemma arr_set_returns [returns_simps]:
  "returns (arr_set xs i v) Q \<longleftrightarrow> i < length xs \<and> Q (xs[i := v])"
  by (simp add: arr_set_def)

lemma mem_read_returns [returns_simps]:
  "returns (mem_read buf off len) Q \<longleftrightarrow> off + len \<le> length buf \<and> Q (take len (drop off buf))"
  by (simp add: mem_read_def)

lemma mem_write_returns [returns_simps]:
  "returns (mem_write buf off d) Q \<longleftrightarrow>
     off + length d \<le> length buf \<and> Q (take off buf @ d @ drop (off + length d) buf)"
  by (simp add: mem_write_def)

lemma length_mem_write: "mem_write buf off d = Some b \<Longrightarrow> length b = length buf"
  by (auto simp: mem_write_def split: if_splits)

lemma mem_read_write_same:
  "mem_write buf off d = Some b \<Longrightarrow> mem_read b off (length d) = Some d"
  by (auto simp: mem_write_def mem_read_def split: if_splits)

lemma mem_read_write_before:
  "mem_write buf off d = Some b \<Longrightarrow> o2 + n \<le> off \<Longrightarrow> mem_read b o2 n = mem_read buf o2 n"
  by (auto simp: mem_write_def mem_read_def drop_take min_def split: if_splits)

lemma mem_read_write_after:
  assumes "mem_write buf off d = Some b" and "off + length d \<le> o2"
  shows "mem_read b o2 n = mem_read buf o2 n"
proof -
  from assms(1) have le: "off + length d \<le> length buf"
    and b: "b = take off buf @ d @ drop (off + length d) buf"
    by (auto simp: mem_write_def split: if_splits)
  have "drop o2 b = drop (o2 - off - length d) (drop (off + length d) buf)"
    using le assms(2) by (simp add: b)
  also have "\<dots> = drop o2 buf"
    using assms(2) by simp
  finally show ?thesis
    using le length_mem_write [OF assms(1)] by (simp add: mem_read_def)
qed

section \<open>Powers of two\<close>

text \<open>The kernel's \<open>is_power_of_2\<close>.\<close>

definition is_power_of_2 :: "u32 \<Rightarrow> bool" where
  "is_power_of_2 n \<longleftrightarrow> n \<noteq> 0 \<and> n AND (n - 1) = 0"

section \<open>Little-endian layout\<close>

definition le32 :: "u32 \<Rightarrow> bytes" where
  "le32 w = [ucast w, ucast (drop_bit 8 w), ucast (drop_bit 16 w), ucast (drop_bit 24 w)]"

definition le64 :: "u64 \<Rightarrow> bytes" where
  "le64 w = le32 (ucast w) @ le32 (ucast (drop_bit 32 w))"

definition of_le32 :: "bytes \<Rightarrow> u32" where
  "of_le32 bs = ucast (bs ! 0) OR push_bit 8 (ucast (bs ! 1))
     OR push_bit 16 (ucast (bs ! 2)) OR push_bit 24 (ucast (bs ! 3))"

definition of_le64 :: "bytes \<Rightarrow> u64" where
  "of_le64 bs = ucast (of_le32 (take 4 bs)) OR push_bit 32 (ucast (of_le32 (drop 4 bs)))"

definition of_le16 :: "bytes \<Rightarrow> u16" where
  "of_le16 bs = of_nat (unat (bs ! 1) * 256 + unat (bs ! 0))"

text \<open>The same in big-endian order.\<close>

definition of_be16 :: "bytes \<Rightarrow> u16" where
  "of_be16 bs = of_nat (unat (bs ! 0) * 256 + unat (bs ! 1))"

definition of_be32 :: "bytes \<Rightarrow> u32" where
  "of_be32 bs = of_le32 (rev (take 4 bs))"

definition of_be64 :: "bytes \<Rightarrow> u64" where
  "of_be64 bs = of_le64 (rev (take 8 bs))"

lemma length_le32 [simp]: "length (le32 w) = 4"
  by (simp add: le32_def)

lemma length_le64 [simp]: "length (le64 w) = 8"
  by (simp add: le64_def)

lemma of_le32_le32 [simp]: "of_le32 (le32 w) = w"
proof (rule bit_word_eqI)
  fix n assume n: "n < LENGTH(32)"
  show "bit (of_le32 (le32 w)) n = bit w n"
  proof -
    from n consider "n < 8" | "8 \<le> n" "n < 16" | "16 \<le> n" "n < 24" | "24 \<le> n" "n < 32"
      by fastforce
    then show ?thesis
      by cases (auto simp: of_le32_def le32_def bit_simps)
  qed
qed

lemma of_le64_le64 [simp]: "of_le64 (le64 w) = w"
proof (rule bit_word_eqI)
  fix n assume n: "n < LENGTH(64)"
  show "bit (of_le64 (le64 w)) n = bit w n"
    using n by (auto simp: of_le64_def le64_def bit_simps)
qed

section \<open>Words\<close>

lemma unat_of_nat_small: "n < 2 ^ LENGTH('a) \<Longrightarrow> unat (of_nat n :: 'a::len word) = n"
  by (simp add: unat_of_nat)

lemma unat_of_int_small: "0 \<le> i \<Longrightarrow> i < 2 ^ LENGTH('a::len) \<Longrightarrow> unat (of_int i :: 'a word) = nat i"
  by (metis unat_of_nat_small int_nat_eq nat_less_iff of_int_of_nat_eq of_nat_numeral of_nat_power)

lemma unat_Suc_less [simp]: "(a :: 'a::len word) < b \<Longrightarrow> unat (a + 1) = Suc (unat a)"
  by unat_arith

lemma unat_pred_greater [simp]: "(b :: 'a::len word) < a \<Longrightarrow> unat (a - 1) = unat a - 1"
  by unat_arith

lemma unat_ucast_mod: "unat (ucast (x :: 'a::len word) :: 'b::len word) = unat x mod 2 ^ LENGTH('b)"
  by (simp add: unsigned_ucast_eq take_bit_eq_mod)

lemma unat_u32_less: "unat (x :: u32) < 4294967296"
  using unsigned_less [of x] by simp

lemma unat_u64_less: "unat (x :: u64) < 18446744073709551616"
  using unsigned_less [of x] by simp

lemma unat_ucast_32_64 [simp]: "unat (ucast (x :: u32) :: u64) = unat x"
  using unat_u32_less [of x] by (simp add: unat_ucast_mod)

lemma pow2_le_u32: "e < 32 \<Longrightarrow> (2 :: nat) ^ e \<le> 4294967296"
  using power_increasing [of e 32 "2 :: nat"] by simp

lemma unat_drop_bit_div: "unat (drop_bit n (w :: 'a::len word)) = unat w div 2 ^ n"
  by (subst unat_drop_bit_eq) (rule drop_bit_eq_div)

lemma unat_take_bit_mod: "unat (take_bit n (w :: 'a::len word)) = unat w mod 2 ^ n"
  by (subst unsigned_take_bit_eq) (rule take_bit_eq_mod)

lemma unat_push_bit_mult:
  "unat (push_bit n (w :: 'a::len word)) = unat w * 2 ^ n mod 2 ^ LENGTH('a)"
  by (subst unsigned_push_bit_eq) (simp only: push_bit_eq_mult take_bit_eq_mod)

end
