(* ===== verification/Nmbm_Device.thy ===== *)
theory Nmbm_Device
  imports Prelude
begin

text \<open>
  The lowest layer of the NAND mapped-block management (NMBM): the structures of
  \<open>nmbm.h\<close> and \<open>nmbm-private.h\<close>, and the part of \<open>nmbm-core.c\<close> that talks to the chip
  (address conversion, page and block accesses with retry, factory bad-block marks).

  The chip is not part of the sources. Its driver is the record of callbacks
  \<open>nmbm_lower_device\<close>, over an arbitrary type \<open>'d\<close> of chip states: what C reaches through
  \<open>lower.arg\<close> is the field \<open>dev\<close> of the instance. A callback that C may leave \<open>NULL\<close> is an
  option; calling an absent one is undefined, hence \<open>None\<close>. Buffers are passed as lists of
  bytes, \<open>NULL\<close> as \<open>None\<close>, and a callback that fills a buffer returns its new contents.
  Log output is not modelled; the log level is state and is.
\<close>

section \<open>Constants and structures\<close>

definition NMBM_MAGIC_SIGNATURE :: u32 where "NMBM_MAGIC_SIGNATURE = 0x304d4d4e"
definition NMBM_MAGIC_INFO_TABLE :: u32 where "NMBM_MAGIC_INFO_TABLE = 0x314d4d4e"

definition NMBM_VERSION_MAKE :: "u32 \<Rightarrow> u32 \<Rightarrow> u32" where
  "NMBM_VERSION_MAKE major minor = (major AND 0xffff) OR push_bit 16 (minor AND 0xffff)"

definition NMBM_VER :: u32 where "NMBM_VER = NMBM_VERSION_MAKE 1 0"

definition NMBM_BITMAP_UNIT_SIZE :: u32 where "NMBM_BITMAP_UNIT_SIZE = 4"
definition NMBM_BITMAP_BITS_PER_BLOCK :: u32 where "NMBM_BITMAP_BITS_PER_BLOCK = 2"
definition NMBM_BITMAP_BLOCKS_PER_UNIT :: u32 where "NMBM_BITMAP_BLOCKS_PER_UNIT = 16"
definition NMBM_SPARE_BLOCK_MULTI :: u32 where "NMBM_SPARE_BLOCK_MULTI = 1"
definition NMBM_SPARE_BLOCK_DIV :: u32 where "NMBM_SPARE_BLOCK_DIV = 2"
definition NMBM_SPARE_BLOCK_MIN :: u32 where "NMBM_SPARE_BLOCK_MIN = 2"
definition NMBM_MGMT_DIV :: u32 where "NMBM_MGMT_DIV = 16"
definition NMBM_MGMT_BLOCKS_MIN :: u32 where "NMBM_MGMT_BLOCKS_MIN = 32"
definition NMBM_TRY_COUNT :: nat where "NMBM_TRY_COUNT = 3"
definition BLOCK_ST_BAD :: u32 where "BLOCK_ST_BAD = 0"
definition BLOCK_ST_NEED_REMAP :: u32 where "BLOCK_ST_NEED_REMAP = 2"
definition BLOCK_ST_GOOD :: u32 where "BLOCK_ST_GOOD = 3"
definition BLOCK_ST_MASK :: u32 where "BLOCK_ST_MASK = 3"
definition NMBM_F_CREATE :: u32 where "NMBM_F_CREATE = 1"
definition NMBM_F_EMPTY_PAGE_ECC_OK :: u32 where "NMBM_F_EMPTY_PAGE_ECC_OK = 2"
definition NMBM_F_READ_ONLY :: u32 where "NMBM_F_READ_ONLY = 4"

lemmas block_st_defs =
  BLOCK_ST_BAD_def BLOCK_ST_NEED_REMAP_def BLOCK_ST_GOOD_def BLOCK_ST_MASK_def

datatype nmbm_log_category =
  NMBM_LOG_DEBUG | NMBM_LOG_INFO | NMBM_LOG_WARN | NMBM_LOG_ERR | NMBM_LOG_EMERG | NMBM_LOG_MAX

datatype nmbm_oob_mode = NMBM_MODE_PLACE_OOB | NMBM_MODE_AUTO_OOB | NMBM_MODE_RAW

text \<open>The result of \<open>read_page\<close>: return value, the two buffers after the call, the chip.\<close>

type_synonym 'd read_page_fn =
  "'d \<Rightarrow> u64 \<Rightarrow> bytes option \<Rightarrow> bytes option \<Rightarrow> nmbm_oob_mode
     \<Rightarrow> int \<times> bytes option \<times> bytes option \<times> 'd"
type_synonym 'd write_page_fn =
  "'d \<Rightarrow> u64 \<Rightarrow> bytes option \<Rightarrow> bytes option \<Rightarrow> nmbm_oob_mode \<Rightarrow> int \<times> 'd"
type_synonym 'd block_fn = "'d \<Rightarrow> u64 \<Rightarrow> int \<times> 'd"

record 'd nmbm_lower_device =
  max_ratio :: u32
  max_reserved_blocks :: u32
  flags :: u32
  nld_size :: u64
  erasesize :: u32
  writesize :: u32
  oobsize :: u32
  oobavail :: u32
  reset_chip :: "('d \<Rightarrow> int \<times> 'd) option"
  read_page :: "'d read_page_fn option"
  write_page :: "'d write_page_fn option"
  erase_block :: "'d block_fn option"
  is_bad_block :: "'d block_fn option"
  mark_bad_block :: "'d block_fn option"

record nmbm_header =
  magic :: u32
  version :: u32
  hdr_size :: u32
  checksum :: u32

text \<open>
  The \<open>uint64_t\<close> member aligns the signature to eight bytes, so that the compiler adds four
  bytes after \<open>padding\<close>; they are part of what is copied and of what is checksummed.
\<close>

record nmbm_signature =
  sig_header :: nmbm_header
  nand_size :: u64
  block_size :: u32
  page_size :: u32
  spare_size :: u32
  mgmt_start_pb :: u32
  max_try_count :: u8
  sig_padding :: bytes

record nmbm_info_table_header =
  ith_header :: nmbm_header
  write_count :: u32
  state_table_off :: u32
  mapping_table_off :: u32
  ith_padding :: u32

record 'd nmbm_instance =
  lower :: "'d nmbm_lower_device"
  dev :: 'd
  rawpage_size :: u32
  rawblock_size :: u32
  rawchip_size :: u32
  writesize_mask :: u32
  erasesize_mask :: u32
  writesize_shift :: u16
  erasesize_shift :: u16
  signature :: nmbm_signature
  info_table_cache :: bytes
  info_table_size :: u32
  info_table_spare_blocks :: u32
  info_table :: nmbm_info_table_header
  block_state :: "u32 list"
  block_state_changed :: u32
  state_table_size :: u32
  block_mapping :: "u32 list"
  block_mapping_changed :: u32
  mapping_table_size :: u32
  page_cache :: bytes
  protected :: bool
  block_count :: u32
  data_block_count :: u32
  mgmt_start_ba :: u32
  main_table_ba :: u32
  backup_table_ba :: u32
  mapping_blocks_ba :: u32
  mapping_blocks_top_ba :: u32
  signature_ba :: u32
  log_display_level :: nmbm_log_category

section \<open>Log level, address conversion\<close>

definition nmbm_set_log_level ::
  "'d nmbm_instance \<Rightarrow> nmbm_log_category \<Rightarrow> nmbm_log_category \<times> 'd nmbm_instance" where
  "nmbm_set_log_level ni level = (log_display_level ni, ni\<lparr>log_display_level := level\<rparr>)"

definition addr2ba :: "'d nmbm_instance \<Rightarrow> u64 \<Rightarrow> u32" where
  "addr2ba ni addr = ucast (drop_bit (unat (erasesize_shift ni)) addr)"

definition ba2addr :: "'d nmbm_instance \<Rightarrow> u32 \<Rightarrow> u64" where
  "ba2addr ni ba = push_bit (unat (erasesize_shift ni)) (ucast ba)"

definition size2blk :: "'d nmbm_instance \<Rightarrow> u64 \<Rightarrow> u32" where
  "size2blk ni sz =
     ucast (drop_bit (unat (erasesize_shift ni)) (sz + ucast (erasesize (lower ni)) - 1))"

section \<open>Chip accesses\<close>

definition read_only :: "'d nmbm_instance \<Rightarrow> bool" where
  "read_only ni \<longleftrightarrow> flags (lower ni) AND NMBM_F_READ_ONLY \<noteq> 0"

definition nmbm_reset_chip :: "'d nmbm_instance \<Rightarrow> 'd nmbm_instance" where
  "nmbm_reset_chip ni =
     (case reset_chip (lower ni) of
        None \<Rightarrow> ni
      | Some f \<Rightarrow> ni\<lparr>dev := snd (f (dev ni))\<rparr>)"

text \<open>The loop of \<open>nmbm_read_phys_page\<close>, by the number of tries left.\<close>

fun read_tries ::
  "nat \<Rightarrow> 'd nmbm_instance \<Rightarrow> u64 \<Rightarrow> bytes option \<Rightarrow> bytes option \<Rightarrow> nmbm_oob_mode \<Rightarrow> int
     \<Rightarrow> (int \<times> bytes option \<times> bytes option \<times> 'd nmbm_instance) option" where
  "read_tries 0 ni addr data oob mode ret = Some (ret, data, oob, ni)"
| "read_tries (Suc n) ni addr data oob mode ret =
     do {
       rp \<leftarrow> read_page (lower ni);
       let (ret, data, oob, d) = rp (dev ni) addr data oob mode;
       let ni = ni\<lparr>dev := d\<rparr>;
       if ret \<ge> 0 then Some (ret, data, oob, ni)
       else read_tries n (nmbm_reset_chip ni) addr data oob mode ret
     }"

definition nmbm_read_phys_page ::
  "'d nmbm_instance \<Rightarrow> u64 \<Rightarrow> bytes option \<Rightarrow> bytes option \<Rightarrow> nmbm_oob_mode
     \<Rightarrow> (int \<times> bytes option \<times> bytes option \<times> 'd nmbm_instance) option" where
  "nmbm_read_phys_page ni addr data oob mode = read_tries NMBM_TRY_COUNT ni addr data oob mode 0"

fun write_tries ::
  "nat \<Rightarrow> 'd nmbm_instance \<Rightarrow> u64 \<Rightarrow> bytes option \<Rightarrow> bytes option \<Rightarrow> nmbm_oob_mode
     \<Rightarrow> (bool \<times> 'd nmbm_instance) option" where
  "write_tries 0 ni addr data oob mode = Some (False, ni)"
| "write_tries (Suc n) ni addr data oob mode =
     do {
       wp \<leftarrow> write_page (lower ni);
       let (ret, d) = wp (dev ni) addr data oob mode;
       let ni = ni\<lparr>dev := d\<rparr>;
       if ret = 0 then Some (True, ni)
       else write_tries n (nmbm_reset_chip ni) addr data oob mode
     }"

definition nmbm_write_phys_page ::
  "'d nmbm_instance \<Rightarrow> u64 \<Rightarrow> bytes option \<Rightarrow> bytes option \<Rightarrow> nmbm_oob_mode
     \<Rightarrow> (bool \<times> 'd nmbm_instance) option" where
  "nmbm_write_phys_page ni addr data oob mode =
     (if read_only ni then Some (False, ni)
      else write_tries NMBM_TRY_COUNT ni addr data oob mode)"

fun erase_tries :: "nat \<Rightarrow> 'd nmbm_instance \<Rightarrow> u64 \<Rightarrow> (bool \<times> 'd nmbm_instance) option" where
  "erase_tries 0 ni addr = Some (False, ni)"
| "erase_tries (Suc n) ni addr =
     do {
       eb \<leftarrow> erase_block (lower ni);
       let (ret, d) = eb (dev ni) addr;
       let ni = ni\<lparr>dev := d\<rparr>;
       if ret = 0 then Some (True, ni) else erase_tries n (nmbm_reset_chip ni) addr
     }"

definition nmbm_erase_phys_block ::
  "'d nmbm_instance \<Rightarrow> u64 \<Rightarrow> (bool \<times> 'd nmbm_instance) option" where
  "nmbm_erase_phys_block ni addr =
     (if read_only ni then Some (False, ni) else erase_tries NMBM_TRY_COUNT ni addr)"

text \<open>
  Calls that pass \<open>ni->page_cache\<close> as the data buffer (its first \<open>writesize\<close> bytes) or
  \<open>ni->page_cache + ni->lower.writesize\<close> as the spare-area buffer (the rest).
\<close>

definition read_page_cache ::
  "'d nmbm_instance \<Rightarrow> u64 \<Rightarrow> nmbm_oob_mode \<Rightarrow> (int \<times> 'd nmbm_instance) option" where
  "read_page_cache ni addr mode =
     do {
       buf \<leftarrow> mem_read (page_cache ni) 0 (unat (writesize (lower ni)));
       (ret, data, _, ni) \<leftarrow> nmbm_read_phys_page ni addr (Some buf) None mode;
       pc \<leftarrow> mem_write (page_cache ni) 0 (case data of None \<Rightarrow> [] | Some b \<Rightarrow> b);
       Some (ret, ni\<lparr>page_cache := pc\<rparr>)
     }"

definition read_page_cache_oob ::
  "'d nmbm_instance \<Rightarrow> u64 \<Rightarrow> nmbm_oob_mode \<Rightarrow> (int \<times> 'd nmbm_instance) option" where
  "read_page_cache_oob ni addr mode =
     do {
       let ws = unat (writesize (lower ni));
       buf \<leftarrow> mem_read (page_cache ni) ws (unat (oobsize (lower ni)));
       (ret, _, oob, ni) \<leftarrow> nmbm_read_phys_page ni addr None (Some buf) mode;
       pc \<leftarrow> mem_write (page_cache ni) ws (case oob of None \<Rightarrow> [] | Some b \<Rightarrow> b);
       Some (ret, ni\<lparr>page_cache := pc\<rparr>)
     }"

definition nmbm_check_bad_phys_block ::
  "'d nmbm_instance \<Rightarrow> u32 \<Rightarrow> (bool \<times> 'd nmbm_instance) option" where
  "nmbm_check_bad_phys_block ni ba =
     (let addr = ba2addr ni ba in
      case is_bad_block (lower ni) of
        Some f \<Rightarrow> (let (ret, d) = f (dev ni) addr in Some (ret \<noteq> 0, ni\<lparr>dev := d\<rparr>))
      | None \<Rightarrow>
          do {
            (ret, ni) \<leftarrow> read_page_cache_oob ni addr NMBM_MODE_RAW;
            if ret < 0 \<and> ret \<noteq> - EBADMSG then Some (True, ni)
            else do {
              b \<leftarrow> arr_get (page_cache ni) (unat (writesize (lower ni)));
              Some (b \<noteq> 0xff, ni)
            }
          })"

text \<open>
  The values of \<open>off\<close> in the loops \<open>for (off = 0; off < erasesize; off += writesize)\<close>. A
  page size of 0, for which the loop would not end, is refused by \<open>nmbm_check_lower_members\<close>.
\<close>

definition page_offsets :: "u32 \<Rightarrow> u32 \<Rightarrow> u64 list" where
  "page_offsets es ws =
     map (\<lambda>k. of_nat (k * unat ws)) [0..<(unat es + unat ws - 1) div unat ws]"

fun write_bad_marks :: "'d nmbm_instance \<Rightarrow> u64 \<Rightarrow> u64 list \<Rightarrow> 'd nmbm_instance option" where
  "write_bad_marks ni addr [] = Some ni"
| "write_bad_marks ni addr (off # offs) =
     do {
       data \<leftarrow> mem_read (page_cache ni) 0 (unat (writesize (lower ni)));
       oob \<leftarrow> mem_read (page_cache ni) (unat (writesize (lower ni))) (unat (oobsize (lower ni)));
       (_, ni) \<leftarrow> nmbm_write_phys_page ni (addr + off) (Some data) (Some oob) NMBM_MODE_RAW;
       write_bad_marks ni addr offs
     }"

definition nmbm_mark_phys_bad_block ::
  "'d nmbm_instance \<Rightarrow> u32 \<Rightarrow> (int \<times> 'd nmbm_instance) option" where
  "nmbm_mark_phys_bad_block ni ba =
     (let addr = ba2addr ni ba in
      if read_only ni then Some (0, ni)
      else case mark_bad_block (lower ni) of
        Some f \<Rightarrow> (let (ret, d) = f (dev ni) addr in Some (ret, ni\<lparr>dev := d\<rparr>))
      | None \<Rightarrow>
          do {
            pc \<leftarrow> mem_write (page_cache ni) 0 (replicate (unat (rawpage_size ni)) 0);
            let (level, ni) = nmbm_set_log_level (ni\<lparr>page_cache := pc\<rparr>) NMBM_LOG_MAX;
            ni \<leftarrow> write_bad_marks ni addr
                    (page_offsets (erasesize (lower ni)) (writesize (lower ni)));
            let (_, ni) = nmbm_set_log_level ni level;
            Some (0, ni)
          })"

section \<open>What the callbacks must respect\<close>

text \<open>
  The driver's side of the contract: the callbacks the core calls are present, and reading
  fills a buffer without changing its size. \<open>write_page\<close> and \<open>erase_block\<close> may be absent in
  read-only mode, as \<open>nmbm_check_lower_members\<close> allows.
\<close>

definition fills :: "bytes option \<Rightarrow> bytes option \<Rightarrow> bool" where
  "fills b b' \<longleftrightarrow> map_option length b' = map_option length b"

definition lower_ok :: "'d nmbm_lower_device \<Rightarrow> bool" where
  "lower_ok l \<longleftrightarrow>
     (\<exists>rp. read_page l = Some rp \<and>
        (\<forall>d addr data oob mode. case rp d addr data oob mode of
           (ret, data', oob', d') \<Rightarrow> fills data data' \<and> fills oob oob')) \<and>
     (flags l AND NMBM_F_READ_ONLY \<noteq> 0 \<or> write_page l \<noteq> None \<and> erase_block l \<noteq> None)"

text \<open>
  A predicate \<open>Q\<close> on chip states that survives everything but writes, erasures and bad-block
  marks outside the addresses \<open>A\<close>. Taking for \<open>Q\<close> ``this page holds these bytes'' and for
  \<open>A\<close> the blocks an operation may use, a theorem that an operation keeps \<open>Q\<close> says that it
  leaves every other block alone.
\<close>

definition dev_frame :: "'d nmbm_lower_device \<Rightarrow> ('d \<Rightarrow> bool) \<Rightarrow> (u64 \<Rightarrow> bool) \<Rightarrow> bool" where
  "dev_frame l Q A \<longleftrightarrow>
     (\<forall>f d. reset_chip l = Some f \<longrightarrow> Q d \<longrightarrow> Q (snd (f d))) \<and>
     (\<forall>f d a data oob mode. read_page l = Some f \<longrightarrow> Q d \<longrightarrow>
        Q (snd (snd (snd (f d a data oob mode))))) \<and>
     (\<forall>f d a. is_bad_block l = Some f \<longrightarrow> Q d \<longrightarrow> Q (snd (f d a))) \<and>
     (\<forall>f d a data oob mode. write_page l = Some f \<longrightarrow> A a \<longrightarrow> Q d \<longrightarrow>
        Q (snd (f d a data oob mode))) \<and>
     (\<forall>f d a. erase_block l = Some f \<longrightarrow> A a \<longrightarrow> Q d \<longrightarrow> Q (snd (f d a))) \<and>
     (\<forall>f d a. mark_bad_block l = Some f \<longrightarrow> A a \<longrightarrow> Q d \<longrightarrow> Q (snd (f d a)))"

definition dev_wf :: "'d nmbm_instance \<Rightarrow> bool" where
  "dev_wf ni \<longleftrightarrow>
     lower_ok (lower ni) \<and>
     length (page_cache ni) = unat (writesize (lower ni)) + unat (oobsize (lower ni)) \<and>
     unat (rawpage_size ni) = unat (writesize (lower ni)) + unat (oobsize (lower ni)) \<and>
     0 < oobsize (lower ni)"

text \<open>
  What a chip access may change of the instance: the chip, the page cache (not its size),
  nothing else.
\<close>

definition dev_step :: "('d \<Rightarrow> bool) \<Rightarrow> 'd nmbm_instance \<Rightarrow> 'd nmbm_instance \<Rightarrow> bool" where
  "dev_step Q ni ni' \<longleftrightarrow>
     (\<exists>d pc. ni' = ni\<lparr>dev := d, page_cache := pc\<rparr> \<and>
        length pc = length (page_cache ni) \<and> (Q (dev ni) \<longrightarrow> Q d))"

lemma dev_stepI:
  "ni' = ni\<lparr>dev := d, page_cache := pc\<rparr> \<Longrightarrow> length pc = length (page_cache ni) \<Longrightarrow>
    (Q (dev ni) \<Longrightarrow> Q d) \<Longrightarrow> dev_step Q ni ni'"
  by (auto simp: dev_step_def)

lemma dev_step_refl [simp, intro]: "dev_step Q ni ni"
  by (rule dev_stepI [where d = "dev ni" and pc = "page_cache ni"]) simp_all

lemma dev_step_trans: "dev_step Q a b \<Longrightarrow> dev_step Q b c \<Longrightarrow> dev_step Q a c"
  by (fastforce simp: dev_step_def)

lemma dev_step_Q: "dev_step Q a b \<Longrightarrow> Q (dev a) \<Longrightarrow> Q (dev b)"
  by (auto simp: dev_step_def)

lemma dev_step_dev: "dev_step Q ni (ni\<lparr>dev := d\<rparr>) \<longleftrightarrow> (Q (dev ni) \<longrightarrow> Q d)"
proof
  assume "dev_step Q ni (ni\<lparr>dev := d\<rparr>)"
  then show "Q (dev ni) \<longrightarrow> Q d"
    by (auto dest: dev_step_Q)
next
  assume "Q (dev ni) \<longrightarrow> Q d"
  then show "dev_step Q ni (ni\<lparr>dev := d\<rparr>)"
    by (intro dev_stepI [where d = d and pc = "page_cache ni"]) simp_all
qed

lemma dev_step_page_cache:
  "length pc = length (page_cache ni) \<Longrightarrow> dev_step Q ni (ni\<lparr>page_cache := pc\<rparr>)"
  by (rule dev_stepI [where d = "dev ni" and pc = pc]) simp_all

lemma dev_step_restore_log:
  assumes "dev_step Q (ni\<lparr>page_cache := p, log_display_level := l\<rparr>) ni'"
    and "length p = length (page_cache ni)"
  shows "dev_step Q ni (ni'\<lparr>log_display_level := log_display_level ni\<rparr>)"
proof -
  from assms(1) obtain d pc where
      "ni' = ni\<lparr>page_cache := p, log_display_level := l\<rparr>\<lparr>dev := d, page_cache := pc\<rparr>"
    and "length pc = length p" and "Q (dev ni) \<longrightarrow> Q d"
    by (auto simp: dev_step_def)
  then show ?thesis
    using assms(2) by (intro dev_stepI [where d = d and pc = pc]) simp_all
qed

lemma dev_step_wf: "dev_step Q ni ni' \<Longrightarrow> dev_wf ni \<Longrightarrow> dev_wf ni'"
  by (auto simp: dev_step_def dev_wf_def)

lemma dev_step_fields:
  assumes "dev_step Q ni ni'"
  shows "lower ni' = lower ni" and "block_state ni' = block_state ni"
    and "block_count ni' = block_count ni" and "erasesize_shift ni' = erasesize_shift ni"
    and "writesize_mask ni' = writesize_mask ni" and "rawpage_size ni' = rawpage_size ni"
    and "length (page_cache ni') = length (page_cache ni)"
    and "read_only ni' = read_only ni" and "ba2addr ni' = ba2addr ni"
    and "addr2ba ni' = addr2ba ni"
  using assms by (auto simp: dev_step_def read_only_def ba2addr_def addr2ba_def fun_eq_iff)

section \<open>Contracts of the chip accesses\<close>

lemma nmbm_reset_chip_step: "dev_frame (lower ni) Q A \<Longrightarrow> dev_step Q ni (nmbm_reset_chip ni)"
  by (cases "reset_chip (lower ni)")
    (auto simp: nmbm_reset_chip_def dev_frame_def dev_step_dev)

lemma fills_trans: "fills a b \<Longrightarrow> fills b c \<Longrightarrow> fills a c"
  by (simp add: fills_def)

lemma fills_None [simp]: "fills None b \<longleftrightarrow> b = None"
  by (simp add: fills_def)

lemma fills_Some: "fills (Some b) x \<longleftrightarrow> (\<exists>c. x = Some c \<and> length c = length b)"
  by (cases x) (auto simp: fills_def)

lemma fills_refl [simp]: "fills b b"
  by (simp add: fills_def)

lemma read_page_step:
  assumes "lower_ok (lower ni)" and "dev_frame (lower ni) Q A"
    and "read_page (lower ni) = Some rp"
    and "rp (dev ni) addr data oob mode = (ret, data', oob', d)"
  shows "fills data data'" and "fills oob oob'" and "dev_step Q ni (ni\<lparr>dev := d\<rparr>)"
proof -
  from assms(1,3) have "case rp (dev ni) addr data oob mode of
      (ret, data', oob', d') \<Rightarrow> fills data data' \<and> fills oob oob'"
    by (auto simp: lower_ok_def)
  with assms(4) show "fills data data'" and "fills oob oob'" by auto
  from assms(2,3) have "Q (dev ni) \<longrightarrow> Q (snd (snd (snd (rp (dev ni) addr data oob mode))))"
    by (auto simp: dev_frame_def)
  with assms(4) show "dev_step Q ni (ni\<lparr>dev := d\<rparr>)" by (simp add: dev_step_dev)
qed

lemma read_tries_returns:
  "lower_ok (lower ni) \<Longrightarrow> dev_frame (lower ni) Q A \<Longrightarrow>
   returns (read_tries n ni addr data oob mode ret)
     (\<lambda>(ret', data', oob', ni'). dev_step Q ni ni' \<and> fills data data' \<and> fills oob oob')"
proof (induction n arbitrary: ni data oob ret)
  case 0
  then show ?case by simp
next
  case (Suc n)
  from Suc.prems(1) obtain rp where rp: "read_page (lower ni) = Some rp"
    by (auto simp: lower_ok_def)
  obtain r data1 oob1 d where eq: "rp (dev ni) addr data oob mode = (r, data1, oob1, d)"
    by (metis prod_cases4)
  note step = read_page_step [OF Suc.prems rp eq]
  let ?ni = "nmbm_reset_chip (ni\<lparr>dev := d\<rparr>)"
  have reset: "dev_step Q (ni\<lparr>dev := d\<rparr>) ?ni"
    by (rule nmbm_reset_chip_step) (use Suc.prems in simp)
  have to: "dev_step Q ni ?ni" by (rule dev_step_trans [OF step(3) reset])
  have "returns (read_tries n ?ni addr data1 oob1 mode r)
      (\<lambda>(ret', data', oob', ni'). dev_step Q ?ni ni' \<and> fills data1 data' \<and> fills oob1 oob')"
    by (rule Suc.IH) (use Suc.prems dev_step_fields(1) [OF to] in simp_all)
  then have "returns (read_tries n ?ni addr data1 oob1 mode r)
      (\<lambda>(ret', data', oob', ni'). dev_step Q ni ni' \<and> fills data data' \<and> fills oob oob')"
    by (rule returns_mono) (auto intro: dev_step_trans [OF to] fills_trans [OF step(1)]
        fills_trans [OF step(2)])
  then show ?case
    using step by (simp add: rp eq Let_def)
qed

lemma nmbm_read_phys_page_returns:
  "lower_ok (lower ni) \<Longrightarrow> dev_frame (lower ni) Q A \<Longrightarrow>
   returns (nmbm_read_phys_page ni addr data oob mode)
     (\<lambda>(ret', data', oob', ni'). dev_step Q ni ni' \<and> fills data data' \<and> fills oob oob')"
  unfolding nmbm_read_phys_page_def by (rule read_tries_returns)

lemma write_tries_returns:
  "write_page (lower ni) \<noteq> None \<Longrightarrow> dev_frame (lower ni) Q A \<Longrightarrow> A addr \<Longrightarrow>
   returns (write_tries n ni addr data oob mode) (\<lambda>(ok, ni'). dev_step Q ni ni')"
proof (induction n arbitrary: ni)
  case 0
  then show ?case by simp
next
  case (Suc n)
  from Suc.prems(1) obtain wp where wp: "write_page (lower ni) = Some wp" by auto
  obtain r d where eq: "wp (dev ni) addr data oob mode = (r, d)" by force
  have "Q (dev ni) \<longrightarrow> Q (snd (wp (dev ni) addr data oob mode))"
    using Suc.prems(2,3) wp by (simp add: dev_frame_def)
  then have w: "dev_step Q ni (ni\<lparr>dev := d\<rparr>)" by (simp add: eq dev_step_dev)
  let ?ni = "nmbm_reset_chip (ni\<lparr>dev := d\<rparr>)"
  have "dev_step Q (ni\<lparr>dev := d\<rparr>) ?ni"
    by (rule nmbm_reset_chip_step) (use Suc.prems in simp)
  then have to: "dev_step Q ni ?ni" by (rule dev_step_trans [OF w])
  have "returns (write_tries n ?ni addr data oob mode) (\<lambda>(ok, ni'). dev_step Q ?ni ni')"
    by (rule Suc.IH) (use Suc.prems dev_step_fields(1) [OF to] in simp_all)
  then have "returns (write_tries n ?ni addr data oob mode) (\<lambda>(ok, ni'). dev_step Q ni ni')"
    by (rule returns_mono) (auto intro: dev_step_trans [OF to])
  then show ?case
    using w by (simp add: wp eq Let_def)
qed

lemma nmbm_write_phys_page_returns:
  assumes "lower_ok (lower ni)" and "dev_frame (lower ni) Q A" and "read_only ni \<or> A addr"
  shows "returns (nmbm_write_phys_page ni addr data oob mode)
    (\<lambda>(ok, ni'). dev_step Q ni ni' \<and> (read_only ni \<longrightarrow> \<not> ok))"
proof (cases "read_only ni")
  case True
  then show ?thesis by (simp add: nmbm_write_phys_page_def)
next
  case False
  with assms have "write_page (lower ni) \<noteq> None" and "A addr"
    by (auto simp: lower_ok_def read_only_def)
  from write_tries_returns [OF this(1) assms(2) this(2)] False show ?thesis
    by (auto simp: nmbm_write_phys_page_def)
qed

lemma erase_tries_returns:
  "erase_block (lower ni) \<noteq> None \<Longrightarrow> dev_frame (lower ni) Q A \<Longrightarrow> A addr \<Longrightarrow>
   returns (erase_tries n ni addr) (\<lambda>(ok, ni'). dev_step Q ni ni')"
proof (induction n arbitrary: ni)
  case 0
  then show ?case by simp
next
  case (Suc n)
  from Suc.prems(1) obtain eb where eb: "erase_block (lower ni) = Some eb" by auto
  obtain r d where eq: "eb (dev ni) addr = (r, d)" by force
  have "Q (dev ni) \<longrightarrow> Q (snd (eb (dev ni) addr))"
    using Suc.prems(2,3) eb by (simp add: dev_frame_def)
  then have w: "dev_step Q ni (ni\<lparr>dev := d\<rparr>)" by (simp add: eq dev_step_dev)
  let ?ni = "nmbm_reset_chip (ni\<lparr>dev := d\<rparr>)"
  have "dev_step Q (ni\<lparr>dev := d\<rparr>) ?ni"
    by (rule nmbm_reset_chip_step) (use Suc.prems in simp)
  then have to: "dev_step Q ni ?ni" by (rule dev_step_trans [OF w])
  have "returns (erase_tries n ?ni addr) (\<lambda>(ok, ni'). dev_step Q ?ni ni')"
    by (rule Suc.IH) (use Suc.prems dev_step_fields(1) [OF to] in simp_all)
  then have "returns (erase_tries n ?ni addr) (\<lambda>(ok, ni'). dev_step Q ni ni')"
    by (rule returns_mono) (auto intro: dev_step_trans [OF to])
  then show ?case
    using w by (simp add: eb eq Let_def)
qed

lemma nmbm_erase_phys_block_returns:
  assumes "lower_ok (lower ni)" and "dev_frame (lower ni) Q A" and "read_only ni \<or> A addr"
  shows "returns (nmbm_erase_phys_block ni addr)
    (\<lambda>(ok, ni'). dev_step Q ni ni' \<and> (read_only ni \<longrightarrow> \<not> ok))"
proof (cases "read_only ni")
  case True
  then show ?thesis by (simp add: nmbm_erase_phys_block_def)
next
  case False
  with assms have "erase_block (lower ni) \<noteq> None" and "A addr"
    by (auto simp: lower_ok_def read_only_def)
  from erase_tries_returns [OF this(1) assms(2) this(2)] False show ?thesis
    by (auto simp: nmbm_erase_phys_block_def)
qed

lemma read_page_cache_returns:
  assumes "dev_wf ni" and "dev_frame (lower ni) Q A"
  shows "returns (read_page_cache ni addr mode) (\<lambda>(ret, ni'). dev_step Q ni ni')"
proof -
  let ?ws = "unat (writesize (lower ni))"
  from assms(1) have len: "?ws \<le> length (page_cache ni)" and ok: "lower_ok (lower ni)"
    by (auto simp: dev_wf_def)
  have "returns (nmbm_read_phys_page ni addr (Some (take ?ws (page_cache ni))) None mode)
     (\<lambda>(ret', data', oob', ni'). dev_step Q ni ni' \<and>
        fills (Some (take ?ws (page_cache ni))) data' \<and> fills None oob')"
    by (rule nmbm_read_phys_page_returns [OF ok assms(2)])
  note read = returns_mono [OF this]
  show ?thesis
    unfolding read_page_cache_def using len
    by (simp add: returns_simps, intro read)
      (auto simp: returns_simps fills_Some dev_step_fields(7)
        intro!: dev_step_trans [OF _ dev_step_page_cache])
qed

lemma read_page_cache_oob_returns:
  assumes "dev_wf ni" and "dev_frame (lower ni) Q A"
  shows "returns (read_page_cache_oob ni addr mode) (\<lambda>(ret, ni'). dev_step Q ni ni')"
proof -
  let ?ws = "unat (writesize (lower ni))" and ?os = "unat (oobsize (lower ni))"
  let ?buf = "drop ?ws (page_cache ni)"
  from assms(1) have len: "length (page_cache ni) = ?ws + ?os" and ok: "lower_ok (lower ni)"
    by (auto simp: dev_wf_def)
  have "returns (nmbm_read_phys_page ni addr None (Some ?buf) mode)
     (\<lambda>(ret', data', oob', ni'). dev_step Q ni ni' \<and> fills None data' \<and> fills (Some ?buf) oob')"
    by (rule nmbm_read_phys_page_returns [OF ok assms(2)])
  note read = returns_mono [OF this]
  show ?thesis
    unfolding read_page_cache_oob_def using len
    by (simp add: returns_simps Let_def, intro read)
      (auto simp: returns_simps fills_Some dev_step_fields(7)
        intro!: dev_step_trans [OF _ dev_step_page_cache])
qed

lemma nmbm_check_bad_phys_block_returns:
  assumes "dev_wf ni" and "dev_frame (lower ni) Q A"
  shows "returns (nmbm_check_bad_phys_block ni ba) (\<lambda>(bad, ni'). dev_step Q ni ni')"
proof (cases "is_bad_block (lower ni)")
  case None
  have "returns (read_page_cache_oob ni (ba2addr ni ba) NMBM_MODE_RAW)
     (\<lambda>(ret, ni'). dev_step Q ni ni')"
    by (rule read_page_cache_oob_returns [OF assms])
  moreover from assms(1) have "unat (writesize (lower ni)) < length (page_cache ni)"
    by (auto simp: dev_wf_def word_less_nat_alt)
  ultimately show ?thesis
    by (auto simp: nmbm_check_bad_phys_block_def None returns_simps dev_step_fields(1,7)
        elim!: returns_mono)
next
  case (Some f)
  obtain r d where eq: "f (dev ni) (ba2addr ni ba) = (r, d)" by force
  from assms(2) Some have "Q (dev ni) \<longrightarrow> Q (snd (f (dev ni) (ba2addr ni ba)))"
    by (simp add: dev_frame_def)
  with eq show ?thesis
    by (simp add: nmbm_check_bad_phys_block_def Some dev_step_dev)
qed

lemma page_offsets_less:
  assumes "off \<in> set (page_offsets es ws)"
  shows "off < ucast es"
proof -
  from assms obtain k where k: "k < (unat es + unat ws - 1) div unat ws"
    and off: "off = of_nat (k * unat ws)"
    by (auto simp: page_offsets_def)
  from k have ws: "0 < unat ws" by (cases "unat ws = 0") auto
  from k have "Suc k * unat ws \<le> (unat es + unat ws - 1) div unat ws * unat ws"
    by (intro mult_le_mono1) simp
  also have "\<dots> \<le> unat es + unat ws - 1" by simp
  finally have less: "k * unat ws < unat es" using ws by simp
  from less unat_u32_less [of es] have "unat (of_nat (k * unat ws) :: u64) = k * unat ws"
    by (intro unat_of_nat_small) simp
  with less show ?thesis
    by (simp add: off word_less_nat_alt)
qed

text \<open>The addresses of block \<open>ba\<close> that an operation on it may name.\<close>

definition blk_allowed :: "(u64 \<Rightarrow> bool) \<Rightarrow> 'd nmbm_instance \<Rightarrow> u32 \<Rightarrow> bool" where
  "blk_allowed A ni ba \<longleftrightarrow>
     read_only ni \<or>
     A (ba2addr ni ba) \<and>
     (\<forall>off. off < ucast (erasesize (lower ni)) \<longrightarrow> A (ba2addr ni ba + off))"

lemma dev_step_blk_allowed: "dev_step Q ni ni' \<Longrightarrow> blk_allowed A ni' ba = blk_allowed A ni ba"
  by (simp add: blk_allowed_def dev_step_fields)

lemma write_bad_marks_returns:
  "dev_wf ni \<Longrightarrow> dev_frame (lower ni) Q A \<Longrightarrow> \<forall>off \<in> set offs. read_only ni \<or> A (addr + off) \<Longrightarrow>
   returns (write_bad_marks ni addr offs) (dev_step Q ni)"
proof (induction offs arbitrary: ni)
  case Nil
  then show ?case by simp
next
  case (Cons off offs)
  let ?data = "take (unat (writesize (lower ni))) (page_cache ni)"
  let ?oob = "take (unat (oobsize (lower ni))) (drop (unat (writesize (lower ni))) (page_cache ni))"
  from Cons.prems(1) have len:
      "length (page_cache ni) = unat (writesize (lower ni)) + unat (oobsize (lower ni))"
    and ok: "lower_ok (lower ni)"
    by (auto simp: dev_wf_def)
  have "returns (nmbm_write_phys_page ni (addr + off) (Some ?data) (Some ?oob) NMBM_MODE_RAW)
      (\<lambda>(ok, ni'). dev_step Q ni ni' \<and> (read_only ni \<longrightarrow> \<not> ok))"
    by (rule nmbm_write_phys_page_returns [OF ok Cons.prems(2)]) (use Cons.prems(3) in auto)
  moreover have "returns (write_bad_marks ni' addr offs) (dev_step Q ni)"
    if "dev_step Q ni ni'" for ni'
  proof -
    have "returns (write_bad_marks ni' addr offs) (dev_step Q ni')"
      by (rule Cons.IH)
        (use that Cons.prems in \<open>auto simp: dev_step_fields dest: dev_step_wf\<close>)
    then show ?thesis by (rule returns_mono) (rule dev_step_trans [OF that])
  qed
  ultimately show ?case
    using len by (auto simp: returns_simps intro: returns_mono)
qed

lemma nmbm_mark_phys_bad_block_returns:
  assumes "dev_wf ni" and "dev_frame (lower ni) Q A" and "blk_allowed A ni ba"
  shows "returns (nmbm_mark_phys_bad_block ni ba) (\<lambda>(ret, ni'). dev_step Q ni ni')"
proof (cases "read_only ni")
  case True
  then show ?thesis by (simp add: nmbm_mark_phys_bad_block_def)
next
  case rw: False
  show ?thesis
  proof (cases "mark_bad_block (lower ni)")
    case (Some f)
    obtain r d where eq: "f (dev ni) (ba2addr ni ba) = (r, d)" by force
    from assms(2,3) Some rw have "Q (dev ni) \<longrightarrow> Q (snd (f (dev ni) (ba2addr ni ba)))"
      by (simp add: dev_frame_def blk_allowed_def)
    with eq rw show ?thesis
      by (simp add: nmbm_mark_phys_bad_block_def Some dev_step_dev)
  next
    case None
    let ?pc = "replicate (unat (rawpage_size ni)) 0"
    let ?ni = "ni\<lparr>page_cache := ?pc, log_display_level := NMBM_LOG_MAX\<rparr>"
    let ?offs = "page_offsets (erasesize (lower ni)) (writesize (lower ni))"
    from assms(1) have len: "length (page_cache ni) = unat (rawpage_size ni)"
      by (simp add: dev_wf_def)
    have "returns (write_bad_marks ?ni (ba2addr ni ba) ?offs) (dev_step Q ?ni)"
    proof (rule write_bad_marks_returns)
      show "dev_wf ?ni" using assms(1) by (simp add: dev_wf_def)
      show "dev_frame (lower ?ni) Q A" using assms(2) by simp
      show "\<forall>off \<in> set ?offs. read_only ?ni \<or> A (ba2addr ni ba + off)"
        using assms(3) rw page_offsets_less by (auto simp: blk_allowed_def)
    qed
    then have "returns (write_bad_marks ?ni (ba2addr ni ba) ?offs)
        (\<lambda>ni'. dev_step Q ni (ni'\<lparr>log_display_level := log_display_level ni\<rparr>))"
      using len by (elim returns_mono) (auto intro!: dev_step_restore_log)
    with rw len show ?thesis
      by (simp add: nmbm_mark_phys_bad_block_def None returns_simps nmbm_set_log_level_def Let_def)
  qed
qed

end
