(* ===== verification/Nmbm_State.thy ===== *)
theory Nmbm_State
  imports Nmbm_Device
begin

text \<open>
  The block state table and the operations on it: \<open>nmbm_get_block_state\<close>,
  \<open>nmbm_set_block_state\<close>, the walks over good blocks, the bad-block scan and the initial
  mapping table (\<open>nmbm-core.c\<close>, lines 401 to 633).

  The table packs two bits per block into 32-bit units. The lemmas relate the packed table to
  the plain function \<open>st_of\<close> from block numbers to states; the interface \<open>state_table\<close> states
  what the rest of the development uses of it. A block walk is shown to compute the \<open>n\<close>-th
  element of the list of good blocks, and the initial mapping to be the list of blocks below
  the management area that are not bad.
\<close>

section \<open>Operations\<close>

definition nmbm_get_spare_block_count :: "u32 \<Rightarrow> u32" where
  "nmbm_get_spare_block_count blocks =
     (let val = (blocks + NMBM_SPARE_BLOCK_DIV div 2) div NMBM_SPARE_BLOCK_DIV;
          val = val * NMBM_SPARE_BLOCK_MULTI
      in if val < NMBM_SPARE_BLOCK_MIN then NMBM_SPARE_BLOCK_MIN else val)"

definition nmbm_get_block_state_raw :: "u32 list \<Rightarrow> u32 \<Rightarrow> u32 option" where
  "nmbm_get_block_state_raw bs ba =
     do {
       let unit = ba div NMBM_BITMAP_BLOCKS_PER_UNIT;
       let shift = (ba mod NMBM_BITMAP_BLOCKS_PER_UNIT) * NMBM_BITMAP_BITS_PER_BLOCK;
       uv \<leftarrow> arr_get bs (unat unit);
       Some (drop_bit (unat shift) uv AND BLOCK_ST_MASK)
     }"

definition nmbm_get_block_state :: "'d nmbm_instance \<Rightarrow> u32 \<Rightarrow> u32 option" where
  "nmbm_get_block_state ni ba = nmbm_get_block_state_raw (block_state ni) ba"

definition nmbm_set_block_state ::
  "'d nmbm_instance \<Rightarrow> u32 \<Rightarrow> u32 \<Rightarrow> (bool \<times> 'd nmbm_instance) option" where
  "nmbm_set_block_state ni ba state =
     do {
       let unit = ba div NMBM_BITMAP_BLOCKS_PER_UNIT;
       let shift = (ba mod NMBM_BITMAP_BLOCKS_PER_UNIT) * NMBM_BITMAP_BITS_PER_BLOCK;
       w \<leftarrow> arr_get (block_state ni) (unat unit);
       let orig = drop_bit (unat shift) w AND BLOCK_ST_MASK;
       let state = state AND BLOCK_ST_MASK;
       let uv = w AND NOT (push_bit (unat shift) BLOCK_ST_MASK);
       let uv = uv OR push_bit (unat shift) state;
       bs \<leftarrow> arr_set (block_state ni) (unat unit) uv;
       let ni = ni\<lparr>block_state := bs\<rparr>;
       if orig \<noteq> state
       then Some (True, ni\<lparr>block_state_changed := block_state_changed ni + 1\<rparr>)
       else Some (False, ni)
     }"

text \<open>
  The walks. \<open>nblock\<close> is the signed counter of the C code; the result is \<open>None\<close> for
  \<open>false\<close> and the address stored through \<open>nba\<close> for \<open>true\<close>.
\<close>

function walk_asc_loop :: "'d nmbm_instance \<Rightarrow> u32 \<Rightarrow> u32 \<Rightarrow> u32 \<Rightarrow> u32 option option" where
  "walk_asc_loop ni ba nblock limit =
     (if ba < limit then
        do {
          st \<leftarrow> nmbm_get_block_state ni ba;
          let nblock = (if st = BLOCK_ST_GOOD then nblock - 1 else nblock);
          if sint nblock < 0 then Some (Some ba)
          else walk_asc_loop ni (ba + 1) nblock limit
        }
      else Some None)"
  by pat_completeness auto
termination
  by (relation "measure (\<lambda>(ni, ba, nblock, limit). unat limit - unat ba)")
    (auto simp: word_less_nat_alt)

function walk_desc_loop :: "'d nmbm_instance \<Rightarrow> u32 \<Rightarrow> u32 \<Rightarrow> u32 \<Rightarrow> u32 option option" where
  "walk_desc_loop ni ba nblock limit =
     (if ba > limit then
        do {
          st \<leftarrow> nmbm_get_block_state ni ba;
          let nblock = (if st = BLOCK_ST_GOOD then nblock - 1 else nblock);
          if sint nblock < 0 then Some (Some ba)
          else walk_desc_loop ni (ba - 1) nblock limit
        }
      else Some None)"
  by pat_completeness auto
termination
  by (relation "measure (\<lambda>(ni, ba, nblock, limit). unat ba)") (auto simp: word_less_nat_alt)

declare walk_asc_loop.simps [simp del] walk_desc_loop.simps [simp del]

definition nmbm_block_walk_asc :: "'d nmbm_instance \<Rightarrow> u32 \<Rightarrow> u32 \<Rightarrow> u32 \<Rightarrow> u32 option option" where
  "nmbm_block_walk_asc ni ba count limit =
     walk_asc_loop ni ba count
       (if limit \<ge> block_count ni then block_count ni - 1 else limit)"

definition nmbm_block_walk_desc :: "'d nmbm_instance \<Rightarrow> u32 \<Rightarrow> u32 \<Rightarrow> u32 \<Rightarrow> u32 option option" where
  "nmbm_block_walk_desc ni ba count limit =
     walk_desc_loop ni ba count
       (if limit \<ge> block_count ni then block_count ni - 1 else limit)"

definition nmbm_block_walk ::
  "'d nmbm_instance \<Rightarrow> bool \<Rightarrow> u32 \<Rightarrow> u32 \<Rightarrow> u32 \<Rightarrow> u32 option option" where
  "nmbm_block_walk ni ascending ba count limit =
     (if ascending then nmbm_block_walk_asc ni ba count limit
      else nmbm_block_walk_desc ni ba count limit)"

function scan_loop :: "'d nmbm_instance \<Rightarrow> u32 \<Rightarrow> u32 \<Rightarrow> 'd nmbm_instance option" where
  "scan_loop ni ba limit =
     (if ba < limit then
        do {
          (bad, ni) \<leftarrow> nmbm_check_bad_phys_block ni ba;
          ni \<leftarrow> (if bad then map_option snd (nmbm_set_block_state ni ba BLOCK_ST_BAD)
                 else Some ni);
          scan_loop ni (ba + 1) limit
        }
      else Some ni)"
  by pat_completeness auto
termination
  by (relation "measure (\<lambda>(ni, ba, limit). unat limit - unat ba)") (auto simp: word_less_nat_alt)

declare scan_loop.simps [simp del]

definition nmbm_scan_badblocks :: "'d nmbm_instance \<Rightarrow> 'd nmbm_instance option" where
  "nmbm_scan_badblocks ni = scan_loop ni 0 (block_count ni)"

function build_loop :: "'d nmbm_instance \<Rightarrow> u32 \<Rightarrow> u32 \<Rightarrow> u32 \<Rightarrow> (u32 \<times> 'd nmbm_instance) option" where
  "build_loop ni pb lb limit =
     (if pb < limit then
        do {
          st \<leftarrow> nmbm_get_block_state ni pb;
          if st = BLOCK_ST_BAD then build_loop ni (pb + 1) lb limit
          else do {
            bm \<leftarrow> arr_set (block_mapping ni) (unat lb) pb;
            build_loop (ni\<lparr>block_mapping := bm\<rparr>) (pb + 1) (lb + 1) limit
          }
        }
      else Some (lb, ni))"
  by pat_completeness auto
termination
  by (relation "measure (\<lambda>(ni, pb, lb, limit). unat limit - unat pb)")
    (auto simp: word_less_nat_alt)

function unmap_loop :: "'d nmbm_instance \<Rightarrow> u32 \<Rightarrow> u32 \<Rightarrow> 'd nmbm_instance option" where
  "unmap_loop ni pb limit =
     (if pb < limit then
        do {
          bm \<leftarrow> arr_set (block_mapping ni) (unat pb) (- 1);
          unmap_loop (ni\<lparr>block_mapping := bm\<rparr>) (pb + 1) limit
        }
      else Some ni)"
  by pat_completeness auto
termination
  by (relation "measure (\<lambda>(ni, pb, limit). unat limit - unat pb)") (auto simp: word_less_nat_alt)

declare build_loop.simps [simp del] unmap_loop.simps [simp del]

definition nmbm_build_mapping_table :: "'d nmbm_instance \<Rightarrow> 'd nmbm_instance option" where
  "nmbm_build_mapping_table ni =
     do {
       (lb, ni) \<leftarrow> build_loop ni 0 0 (mgmt_start_ba ni);
       let ni = ni\<lparr>data_block_count := lb\<rparr>;
       unmap_loop ni lb (block_count ni)
     }"

section \<open>The packed table as a function on block numbers\<close>

definition st_of :: "u32 list \<Rightarrow> nat \<Rightarrow> u32" where
  "st_of bs i = drop_bit (2 * (i mod 16)) (bs ! (i div 16)) AND BLOCK_ST_MASK"

definition st_put :: "u32 list \<Rightarrow> nat \<Rightarrow> u32 \<Rightarrow> u32 list" where
  "st_put bs i v =
     bs[i div 16 := (bs ! (i div 16) AND NOT (push_bit (2 * (i mod 16)) BLOCK_ST_MASK))
                      OR push_bit (2 * (i mod 16)) (v AND BLOCK_ST_MASK)]"

lemma length_st_put [simp]: "length (st_put bs i v) = length bs"
  by (simp add: st_put_def)

lemma bitmap_index:
  fixes ba :: u32
  shows "unat (ba div NMBM_BITMAP_BLOCKS_PER_UNIT) = unat ba div 16"
    and "unat ((ba mod NMBM_BITMAP_BLOCKS_PER_UNIT) * NMBM_BITMAP_BITS_PER_BLOCK)
      = 2 * (unat ba mod 16)"
proof -
  show "unat (ba div NMBM_BITMAP_BLOCKS_PER_UNIT) = unat ba div 16"
    by (simp add: NMBM_BITMAP_BLOCKS_PER_UNIT_def unat_div)
  have "unat (ba mod 16) * 2 < 2 ^ 32"
    by (simp add: unat_mod)
  then have "unat ((ba mod 16) * 2) = unat (ba mod 16) * 2"
    by (simp add: unat_word_ariths)
  then show "unat ((ba mod NMBM_BITMAP_BLOCKS_PER_UNIT) * NMBM_BITMAP_BITS_PER_BLOCK)
      = 2 * (unat ba mod 16)"
    by (simp add: NMBM_BITMAP_BLOCKS_PER_UNIT_def NMBM_BITMAP_BITS_PER_BLOCK_def unat_mod)
qed

lemma bitmap_unit: "i < 16 * length (bs :: u32 list) \<Longrightarrow> i div 16 < length bs"
  by (simp add: less_mult_imp_div_less mult.commute)

lemma nmbm_get_block_state_raw_eq:
  "unat ba < 16 * length bs \<Longrightarrow> nmbm_get_block_state_raw bs ba = Some (st_of bs (unat ba))"
  by (simp add: nmbm_get_block_state_raw_def bitmap_index bitmap_unit arr_get_def st_of_def Let_def)

lemma nmbm_set_block_state_eq:
  assumes "unat ba < 16 * length (block_state ni)"
  shows "nmbm_set_block_state ni ba st =
    (let ni' = ni\<lparr>block_state := st_put (block_state ni) (unat ba) st\<rparr> in
     if st_of (block_state ni) (unat ba) \<noteq> st AND BLOCK_ST_MASK
     then Some (True, ni'\<lparr>block_state_changed := block_state_changed ni + 1\<rparr>)
     else Some (False, ni'))"
  using bitmap_unit [OF assms]
  by (simp add: nmbm_set_block_state_def bitmap_index arr_get_def arr_set_def st_of_def st_put_def
      Let_def)

lemma bit_BLOCK_ST_MASK: "bit BLOCK_ST_MASK n \<longleftrightarrow> n < 2"
proof -
  have mask: "BLOCK_ST_MASK = mask 2" by (simp add: BLOCK_ST_MASK_def mask_eq_exp_minus_1)
  show ?thesis unfolding mask bit_mask_iff by auto
qed

lemma st_bit: "bit (st_of bs i) n \<longleftrightarrow> n < 2 \<and> bit (bs ! (i div 16)) (2 * (i mod 16) + n)"
  by (auto simp: st_of_def bit_BLOCK_ST_MASK bit_simps)

lemma st_of_put_other_unit:
  "i div 16 \<noteq> j div 16 \<Longrightarrow> st_of (st_put bs i v) j = st_of bs j"
  by (simp add: st_of_def st_put_def)

lemma st_of_put_same_unit:
  assumes "i div 16 < length bs" and "i div 16 = j div 16"
  shows "bit (st_of (st_put bs i v) j) n \<longleftrightarrow>
    (if i mod 16 = j mod 16 then n < 2 \<and> bit v n else bit (st_of bs j) n)"
proof -
  consider "i mod 16 < j mod 16" | "i mod 16 = j mod 16" | "j mod 16 < i mod 16"
    by linarith
  then show ?thesis
  proof cases
    case 1
    then have "2 * (i mod 16) + 2 \<le> 2 * (j mod 16)" by linarith
    with 1 assms show ?thesis
      by (auto simp: st_bit st_put_def bit_BLOCK_ST_MASK bit_simps)
  next
    case 2
    have "2 * (j mod 16) + n < 32" if "n < 2"
      using that by linarith
    with 2 assms show ?thesis
      by (auto simp: st_bit st_put_def bit_BLOCK_ST_MASK bit_simps)
  next
    case 3
    then have "2 * (j mod 16) + 2 \<le> 2 * (i mod 16)" by linarith
    with 3 assms show ?thesis
      by (auto simp: st_bit st_put_def bit_BLOCK_ST_MASK bit_simps)
  qed
qed

lemma st_of_put:
  assumes "i < 16 * length bs"
  shows "st_of (st_put bs i v) j = (if i = j then v AND BLOCK_ST_MASK else st_of bs j)"
proof (cases "i div 16 = j div 16")
  case True
  have eq: "i = j \<longleftrightarrow> i mod 16 = j mod 16"
    using True by (metis div_mult_mod_eq)
  show ?thesis
    by (rule bit_word_eqI)
      (auto simp: eq st_of_put_same_unit [OF bitmap_unit [OF assms] True] bit_BLOCK_ST_MASK bit_simps)
next
  case False
  then show ?thesis by (auto simp: st_of_put_other_unit)
qed

section \<open>The interface of the state table\<close>

text \<open>
  Bad blocks are only ever added: \<open>degrades n lo hi f f'\<close> says that among the first \<open>n\<close> blocks
  nothing changed between \<open>f\<close> and \<open>f'\<close> except that some good blocks in \<open>[lo, hi)\<close> became bad.
\<close>

definition degrades :: "nat \<Rightarrow> nat \<Rightarrow> nat \<Rightarrow> (nat \<Rightarrow> u32) \<Rightarrow> (nat \<Rightarrow> u32) \<Rightarrow> bool" where
  "degrades n lo hi f f' \<longleftrightarrow>
     (\<forall>i < n. f' i = f i \<or> f i = BLOCK_ST_GOOD \<and> f' i = BLOCK_ST_BAD \<and> lo \<le> i \<and> i < hi)"

definition good_count :: "nat \<Rightarrow> (nat \<Rightarrow> u32) \<Rightarrow> nat" where
  "good_count n f = card {i. i < n \<and> f i = BLOCK_ST_GOOD}"

lemma degrades_refl [simp]: "degrades n lo hi f f"
  by (simp add: degrades_def)

lemma degrades_trans:
  assumes "degrades n lo hi f g" and "degrades n lo hi g h"
  shows "degrades n lo hi f h"
  using assms unfolding degrades_def by (metis)

lemma degrades_widen:
  "degrades n lo hi f g \<Longrightarrow> lo' \<le> lo \<Longrightarrow> hi \<le> hi' \<Longrightarrow> degrades n lo' hi' f g"
  unfolding degrades_def by (meson order_trans order_less_le_trans)

lemma degrades_good: "degrades n lo hi f g \<Longrightarrow> i < n \<Longrightarrow> g i = BLOCK_ST_GOOD \<Longrightarrow> f i = BLOCK_ST_GOOD"
  unfolding degrades_def block_st_defs by fastforce

lemma degrades_count: "degrades n lo hi f g \<Longrightarrow> good_count n g \<le> good_count n f"
  unfolding good_count_def by (rule card_mono) (auto dest: degrades_good)

locale state_table =
  fixes get :: "'t \<Rightarrow> nat \<Rightarrow> u32"
    and put :: "'t \<Rightarrow> nat \<Rightarrow> u32 \<Rightarrow> 't"
    and cap :: "'t \<Rightarrow> nat"
  assumes cap_put: "cap (put t i v) = cap t"
    and get_put: "i < cap t \<Longrightarrow>
      get (put t i v) j = (if i = j then v AND BLOCK_ST_MASK else get t j)"
begin

lemma get_put_bad: "i < cap t \<Longrightarrow> get (put t i BLOCK_ST_BAD) i = BLOCK_ST_BAD"
  by (simp add: get_put block_st_defs)

lemma put_bad_degrades:
  assumes "i < cap t" and "get t i = BLOCK_ST_GOOD" and "lo \<le> i" and "i < hi"
  shows "degrades n lo hi (get t) (get (put t i BLOCK_ST_BAD))"
  using assms by (auto simp: degrades_def get_put block_st_defs)

lemma put_bad_count:
  assumes "i < cap t" and "get t i = BLOCK_ST_GOOD" and "i < n"
  shows "good_count n (get (put t i BLOCK_ST_BAD)) < good_count n (get t)"
proof -
  have "{k. k < n \<and> get (put t i BLOCK_ST_BAD) k = BLOCK_ST_GOOD}
      \<subset> {k. k < n \<and> get t k = BLOCK_ST_GOOD}"
    using assms by (auto simp: get_put block_st_defs)
  then show ?thesis
    unfolding good_count_def by (intro psubset_card_mono) simp_all
qed

end

interpretation bitmap: state_table st_of st_put "\<lambda>bs. 16 * length bs"
  by unfold_locales (simp_all add: st_of_put)

section \<open>Walking over good blocks\<close>

text \<open>The good blocks of \<open>[lo, hi)\<close> in ascending order.\<close>

definition good_blocks :: "u32 list \<Rightarrow> nat \<Rightarrow> nat \<Rightarrow> nat list" where
  "good_blocks bs lo hi = filter (\<lambda>i. st_of bs i = BLOCK_ST_GOOD) [lo..<hi]"

lemma sorted_good_blocks [simp]: "sorted (good_blocks bs lo hi)"
  unfolding good_blocks_def by (rule sorted_wrt_filter) simp

lemma good_blocks_empty [simp]: "hi \<le> lo \<Longrightarrow> good_blocks bs lo hi = []"
  by (simp add: good_blocks_def)

lemma good_blocks_rec:
  "lo < hi \<Longrightarrow> good_blocks bs lo hi =
     (if st_of bs lo = BLOCK_ST_GOOD then lo # good_blocks bs (Suc lo) hi
      else good_blocks bs (Suc lo) hi)"
  by (simp add: good_blocks_def upt_conv_Cons)

lemma good_blocks_snoc:
  "lo \<le> hi \<Longrightarrow> good_blocks bs lo (Suc hi) =
     (if st_of bs hi = BLOCK_ST_GOOD then good_blocks bs lo hi @ [hi] else good_blocks bs lo hi)"
  by (simp add: good_blocks_def)

lemma walk_counter:
  fixes n :: u32
  assumes "unat n < 2 ^ 31"
  shows "\<not> sint n < 0" and "n \<noteq> 0 \<Longrightarrow> unat (n - 1) = unat n - 1"
    and "n = 0 \<Longrightarrow> sint (n - 1) < 0"
proof -
  from assms have "int (unat n) < int (2 ^ 31)" by (simp only: of_nat_less_iff)
  then have "uint n < 2 ^ 31" by simp
  moreover have "- (2 ^ 31) \<le> uint n" by (rule order_trans [OF _ uint_ge_0]) simp
  ultimately have "signed_take_bit 31 (uint n) = uint n"
    by (intro signed_take_bit_int_eq_self)
  then have "0 \<le> signed_take_bit (LENGTH(32) - 1) (uint n)" by simp
  then show "\<not> sint n < 0" by (simp only: sint_uint not_less One_nat_def)
  show "n \<noteq> 0 \<Longrightarrow> unat (n - 1) = unat n - 1" by (simp add: unat_minus_one)
  show "n = 0 \<Longrightarrow> sint (n - 1) < 0" by simp
qed

lemma walk_asc_loop_eq:
  "unat nblock < 2 ^ 31 \<Longrightarrow> unat limit \<le> 16 * length (block_state ni) \<Longrightarrow>
   walk_asc_loop ni ba nblock limit =
     Some (map_option of_nat
       (arr_get (good_blocks (block_state ni) (unat ba) (unat limit)) (unat nblock)))"
proof (induction ni ba nblock limit rule: walk_asc_loop.induct)
  case (1 ni ba nblock limit)
  show ?case
  proof (cases "ba < limit")
    case False
    then show ?thesis
      by (simp add: walk_asc_loop.simps [of ni ba] word_less_nat_alt arr_get_def)
  next
    case True
    then have lt: "unat ba < unat limit" by (simp add: word_less_nat_alt)
    with "1.prems" have st: "nmbm_get_block_state ni ba = Some (st_of (block_state ni) (unat ba))"
      by (simp add: nmbm_get_block_state_def nmbm_get_block_state_raw_eq)
    note c = walk_counter [OF "1.prems"(1)]
    note IH = "1.IH" [OF True st refl]
    show ?thesis
    proof (cases "st_of (block_state ni) (unat ba) = BLOCK_ST_GOOD \<and> nblock = 0")
      case True
      with \<open>ba < limit\<close> lt st c(3) show ?thesis
        by (simp add: walk_asc_loop.simps [of ni ba] good_blocks_rec arr_get_def)
    next
      case False
      let ?n = "if st_of (block_state ni) (unat ba) = BLOCK_ST_GOOD then nblock - 1 else nblock"
      have n: "unat ?n < 2 ^ 31" using False "1.prems"(1) c(2) by auto
      have "walk_asc_loop ni ba nblock limit = walk_asc_loop ni (ba + 1) ?n limit"
        using \<open>ba < limit\<close> st walk_counter(1) [OF n]
        by (simp add: walk_asc_loop.simps [of ni ba] Let_def)
      also have "\<dots> = Some (map_option of_nat
          (arr_get (good_blocks (block_state ni) (Suc (unat ba)) (unat limit)) (unat ?n)))"
        using IH n "1.prems"(2) walk_counter(1) [OF n] \<open>ba < limit\<close> by simp
      also have "arr_get (good_blocks (block_state ni) (Suc (unat ba)) (unat limit)) (unat ?n)
          = arr_get (good_blocks (block_state ni) (unat ba) (unat limit)) (unat nblock)"
        using False lt c(2) by (auto simp: good_blocks_rec arr_get_def unat_gt_0 [symmetric])
      finally show ?thesis .
    qed
  qed
qed

lemma walk_desc_loop_eq:
  "unat nblock < 2 ^ 31 \<Longrightarrow> unat ba < 16 * length (block_state ni) \<Longrightarrow>
   walk_desc_loop ni ba nblock limit =
     Some (map_option of_nat
       (arr_get (rev (good_blocks (block_state ni) (Suc (unat limit)) (Suc (unat ba)))) (unat nblock)))"
proof (induction ni ba nblock limit rule: walk_desc_loop.induct)
  case (1 ni ba nblock limit)
  show ?case
  proof (cases "ba > limit")
    case False
    then show ?thesis
      by (simp add: walk_desc_loop.simps [of ni ba] word_less_nat_alt arr_get_def)
  next
    case True
    then have lt: "unat limit < unat ba" by (simp add: word_less_nat_alt)
    with "1.prems" have st: "nmbm_get_block_state ni ba = Some (st_of (block_state ni) (unat ba))"
      by (simp add: nmbm_get_block_state_def nmbm_get_block_state_raw_eq)
    have snoc: "good_blocks (block_state ni) (Suc (unat limit)) (Suc (unat ba)) =
      good_blocks (block_state ni) (Suc (unat limit)) (unat ba) @
        (if st_of (block_state ni) (unat ba) = BLOCK_ST_GOOD then [unat ba] else [])"
      using lt by (simp add: good_blocks_snoc)
    note c = walk_counter [OF "1.prems"(1)]
    note IH = "1.IH" [OF True st refl]
    show ?thesis
    proof (cases "st_of (block_state ni) (unat ba) = BLOCK_ST_GOOD \<and> nblock = 0")
      case True
      with \<open>ba > limit\<close> lt st c(3) snoc show ?thesis
        by (simp add: walk_desc_loop.simps [of ni ba] arr_get_def)
    next
      case False
      let ?n = "if st_of (block_state ni) (unat ba) = BLOCK_ST_GOOD then nblock - 1 else nblock"
      have n: "unat ?n < 2 ^ 31" using False "1.prems"(1) c(2) by auto
      have "walk_desc_loop ni ba nblock limit = walk_desc_loop ni (ba - 1) ?n limit"
        using \<open>ba > limit\<close> st walk_counter(1) [OF n]
        by (simp add: walk_desc_loop.simps [of ni ba] Let_def)
      also have "\<dots> = Some (map_option of_nat
          (arr_get (rev (good_blocks (block_state ni) (Suc (unat limit)) (unat ba))) (unat ?n)))"
        using IH n "1.prems"(2) walk_counter(1) [OF n] \<open>ba > limit\<close> lt by simp
      also have "arr_get (rev (good_blocks (block_state ni) (Suc (unat limit)) (unat ba))) (unat ?n)
          = arr_get (rev (good_blocks (block_state ni) (Suc (unat limit)) (Suc (unat ba)))) (unat nblock)"
        using False c(2) by (auto simp: snoc arr_get_def unat_gt_0 [symmetric])
      finally show ?thesis .
    qed
  qed
qed

section \<open>Steps that may discover bad blocks\<close>

text \<open>
  What an operation that uses the blocks \<open>[lo, hi)\<close> of the chip may change of the instance:
  what a chip access changes, and the states of blocks in that range, from good to bad. The
  counter \<open>block_state_changed\<close> moves only if some block did become bad.
\<close>

definition tab_step ::
  "('d \<Rightarrow> bool) \<Rightarrow> nat \<Rightarrow> nat \<Rightarrow> 'd nmbm_instance \<Rightarrow> 'd nmbm_instance \<Rightarrow> bool" where
  "tab_step Q lo hi ni ni' \<longleftrightarrow>
     (\<exists>d pc bs ch. ni' = ni\<lparr>dev := d, page_cache := pc, block_state := bs, block_state_changed := ch\<rparr> \<and>
        length pc = length (page_cache ni) \<and> length bs = length (block_state ni) \<and>
        (Q (dev ni) \<longrightarrow> Q d) \<and>
        degrades (16 * length bs) lo hi (st_of (block_state ni)) (st_of bs) \<and>
        (ch = block_state_changed ni \<or>
         good_count (16 * length bs) (st_of bs) < good_count (16 * length bs) (st_of (block_state ni))))"

text \<open>The instance up to what such a step changes, the number of good blocks.\<close>

definition good_left :: "'d nmbm_instance \<Rightarrow> nat" where
  "good_left ni = good_count (16 * length (block_state ni)) (st_of (block_state ni))"

lemma tab_stepI:
  assumes "ni' = ni\<lparr>dev := d, page_cache := pc, block_state := bs, block_state_changed := ch\<rparr>"
    and "length pc = length (page_cache ni)" and "length bs = length (block_state ni)"
    and "Q (dev ni) \<Longrightarrow> Q d"
    and "degrades (16 * length bs) lo hi (st_of (block_state ni)) (st_of bs)"
    and "ch = block_state_changed ni \<or>
      good_count (16 * length bs) (st_of bs) < good_count (16 * length bs) (st_of (block_state ni))"
  shows "tab_step Q lo hi ni ni'"
  unfolding tab_step_def using assms by blast

lemma tab_stepE:
  assumes "tab_step Q lo hi ni ni'"
  obtains d pc bs ch where
    "ni' = ni\<lparr>dev := d, page_cache := pc, block_state := bs, block_state_changed := ch\<rparr>"
    and "length pc = length (page_cache ni)" and "length bs = length (block_state ni)"
    and "Q (dev ni) \<longrightarrow> Q d"
    and "degrades (16 * length bs) lo hi (st_of (block_state ni)) (st_of bs)"
    and "ch = block_state_changed ni \<or>
      good_count (16 * length bs) (st_of bs) < good_count (16 * length bs) (st_of (block_state ni))"
  using assms unfolding tab_step_def by blast

lemma dev_step_tab_step: "dev_step Q ni ni' \<Longrightarrow> tab_step Q lo hi ni ni'"
proof -
  assume "dev_step Q ni ni'"
  then obtain d pc where "ni' = ni\<lparr>dev := d, page_cache := pc\<rparr>"
    and "length pc = length (page_cache ni)" and "Q (dev ni) \<longrightarrow> Q d"
    by (auto simp: dev_step_def)
  then show ?thesis
    by (intro tab_stepI [where d = d and pc = pc and bs = "block_state ni"
          and ch = "block_state_changed ni"]) simp_all
qed

lemma tab_step_refl [simp, intro]: "tab_step Q lo hi ni ni"
  by (rule dev_step_tab_step) simp

lemma tab_step_trans:
  assumes "tab_step Q lo hi a b" and "tab_step Q lo hi b c"
  shows "tab_step Q lo hi a c"
proof -
  from assms(1) obtain d pc bs ch where
    b: "b = a\<lparr>dev := d, page_cache := pc, block_state := bs, block_state_changed := ch\<rparr>"
      "length pc = length (page_cache a)" "length bs = length (block_state a)" "Q (dev a) \<longrightarrow> Q d"
    and deg1: "degrades (16 * length bs) lo hi (st_of (block_state a)) (st_of bs)"
    and ch1: "ch = block_state_changed a \<or>
      good_count (16 * length bs) (st_of bs) < good_count (16 * length bs) (st_of (block_state a))"
    by (rule tab_stepE)
  from assms(2) obtain d' pc' bs' ch' where
    c: "c = b\<lparr>dev := d', page_cache := pc', block_state := bs', block_state_changed := ch'\<rparr>"
      "length pc' = length (page_cache b)" "length bs' = length (block_state b)" "Q (dev b) \<longrightarrow> Q d'"
    and deg2: "degrades (16 * length bs') lo hi (st_of (block_state b)) (st_of bs')"
    and ch2: "ch' = block_state_changed b \<or>
      good_count (16 * length bs') (st_of bs') < good_count (16 * length bs') (st_of (block_state b))"
    by (rule tab_stepE)
  have deg: "degrades (16 * length bs') lo hi (st_of (block_state a)) (st_of bs')"
    using degrades_trans deg1 deg2 b c by fastforce
  show ?thesis
  proof (rule tab_stepI [where d = d' and pc = pc' and bs = bs' and ch = ch'])
    show "ch' = block_state_changed a \<or>
      good_count (16 * length bs') (st_of bs') < good_count (16 * length bs') (st_of (block_state a))"
      using ch1 ch2 b c degrades_count [OF deg1] degrades_count [OF deg2] by auto
  qed (use b c deg in simp_all)
qed

lemma tab_step_widen:
  "tab_step Q lo hi a b \<Longrightarrow> lo' \<le> lo \<Longrightarrow> hi \<le> hi' \<Longrightarrow> tab_step Q lo' hi' a b"
  unfolding tab_step_def by (blast intro: degrades_widen)

lemma tab_step_Q: "tab_step Q lo hi a b \<Longrightarrow> Q (dev a) \<Longrightarrow> Q (dev b)"
  by (auto simp: tab_step_def)

lemma tab_step_wf: "tab_step Q lo hi ni ni' \<Longrightarrow> dev_wf ni \<Longrightarrow> dev_wf ni'"
  by (auto simp: tab_step_def dev_wf_def)

lemma tab_step_good_left:
  assumes "tab_step Q lo hi ni ni'"
  shows "good_left ni' \<le> good_left ni"
    and "block_state_changed ni' \<noteq> block_state_changed ni \<Longrightarrow> good_left ni' < good_left ni"
  using assms by (auto simp: tab_step_def good_left_def dest: degrades_count)

lemma tab_step_fields:
  assumes "tab_step Q lo hi ni ni'"
  shows "lower ni' = lower ni" and "length (block_state ni') = length (block_state ni)"
    and "block_count ni' = block_count ni" and "erasesize_shift ni' = erasesize_shift ni"
    and "writesize_mask ni' = writesize_mask ni" and "rawpage_size ni' = rawpage_size ni"
    and "length (page_cache ni') = length (page_cache ni)"
    and "read_only ni' = read_only ni" and "ba2addr ni' = ba2addr ni"
    and "addr2ba ni' = addr2ba ni" and "blk_allowed A ni' = blk_allowed A ni"
    and "info_table_cache ni' = info_table_cache ni" and "info_table_size ni' = info_table_size ni"
    and "block_mapping ni' = block_mapping ni" and "data_block_count ni' = data_block_count ni"
    and "mgmt_start_ba ni' = mgmt_start_ba ni"
    and "mapping_blocks_ba ni' = mapping_blocks_ba ni"
    and "mapping_blocks_top_ba ni' = mapping_blocks_top_ba ni"
    and "main_table_ba ni' = main_table_ba ni" and "backup_table_ba ni' = backup_table_ba ni"
    and "signature_ba ni' = signature_ba ni" and "signature ni' = signature ni"
    and "protected ni' = protected ni" and "block_mapping_changed ni' = block_mapping_changed ni"
    and "size2blk ni' = size2blk ni" and "info_table ni' = info_table ni"
  using assms
  by (elim tab_stepE; simp add: read_only_def ba2addr_def addr2ba_def size2blk_def blk_allowed_def
      fun_eq_iff)+

lemma tab_step_degrades:
  "tab_step Q lo hi ni ni' \<Longrightarrow>
   degrades (16 * length (block_state ni)) lo hi (st_of (block_state ni)) (st_of (block_state ni'))"
  by (auto simp: tab_step_def)

lemma nmbm_get_block_state_returns [returns_simps]:
  "unat ba < 16 * length (block_state ni) \<Longrightarrow>
   returns (nmbm_get_block_state ni ba) P = P (st_of (block_state ni) (unat ba))"
  by (simp add: nmbm_get_block_state_def nmbm_get_block_state_raw_eq)

lemma set_bad_step:
  assumes "unat ba < 16 * length (block_state ni)"
    and "st_of (block_state ni) (unat ba) = BLOCK_ST_GOOD" and "lo \<le> unat ba" and "unat ba < hi"
  shows "returns (nmbm_set_block_state ni ba BLOCK_ST_BAD) (\<lambda>(changed, ni').
    changed \<and> tab_step Q lo hi ni ni' \<and> st_of (block_state ni') (unat ba) = BLOCK_ST_BAD)"
proof -
  let ?bs = "st_put (block_state ni) (unat ba) BLOCK_ST_BAD"
  let ?ni = "ni\<lparr>block_state := ?bs, block_state_changed := block_state_changed ni + 1\<rparr>"
  have eq: "nmbm_set_block_state ni ba BLOCK_ST_BAD = Some (True, ?ni)"
    using assms(2) by (simp add: nmbm_set_block_state_eq [OF assms(1)] block_st_defs)
  have "tab_step Q lo hi ni ?ni"
    by (rule tab_stepI [where d = "dev ni" and pc = "page_cache ni" and bs = ?bs
          and ch = "block_state_changed ni + 1"])
      (use assms in \<open>simp_all add: bitmap.put_bad_degrades bitmap.put_bad_count\<close>)
  with assms(1) eq show ?thesis by (simp add: bitmap.get_put_bad)
qed

section \<open>The initial tables\<close>

text \<open>The blocks of \<open>[lo, hi)\<close> that are not marked bad, ascending.\<close>

definition usable_blocks :: "u32 list \<Rightarrow> nat \<Rightarrow> nat \<Rightarrow> nat list" where
  "usable_blocks bs lo hi = filter (\<lambda>i. st_of bs i \<noteq> BLOCK_ST_BAD) [lo..<hi]"

lemma usable_blocks_rec:
  "lo < hi \<Longrightarrow> usable_blocks bs lo hi =
     (if st_of bs lo \<noteq> BLOCK_ST_BAD then lo # usable_blocks bs (Suc lo) hi
      else usable_blocks bs (Suc lo) hi)"
  by (simp add: usable_blocks_def upt_conv_Cons)

lemma length_usable_blocks: "length (usable_blocks bs lo hi) \<le> hi - lo"
  unfolding usable_blocks_def using length_filter_le [of _ "[lo..<hi]"] by simp

lemma build_loop_eq:
  "unat lb \<le> unat pb \<Longrightarrow> unat limit \<le> 16 * length (block_state ni) \<Longrightarrow>
   unat limit \<le> length (block_mapping ni) \<Longrightarrow>
   build_loop ni pb lb limit =
     (let us = usable_blocks (block_state ni) (unat pb) (unat limit) in
      Some (lb + of_nat (length us),
            ni\<lparr>block_mapping := take (unat lb) (block_mapping ni) @ map of_nat us @
                 drop (unat lb + length us) (block_mapping ni)\<rparr>))"
proof (induction ni pb lb limit rule: build_loop.induct)
  case (1 ni pb lb limit)
  show ?case
  proof (cases "pb < limit")
    case False
    then show ?thesis
      by (simp add: build_loop.simps [of ni pb] usable_blocks_def word_less_nat_alt not_less)
  next
    case True
    then have lt: "unat pb < unat limit" by (simp add: word_less_nat_alt)
    with "1.prems" have st: "nmbm_get_block_state ni pb = Some (st_of (block_state ni) (unat pb))"
      by (simp add: nmbm_get_block_state_def nmbm_get_block_state_raw_eq)
    have lb: "unat (lb + 1) = Suc (unat lb)"
      using "1.prems"(1) lt unat_u32_less [of limit] by (simp add: unat_word_ariths)
    show ?thesis
    proof (cases "st_of (block_state ni) (unat pb) = BLOCK_ST_BAD")
      case True
      with "1.IH"(1) [OF \<open>pb < limit\<close> st] "1.prems" \<open>pb < limit\<close> lt st show ?thesis
        by (simp add: build_loop.simps [of ni pb] usable_blocks_rec)
    next
      case False
      let ?bm = "(block_mapping ni)[unat lb := pb]"
      have set: "arr_set (block_mapping ni) (unat lb) pb = Some ?bm"
        using "1.prems"(1,3) lt by (simp add: arr_set_def)
      let ?us = "usable_blocks (block_state ni) (Suc (unat pb)) (unat limit)"
      have "build_loop ni pb lb limit = build_loop (ni\<lparr>block_mapping := ?bm\<rparr>) (pb + 1) (lb + 1) limit"
        using \<open>pb < limit\<close> st False set by (simp add: build_loop.simps [of ni pb])
      also have "\<dots> = Some (lb + 1 + of_nat (length ?us),
          ni\<lparr>block_mapping := take (Suc (unat lb)) ?bm @ map of_nat ?us @
            drop (Suc (unat lb) + length ?us) ?bm\<rparr>)"
        using "1.IH"(2) [OF \<open>pb < limit\<close> st False set] "1.prems" \<open>pb < limit\<close> lb
        by (simp add: Let_def)
      also have "take (Suc (unat lb)) ?bm = take (unat lb) (block_mapping ni) @ [pb]"
        using "1.prems"(1,3) lt by (simp add: take_Suc_conv_app_nth)
      finally show ?thesis
        using lt False by (simp add: usable_blocks_rec Let_def ac_simps)
    qed
  qed
qed

lemma unmap_loop_eq:
  "unat pb \<le> unat limit \<Longrightarrow> unat limit \<le> length (block_mapping ni) \<Longrightarrow>
   unmap_loop ni pb limit =
     Some (ni\<lparr>block_mapping := take (unat pb) (block_mapping ni) @
       replicate (unat limit - unat pb) (- 1) @ drop (unat limit) (block_mapping ni)\<rparr>)"
proof (induction ni pb limit rule: unmap_loop.induct)
  case (1 ni pb limit)
  show ?case
  proof (cases "pb < limit")
    case False
    with "1.prems" have "unat pb = unat limit" by (simp add: word_less_nat_alt)
    with False show ?thesis by (simp add: unmap_loop.simps [of ni pb])
  next
    case True
    then have lt: "unat pb < unat limit" by (simp add: word_less_nat_alt)
    let ?bm = "(block_mapping ni)[unat pb := - 1]"
    have set: "arr_set (block_mapping ni) (unat pb) (- 1) = Some ?bm"
      using "1.prems"(2) lt by (simp add: arr_set_def)
    have "take (Suc (unat pb)) ?bm = take (unat pb) (block_mapping ni) @ [- 1]"
      using "1.prems"(2) lt by (simp add: take_Suc_conv_app_nth)
    moreover have "unat limit - unat pb = Suc (unat limit - Suc (unat pb))" using lt by simp
    ultimately show ?thesis
      using "1.IH" [OF True set] "1.prems" True lt
      by (simp add: unmap_loop.simps [of ni pb] set)
  qed
qed

lemma nmbm_build_mapping_table_eq:
  assumes "unat (block_count ni) \<le> 16 * length (block_state ni)"
    and "length (block_mapping ni) = unat (block_count ni)"
    and "mgmt_start_ba ni \<le> block_count ni"
  shows "nmbm_build_mapping_table ni =
    (let us = usable_blocks (block_state ni) 0 (unat (mgmt_start_ba ni)) in
     Some (ni\<lparr>data_block_count := of_nat (length us),
       block_mapping := map of_nat us @ replicate (unat (block_count ni) - length us) (- 1)\<rparr>))"
proof -
  let ?us = "usable_blocks (block_state ni) 0 (unat (mgmt_start_ba ni))"
  have le: "length ?us \<le> unat (block_count ni)"
    using length_usable_blocks [of "block_state ni" 0 "unat (mgmt_start_ba ni)"] assms(3)
    by (simp add: word_le_nat_alt)
  then have len: "unat (of_nat (length ?us) :: u32) = length ?us"
    using unat_u32_less [of "block_count ni"] by (intro unat_of_nat_small) simp
  have "build_loop ni 0 0 (mgmt_start_ba ni) = Some (of_nat (length ?us),
      ni\<lparr>block_mapping := map of_nat ?us @ drop (length ?us) (block_mapping ni)\<rparr>)"
    using build_loop_eq [of 0 0 "mgmt_start_ba ni" ni] assms by (simp add: word_le_nat_alt Let_def)
  then show ?thesis
    using len le assms(2) by (simp add: nmbm_build_mapping_table_def unmap_loop_eq Let_def)
qed

text \<open>A step of the scan may mark any block bad, whatever its state.\<close>

definition scan_step :: "('d \<Rightarrow> bool) \<Rightarrow> 'd nmbm_instance \<Rightarrow> 'd nmbm_instance \<Rightarrow> bool" where
  "scan_step Q ni ni' \<longleftrightarrow>
     (\<exists>d pc bs ch. ni' = ni\<lparr>dev := d, page_cache := pc, block_state := bs, block_state_changed := ch\<rparr> \<and>
        length pc = length (page_cache ni) \<and> length bs = length (block_state ni) \<and>
        (Q (dev ni) \<longrightarrow> Q d) \<and>
        (\<forall>i. st_of bs i = st_of (block_state ni) i \<or> st_of bs i = BLOCK_ST_BAD))"

lemma scan_step_refl: "scan_step Q ni ni"
  unfolding scan_step_def
  by (intro exI [where x = "dev ni"] exI [where x = "page_cache ni"]
      exI [where x = "block_state ni"] exI [where x = "block_state_changed ni"]) simp

lemma scan_step_trans:
  assumes "scan_step Q a b" and "scan_step Q b c"
  shows "scan_step Q a c"
proof -
  from assms(1) obtain d pc bs ch where
    b: "b = a\<lparr>dev := d, page_cache := pc, block_state := bs, block_state_changed := ch\<rparr>"
      "length pc = length (page_cache a)" "length bs = length (block_state a)"
      "Q (dev a) \<longrightarrow> Q d" "\<forall>i. st_of bs i = st_of (block_state a) i \<or> st_of bs i = BLOCK_ST_BAD"
    unfolding scan_step_def by blast
  from assms(2) obtain d' pc' bs' ch' where
    c: "c = b\<lparr>dev := d', page_cache := pc', block_state := bs', block_state_changed := ch'\<rparr>"
      "length pc' = length (page_cache b)" "length bs' = length (block_state b)"
      "Q (dev b) \<longrightarrow> Q d'" "\<forall>i. st_of bs' i = st_of (block_state b) i \<or> st_of bs' i = BLOCK_ST_BAD"
    unfolding scan_step_def by blast
  have "\<forall>i. st_of bs' i = st_of (block_state a) i \<or> st_of bs' i = BLOCK_ST_BAD"
    using b(5) c(5) b(1) by (simp, metis)
  then show ?thesis
    unfolding scan_step_def
    by (intro exI [where x = d'] exI [where x = pc'] exI [where x = bs'] exI [where x = ch'])
      (use b(1-4) c(1-4) in simp)
qed

lemma scan_step_fields:
  assumes "scan_step Q ni ni'"
  shows "lower ni' = lower ni" and "length (block_state ni') = length (block_state ni)"
    and "dev_wf ni' = dev_wf ni"
  using assms by (auto simp: scan_step_def dev_wf_def)

lemma dev_step_scan_step:
  assumes "dev_step Q ni ni'"
  shows "scan_step Q ni ni'"
proof -
  from assms obtain d pc where "ni' = ni\<lparr>dev := d, page_cache := pc\<rparr>"
    and "length pc = length (page_cache ni)" and "Q (dev ni) \<longrightarrow> Q d"
    by (auto simp: dev_step_def)
  then show ?thesis
    unfolding scan_step_def
    by (intro exI [where x = d] exI [where x = pc] exI [where x = "block_state ni"]
        exI [where x = "block_state_changed ni"]) simp
qed

lemma set_bad_scan_step:
  assumes "unat ba < 16 * length (block_state ni)"
  shows "returns (map_option snd (nmbm_set_block_state ni ba BLOCK_ST_BAD)) (scan_step Q ni)"
proof -
  let ?bs = "st_put (block_state ni) (unat ba) BLOCK_ST_BAD"
  have "scan_step Q ni (ni\<lparr>block_state := ?bs, block_state_changed := ch\<rparr>)" for ch
    unfolding scan_step_def using assms
    by (intro exI [where x = "dev ni"] exI [where x = "page_cache ni"] exI [where x = ?bs]
        exI [where x = ch]) (auto simp: st_of_put block_st_defs)
  from this [of "block_state_changed ni + 1"] this [of "block_state_changed ni"] show ?thesis
    by (simp add: nmbm_set_block_state_eq [OF assms] Let_def)
qed

lemma scan_loop_returns:
  "dev_wf ni \<Longrightarrow> dev_frame (lower ni) Q A \<Longrightarrow> unat limit \<le> 16 * length (block_state ni) \<Longrightarrow>
   returns (scan_loop ni ba limit) (scan_step Q ni)"
proof (induction ni ba limit rule: scan_loop.induct)
  case (1 ni ba limit)
  show ?case
  proof (cases "ba < limit")
    case False
    then show ?thesis by (simp add: scan_loop.simps [of ni ba] scan_step_refl)
  next
    case True
    then have lt: "unat ba < unat limit" by (simp add: word_less_nat_alt)
    from nmbm_check_bad_phys_block_returns [OF "1.prems"(1,2), of ba]
    obtain bad ni1 where chk: "nmbm_check_bad_phys_block ni ba = Some (bad, ni1)"
      and st1: "scan_step Q ni ni1"
      by (auto simp: returns_iff dest: dev_step_scan_step)
    have "unat ba < 16 * length (block_state ni1)"
      using scan_step_fields(2) [OF st1] lt "1.prems"(3) by simp
    from set_bad_scan_step [OF this, of Q]
    obtain ni2 where set: "(if bad then map_option snd (nmbm_set_block_state ni1 ba BLOCK_ST_BAD)
        else Some ni1) = Some ni2" and st12: "scan_step Q ni1 ni2"
      by (cases bad) (auto simp: returns_iff scan_step_refl)
    note st2 = scan_step_trans [OF st1 st12]
    have "returns (scan_loop ni2 (ba + 1) limit) (scan_step Q ni2)"
      using "1.IH" [OF True chk refl set] "1.prems" scan_step_fields [OF st2] by simp
    then have "returns (scan_loop ni2 (ba + 1) limit) (scan_step Q ni)"
      by (rule returns_mono) (rule scan_step_trans [OF st2])
    with True chk set show ?thesis by (simp add: scan_loop.simps [of ni ba])
  qed
qed

lemma nmbm_scan_badblocks_returns:
  assumes "dev_wf ni" and "dev_frame (lower ni) Q A"
    and "unat (block_count ni) \<le> 16 * length (block_state ni)"
  shows "returns (nmbm_scan_badblocks ni) (scan_step Q ni)"
  unfolding nmbm_scan_badblocks_def by (rule scan_loop_returns [OF assms])

end
