(* ===== verification/Nmbm_Header.thy ===== *)
theory Nmbm_Header
  imports Nmbm_Device
begin

text \<open>
  The on-flash structures: their byte layout (little-endian, as on the ARM targets), the
  header check and the checksum update (\<open>nmbm-core.c\<close>, lines 361 to 399; \<open>nmbm_crc32\<close> of
  \<open>nmbm-os.h\<close>).

  \<open>crc32_le\<close> belongs to the kernel and is a parameter. All that the code relies on is that a
  checksum can be computed in pieces; this is the interface \<open>crc_incremental\<close>. Its instance
  is the table-driven \<open>crc32\<close> of the \<open>mtd\<close> utility, which is in the sources
  (\<open>package/system/mtd/src/crc32.h\<close>) and computes the same function.
\<close>

section \<open>Byte layout\<close>

definition hdr_bytes :: "nmbm_header \<Rightarrow> bytes" where
  "hdr_bytes h = le32 (magic h) @ le32 (version h) @ le32 (hdr_size h) @ le32 (checksum h)"

definition hdr_of_bytes :: "bytes \<Rightarrow> nmbm_header" where
  "hdr_of_bytes bs =
     \<lparr>magic = of_le32 (take 4 bs), version = of_le32 (take 4 (drop 4 bs)),
      hdr_size = of_le32 (take 4 (drop 8 bs)), checksum = of_le32 (take 4 (drop 12 bs))\<rparr>"

definition sig_bytes :: "nmbm_signature \<Rightarrow> bytes" where
  "sig_bytes s =
     hdr_bytes (sig_header s) @ le64 (nand_size s) @ le32 (block_size s) @ le32 (page_size s) @
     le32 (spare_size s) @ le32 (mgmt_start_pb s) @ [max_try_count s] @ sig_padding s"

definition sig_of_bytes :: "bytes \<Rightarrow> nmbm_signature" where
  "sig_of_bytes bs =
     \<lparr>sig_header = hdr_of_bytes bs, nand_size = of_le64 (take 8 (drop 16 bs)),
      block_size = of_le32 (take 4 (drop 24 bs)), page_size = of_le32 (take 4 (drop 28 bs)),
      spare_size = of_le32 (take 4 (drop 32 bs)), mgmt_start_pb = of_le32 (take 4 (drop 36 bs)),
      max_try_count = bs ! 40, sig_padding = take 7 (drop 41 bs)\<rparr>"

definition ith_bytes :: "nmbm_info_table_header \<Rightarrow> bytes" where
  "ith_bytes h =
     hdr_bytes (ith_header h) @ le32 (write_count h) @ le32 (state_table_off h) @
     le32 (mapping_table_off h) @ le32 (ith_padding h)"

definition ith_of_bytes :: "bytes \<Rightarrow> nmbm_info_table_header" where
  "ith_of_bytes bs =
     \<lparr>ith_header = hdr_of_bytes bs, write_count = of_le32 (take 4 (drop 16 bs)),
      state_table_off = of_le32 (take 4 (drop 20 bs)),
      mapping_table_off = of_le32 (take 4 (drop 24 bs)),
      ith_padding = of_le32 (take 4 (drop 28 bs))\<rparr>"

text \<open>An array of 32-bit values as bytes: the memory of \<open>block_state\<close> and \<open>block_mapping\<close>.\<close>

definition words_bytes :: "u32 list \<Rightarrow> bytes" where
  "words_bytes ws = concat (map le32 ws)"

fun words_of_bytes :: "nat \<Rightarrow> bytes \<Rightarrow> u32 list" where
  "words_of_bytes 0 bs = []"
| "words_of_bytes (Suc n) bs = of_le32 (take 4 bs) # words_of_bytes n (drop 4 bs)"

section \<open>Checksums\<close>

text \<open>
  \<open>nmbm_crc32\<close> cuts the buffer into chunks of at most \<open>UINT_MAX\<close> bytes. The recursion is
  over the remaining size, as in the C loop.
\<close>

definition uint_max :: nat where "uint_max = 4294967295"

function nmbm_crc32 :: "crc_fn \<Rightarrow> u32 \<Rightarrow> bytes \<Rightarrow> u32" where
  "nmbm_crc32 crc crcval buf =
     (if buf = [] then crcval
      else let chksz = (if length buf > uint_max then uint_max else length buf)
           in nmbm_crc32 crc (crc crcval (take chksz buf)) (drop chksz buf))"
  by pat_completeness auto
termination
  by (relation "measure (\<lambda>(crc, crcval, buf). length buf)") (auto simp: uint_max_def)

declare nmbm_crc32.simps [simp del]

text \<open>
  \<open>nmbm_check_header\<close>: the header is read from the start of \<open>data\<close>, whose buffer holds at
  least \<open>size\<close> bytes; reading beyond the buffer is undefined.
\<close>

definition nmbm_check_header :: "crc_fn \<Rightarrow> bytes \<Rightarrow> u32 \<Rightarrow> bool option" where
  "nmbm_check_header crc data sz =
     do {
       hb \<leftarrow> mem_read data 0 16;
       let header = hdr_of_bytes hb;
       if hdr_size header > sz then Some False
       else do {
         let nhdr = header\<lparr>checksum := 0\<rparr>;
         let new_checksum = nmbm_crc32 crc 0 (hdr_bytes nhdr);
         rest \<leftarrow> (if hdr_size header > 16 then mem_read data 16 (unat (hdr_size header - 16))
                  else Some []);
         let new_checksum =
           (if hdr_size header > 16 then nmbm_crc32 crc new_checksum rest else new_checksum);
         Some (checksum header = new_checksum)
       }
     }"

text \<open>\<open>nmbm_update_checksum\<close> on the bytes of a structure that starts with a header.\<close>

definition nmbm_update_checksum :: "crc_fn \<Rightarrow> bytes \<Rightarrow> bytes option" where
  "nmbm_update_checksum crc data =
     do {
       hb \<leftarrow> mem_read data 0 16;
       data \<leftarrow> mem_write data 12 (le32 0);
       body \<leftarrow> mem_read data 0 (unat (hdr_size (hdr_of_bytes hb)));
       mem_write data 12 (le32 (nmbm_crc32 crc 0 body))
     }"

section \<open>Layout lemmas\<close>

lemma length_hdr_bytes [simp]: "length (hdr_bytes h) = 16"
  by (simp add: hdr_bytes_def)

lemma length_ith_bytes [simp]: "length (ith_bytes h) = 32"
  by (simp add: ith_bytes_def)

lemma length_sig_bytes [simp]: "length (sig_bytes s) = 41 + length (sig_padding s)"
  by (simp add: sig_bytes_def)

lemma hdr_of_bytes_bytes [simp]: "hdr_of_bytes (hdr_bytes h @ rest) = h"
  by (simp add: hdr_of_bytes_def hdr_bytes_def)

lemma ith_of_bytes_bytes [simp]: "ith_of_bytes (ith_bytes h @ rest) = h"
  by (simp add: ith_of_bytes_def ith_bytes_def)

lemma sig_of_bytes_bytes:
  "length (sig_padding s) = 7 \<Longrightarrow> sig_of_bytes (sig_bytes s @ rest) = s"
  by (simp add: sig_of_bytes_def sig_bytes_def nth_append)

lemma length_words_bytes [simp]: "length (words_bytes ws) = 4 * length ws"
  by (induction ws) (simp_all add: words_bytes_def)

lemma words_of_bytes_bytes [simp]: "words_of_bytes (length ws) (words_bytes ws @ rest) = ws"
  by (induction ws) (simp_all add: words_bytes_def)

lemma length_words_of_bytes [simp]: "length (words_of_bytes n bs) = n"
  by (induction n arbitrary: bs) simp_all

lemma hdr_bytes_checksum:
  "hdr_bytes (h\<lparr>checksum := c\<rparr>) = take 12 (hdr_bytes h) @ le32 c"
  by (simp add: hdr_bytes_def)

lemma le32_of_le32:
  assumes "length bs = 4"
  shows "le32 (of_le32 bs) = bs"
proof -
  from assms obtain a b c d where bs: "bs = [a, b, c, d]"
    by (auto simp: numeral_eq_Suc length_Suc_conv)
  show ?thesis
    unfolding bs le32_def of_le32_def
    by (simp, intro conjI; rule bit_word_eqI) (auto simp: bit_simps dest: bit_imp_le_length)
qed

lemma take_4_chunks:
  "take 4 xs @ take 4 (drop 4 xs) @ take 4 (drop 8 xs) @ take 4 (drop 12 xs) = take 16 xs"
  using take_add [of 4 12 xs] take_add [of 4 8 "drop 4 xs"] take_add [of 4 4 "drop 8 xs"] by simp

lemma hdr_bytes_of_bytes: "16 \<le> length bs \<Longrightarrow> hdr_bytes (hdr_of_bytes bs) = take 16 bs"
  by (simp add: hdr_bytes_def hdr_of_bytes_def le32_of_le32 take_4_chunks)

section \<open>The interface of the checksum\<close>

locale crc_incremental =
  fixes crc :: crc_fn
  assumes crc_append: "crc v (a @ b) = crc (crc v a) b"
    and crc_Nil: "crc v [] = v"
begin

lemma nmbm_crc32_eq: "nmbm_crc32 crc v buf = crc v buf"
proof (induction buf arbitrary: v rule: length_induct)
  case (1 buf)
  show ?case
  proof (cases "buf = []")
    case True
    then show ?thesis by (simp add: nmbm_crc32.simps crc_Nil)
  next
    case False
    let ?n = "if length buf > uint_max then uint_max else length buf"
    have "length (drop ?n buf) < length buf" using False by (simp add: uint_max_def)
    with 1 have "nmbm_crc32 crc (crc v (take ?n buf)) (drop ?n buf)
        = crc (crc v (take ?n buf)) (drop ?n buf)" by blast
    also have "\<dots> = crc v buf" by (simp only: crc_append [symmetric] append_take_drop_id)
    finally show ?thesis
      using False by (simp add: nmbm_crc32.simps [of crc v buf] Let_def)
  qed
qed

text \<open>
  A structure whose checksum was updated passes the check, and nothing but the four checksum
  bytes changed.
\<close>

lemma update_then_check:
  assumes "16 \<le> unat (hdr_size (hdr_of_bytes data))"
    and "unat (hdr_size (hdr_of_bytes data)) \<le> length data"
    and "hdr_size (hdr_of_bytes data) \<le> sz"
  shows "returns (nmbm_update_checksum crc data) (\<lambda>data'.
    (\<exists>c. data' = take 12 data @ le32 c @ drop 16 data) \<and> nmbm_check_header crc data' sz = Some True)"
proof -
  let ?sz = "hdr_size (hdr_of_bytes data)"
  let ?hdr = "take 12 data @ le32 0" and ?tail = "take (unat ?sz - 16) (drop 16 data)"
  define c where "c = crc 0 (?hdr @ ?tail)"
  define D where "D = take 12 data @ le32 c @ drop 16 data"
  from assms have len: "16 \<le> length data" by simp
  have upd: "nmbm_update_checksum crc data = Some D"
    using assms len by (simp add: nmbm_update_checksum_def mem_read_def mem_write_def D_def c_def
        nmbm_crc32_eq hdr_of_bytes_def drop_take min_def)
  have read: "mem_read D 0 16 = Some (take 12 data @ le32 c)"
    "unat ?sz \<le> length data \<Longrightarrow> mem_read D 16 (unat ?sz - 16) = Some ?tail"
    using len by (simp_all add: D_def mem_read_def)
  have hdr: "hdr_of_bytes (take 12 data @ le32 c) = (hdr_of_bytes data)\<lparr>checksum := c\<rparr>"
    using len by (simp add: hdr_of_bytes_def drop_take min_def)
  have bytes: "hdr_bytes ((hdr_of_bytes data)\<lparr>checksum := 0\<rparr>) = ?hdr"
    using len by (simp add: hdr_bytes_checksum hdr_bytes_of_bytes)
  have sub: "unat (?sz - 16) = unat ?sz - 16"
    using assms(1) by (simp add: unat_sub word_le_nat_alt)
  have "nmbm_check_header crc D sz =
      Some (c = (if ?sz > 16 then crc (crc 0 ?hdr) ?tail else crc 0 ?hdr))"
    using assms(2) read leD [OF assms(3)]
    by (cases "?sz > 16") (simp_all add: nmbm_check_header_def hdr bytes sub nmbm_crc32_eq Let_def)
  moreover have "unat ?sz = 16" if "\<not> ?sz > 16"
    using that assms(1) by (simp add: word_less_nat_alt)
  ultimately have "nmbm_check_header crc D sz = Some True"
    by (auto simp: c_def crc_append [symmetric])
  with upd show ?thesis by (auto simp: D_def)
qed

end

end
