(* ===== verification/Nmbm_Write.thy ===== *)
theory Nmbm_Write
  imports Nmbm_State Nmbm_Header
begin

text \<open>
  Erasing and writing whole blocks with verification, and reading page by page
  (\<open>nmbm-core.c\<close>, lines 635 to 1004): \<open>nmbm_erase_block_and_check\<close>, \<open>nmbm_erase_range\<close>,
  \<open>nmbm_write_repeated_data\<close>, \<open>nmbm_write_signature\<close>, \<open>nmbn_read_data\<close>,
  \<open>nmbn_write_verify_data\<close> and \<open>nmbm_write_mgmt_range\<close>.

  The contracts say that each of these returns (every loop ends, every buffer access is in
  range), that it stays within the blocks it was given, and that a block it cannot use is
  marked bad.
\<close>

section \<open>Operations\<close>

fun check_empty_pages ::
  "'d nmbm_instance \<Rightarrow> u64 \<Rightarrow> u64 list \<Rightarrow> (bool \<times> 'd nmbm_instance) option" where
  "check_empty_pages ni addr [] = Some (True, ni)"
| "check_empty_pages ni addr (off # offs) =
     do {
       (ret, ni) \<leftarrow> read_page_cache ni (addr + off) NMBM_MODE_PLACE_OOB;
       if ret = - EBADMSG then Some (False, ni) else check_empty_pages ni addr offs
     }"

definition nmbm_erase_block_and_check ::
  "'d nmbm_instance \<Rightarrow> u32 \<Rightarrow> (bool \<times> 'd nmbm_instance) option" where
  "nmbm_erase_block_and_check ni ba =
     do {
       (success, ni) \<leftarrow> nmbm_erase_phys_block ni (ba2addr ni ba);
       if \<not> success then Some (False, ni)
       else if flags (lower ni) AND NMBM_F_EMPTY_PAGE_ECC_OK = 0 then Some (True, ni)
       else check_empty_pages ni (ba2addr ni ba)
              (page_offsets (erasesize (lower ni)) (writesize (lower ni)))
     }"

text \<open>The statements after \<open>skip_bad_block\<close>: mark the block on the chip and in the table.\<close>

definition skip_bad_block :: "'d nmbm_instance \<Rightarrow> u32 \<Rightarrow> 'd nmbm_instance option" where
  "skip_bad_block ni ba =
     do {
       (_, ni) \<leftarrow> nmbm_mark_phys_bad_block ni ba;
       (_, ni) \<leftarrow> nmbm_set_block_state ni ba BLOCK_ST_BAD;
       Some ni
     }"

definition erase_range_block :: "'d nmbm_instance \<Rightarrow> u32 \<Rightarrow> 'd nmbm_instance option" where
  "erase_range_block ni ba =
     do {
       st \<leftarrow> nmbm_get_block_state ni ba;
       if st \<noteq> BLOCK_ST_GOOD then Some ni
       else do {
         (bad, ni) \<leftarrow> nmbm_check_bad_phys_block ni ba;
         if bad then map_option snd (nmbm_set_block_state ni ba BLOCK_ST_BAD)
         else do {
           (success, ni) \<leftarrow> nmbm_erase_block_and_check ni ba;
           if success then Some ni else skip_bad_block ni ba
         }
       }
     }"

function nmbm_erase_range :: "'d nmbm_instance \<Rightarrow> u32 \<Rightarrow> u32 \<Rightarrow> 'd nmbm_instance option" where
  "nmbm_erase_range ni ba limit =
     (if ba < limit then
        do { ni \<leftarrow> erase_range_block ni ba; nmbm_erase_range ni (ba + 1) limit }
      else Some ni)"
  by pat_completeness auto
termination
  by (relation "measure (\<lambda>(ni, ba, limit). unat limit - unat ba)") (auto simp: word_less_nat_alt)

declare nmbm_erase_range.simps [simp del]

fun write_repeated_pages ::
  "'d nmbm_instance \<Rightarrow> u64 \<Rightarrow> bytes \<Rightarrow> u64 list \<Rightarrow> (bool \<times> 'd nmbm_instance) option" where
  "write_repeated_pages ni addr data [] = Some (True, ni)"
| "write_repeated_pages ni addr data (off # offs) =
     do {
       pc \<leftarrow> mem_write (page_cache ni) 0 data;
       pc \<leftarrow> mem_write pc (length data) (replicate (unat (rawpage_size ni) - length data) 0xff);
       let ni = ni\<lparr>page_cache := pc\<rparr>;
       buf \<leftarrow> mem_read (page_cache ni) 0 (unat (writesize (lower ni)));
       (success, ni) \<leftarrow> nmbm_write_phys_page ni (addr + off) (Some buf) None NMBM_MODE_PLACE_OOB;
       if \<not> success then Some (False, ni)
       else do {
         (ret, ni) \<leftarrow> read_page_cache ni (addr + off) NMBM_MODE_PLACE_OOB;
         if ret < 0 then Some (False, ni)
         else do {
           back \<leftarrow> mem_read (page_cache ni) 0 (length data);
           if back \<noteq> data then Some (False, ni) else write_repeated_pages ni addr data offs
         }
       }
     }"

text \<open>\<open>size\<close> is the length of \<open>data\<close> in every call.\<close>

definition nmbm_write_repeated_data ::
  "'d nmbm_instance \<Rightarrow> u32 \<Rightarrow> bytes \<Rightarrow> (bool \<times> 'd nmbm_instance) option" where
  "nmbm_write_repeated_data ni ba data =
     (if length data > unat (writesize (lower ni)) then Some (False, ni)
      else write_repeated_pages ni (ba2addr ni ba) data
             (page_offsets (erasesize (lower ni)) (writesize (lower ni))))"

definition write_signature_block ::
  "'d nmbm_instance \<Rightarrow> u32 \<Rightarrow> bytes \<Rightarrow> (bool \<times> 'd nmbm_instance) option" where
  "write_signature_block ni ba sig =
     do {
       st \<leftarrow> nmbm_get_block_state ni ba;
       if st \<noteq> BLOCK_ST_GOOD then Some (False, ni)
       else do {
         (bad, ni) \<leftarrow> nmbm_check_bad_phys_block ni ba;
         if bad then do { (_, ni) \<leftarrow> nmbm_set_block_state ni ba BLOCK_ST_BAD; Some (False, ni) }
         else do {
           (success, ni) \<leftarrow> nmbm_erase_block_and_check ni ba;
           (success, ni) \<leftarrow> (if success then nmbm_write_repeated_data ni ba sig else Some (False, ni));
           if success then Some (True, ni)
           else do { ni \<leftarrow> skip_bad_block ni ba; Some (False, ni) }
         }
       }
     }"

function write_signature_loop ::
  "'d nmbm_instance \<Rightarrow> u32 \<Rightarrow> u32 \<Rightarrow> bytes \<Rightarrow> (u32 option \<times> 'd nmbm_instance) option" where
  "write_signature_loop ni ba limit sig =
     (if ba > limit then
        do {
          (success, ni) \<leftarrow> write_signature_block ni ba sig;
          if success then Some (Some ba, ni) else write_signature_loop ni (ba - 1) limit sig
        }
      else Some (None, ni))"
  by pat_completeness auto
termination
  by (relation "measure (\<lambda>(ni, ba, limit, sig). unat ba)") (auto simp: word_less_nat_alt)

declare write_signature_loop.simps [simp del]

definition nmbm_write_signature ::
  "'d nmbm_instance \<Rightarrow> u32 \<Rightarrow> nmbm_signature \<Rightarrow> (u32 option \<times> 'd nmbm_instance) option" where
  "nmbm_write_signature ni limit sig =
     write_signature_loop ni (block_count ni - 1) limit (sig_bytes sig)"

text \<open>
  The page-wise loops. \<open>off\<close> is the linear address, \<open>pos\<close> the position of \<open>ptr\<close> in the
  caller's buffer. With a page mask that does not fit the page size they would not end.
\<close>

definition page_leading :: "'d nmbm_instance \<Rightarrow> u64 \<Rightarrow> u32" where
  "page_leading ni off = ucast (off AND ucast (writesize_mask ni))"

definition page_chunk :: "'d nmbm_instance \<Rightarrow> u64 \<Rightarrow> u32 \<Rightarrow> u32" where
  "page_chunk ni off sizeremain =
     (let chunksize = writesize (lower ni) - page_leading ni off
      in if chunksize > sizeremain then sizeremain else chunksize)"

partial_function (option) read_data_loop ::
  "'d nmbm_instance \<Rightarrow> bytes \<Rightarrow> nat \<Rightarrow> u64 \<Rightarrow> u32 \<Rightarrow> (int \<times> bytes \<times> 'd nmbm_instance) option" where
  "read_data_loop ni data pos off sizeremain =
     (if sizeremain = 0 then Some (0, data, ni)
      else let leading = page_leading ni off; chunksize = page_chunk ni off sizeremain in
        (if chunksize = writesize (lower ni) then
           do {
             buf \<leftarrow> mem_read data pos (unat (writesize (lower ni)));
             (ret, b, _, ni) \<leftarrow> nmbm_read_phys_page ni (off - ucast leading) (Some buf) None
                                 NMBM_MODE_PLACE_OOB;
             data \<leftarrow> mem_write data pos (case b of None \<Rightarrow> [] | Some b \<Rightarrow> b);
             if ret < 0 then Some (ret, data, ni)
             else read_data_loop ni data (pos + unat chunksize) (off + ucast chunksize)
                    (sizeremain - chunksize)
           }
         else
           do {
             (ret, ni) \<leftarrow> read_page_cache ni (off - ucast leading) NMBM_MODE_PLACE_OOB;
             if ret < 0 then Some (ret, data, ni)
             else do {
               c \<leftarrow> mem_read (page_cache ni) (unat leading) (unat chunksize);
               data \<leftarrow> mem_write data pos c;
               read_data_loop ni data (pos + unat chunksize) (off + ucast chunksize)
                 (sizeremain - chunksize)
             }
           }))"

definition nmbn_read_data ::
  "'d nmbm_instance \<Rightarrow> u64 \<Rightarrow> bytes \<Rightarrow> nat \<Rightarrow> u32 \<Rightarrow> (int \<times> bytes \<times> 'd nmbm_instance) option" where
  "nmbn_read_data ni addr data pos sz = read_data_loop ni data pos addr sz"

partial_function (option) write_verify_loop ::
  "'d nmbm_instance \<Rightarrow> bytes \<Rightarrow> nat \<Rightarrow> u64 \<Rightarrow> u32 \<Rightarrow> (bool \<times> 'd nmbm_instance) option" where
  "write_verify_loop ni data pos off sizeremain =
     (if sizeremain = 0 then Some (True, ni)
      else let leading = page_leading ni off; chunksize = page_chunk ni off sizeremain in
        do {
          pc \<leftarrow> mem_write (page_cache ni) 0 (replicate (unat (rawpage_size ni)) 0xff);
          c \<leftarrow> mem_read data pos (unat chunksize);
          pc \<leftarrow> mem_write pc (unat leading) c;
          let ni = ni\<lparr>page_cache := pc\<rparr>;
          buf \<leftarrow> mem_read (page_cache ni) 0 (unat (writesize (lower ni)));
          (success, ni) \<leftarrow> nmbm_write_phys_page ni (off - ucast leading) (Some buf) None
                             NMBM_MODE_PLACE_OOB;
          if \<not> success then Some (False, ni)
          else do {
            (ret, ni) \<leftarrow> read_page_cache ni (off - ucast leading) NMBM_MODE_PLACE_OOB;
            if ret < 0 then Some (False, ni)
            else do {
              back \<leftarrow> mem_read (page_cache ni) (unat leading) (unat chunksize);
              if back \<noteq> c then Some (False, ni)
              else write_verify_loop ni data (pos + unat chunksize) (off + ucast chunksize)
                     (sizeremain - chunksize)
            }
          }
        })"

definition nmbn_write_verify_data ::
  "'d nmbm_instance \<Rightarrow> u64 \<Rightarrow> bytes \<Rightarrow> nat \<Rightarrow> u32 \<Rightarrow> (bool \<times> 'd nmbm_instance) option" where
  "nmbn_write_verify_data ni addr data pos sz = write_verify_loop ni data pos addr sz"

text \<open>
  One round of \<open>nmbm_write_mgmt_range\<close>: try to place the chunk at \<open>pos\<close> in block \<open>ba\<close>.
\<close>

definition write_mgmt_block ::
  "'d nmbm_instance \<Rightarrow> u32 \<Rightarrow> bytes \<Rightarrow> nat \<Rightarrow> u32 \<Rightarrow> (bool \<times> 'd nmbm_instance) option" where
  "write_mgmt_block ni ba data pos chunksize =
     do {
       st \<leftarrow> nmbm_get_block_state ni ba;
       if st \<noteq> BLOCK_ST_GOOD then Some (False, ni)
       else do {
         (bad, ni) \<leftarrow> nmbm_check_bad_phys_block ni ba;
         if bad then do { (_, ni) \<leftarrow> nmbm_set_block_state ni ba BLOCK_ST_BAD; Some (False, ni) }
         else do {
           (success, ni) \<leftarrow> nmbm_erase_block_and_check ni ba;
           (success, ni) \<leftarrow> (if success
              then nmbn_write_verify_data ni (ba2addr ni ba) data pos chunksize
              else Some (False, ni));
           if success then Some (True, ni)
           else do { ni \<leftarrow> skip_bad_block ni ba; Some (False, ni) }
         }
       }
     }"

text \<open>
  The loop carries the position \<open>pos\<close> of \<open>ptr\<close>, the remaining size, and \<open>start\<close>, the value
  stored through \<open>actual_start_ba\<close> (\<open>None\<close> while nothing was stored).
\<close>

function write_mgmt_loop ::
  "'d nmbm_instance \<Rightarrow> u32 \<Rightarrow> u32 \<Rightarrow> bytes \<Rightarrow> nat \<Rightarrow> u32 \<Rightarrow> u32 \<Rightarrow> u32 option
     \<Rightarrow> (u32 \<times> u32 option \<times> u32 \<times> 'd nmbm_instance) option" where
  "write_mgmt_loop ni ba limit data pos sz sizeremain start =
     (if sizeremain \<noteq> 0 \<and> ba < limit then
        do {
          let chunksize = (if sizeremain > erasesize (lower ni) then erasesize (lower ni)
                           else sizeremain);
          (success, ni) \<leftarrow> write_mgmt_block ni ba data pos chunksize;
          if success
          then write_mgmt_loop ni (ba + 1) limit data (pos + unat chunksize) sz
                 (sizeremain - chunksize) (if sizeremain = sz then Some ba else start)
          else write_mgmt_loop ni (ba + 1) limit data pos sz sizeremain start
        }
      else Some (sizeremain, start, ba, ni))"
  by pat_completeness auto
termination
  by (relation "measure (\<lambda>(ni, ba, limit, data, pos, sz, sizeremain, start). unat limit - unat ba)")
    (auto simp: word_less_nat_alt)

declare write_mgmt_loop.simps [simp del]

text \<open>
  On success the result is the pair (\<open>actual_start_ba\<close>, \<open>actual_end_ba\<close>). Using
  \<open>actual_start_ba\<close> when it was never stored is undefined.
\<close>

definition nmbm_write_mgmt_range ::
  "'d nmbm_instance \<Rightarrow> u32 \<Rightarrow> u32 \<Rightarrow> bytes \<Rightarrow> u32 \<Rightarrow> ((u32 \<times> u32) option \<times> 'd nmbm_instance) option" where
  "nmbm_write_mgmt_range ni ba limit data sz =
     do {
       (sizeremain, start, ba, ni) \<leftarrow> write_mgmt_loop ni ba limit data 0 sz sz None;
       if sizeremain \<noteq> 0 then Some (None, ni)
       else do { s \<leftarrow> start; Some (Some (s, ba), ni) }
     }"

section \<open>Geometry and range of an operation\<close>

text \<open>
  The geometry \<open>nmbm_init_structure\<close> derives from an accepted lower device: page and block
  sizes are powers of two, a page fits a block, masks and shift belong to them.
\<close>

definition geom_wf :: "'d nmbm_instance \<Rightarrow> bool" where
  "geom_wf ni \<longleftrightarrow>
     (\<exists>w e. w \<le> e \<and> e < 32 \<and>
        unat (writesize (lower ni)) = 2 ^ w \<and> unat (erasesize (lower ni)) = 2 ^ e \<and>
        writesize_mask ni = mask w \<and> erasesize_mask ni = mask e \<and>
        unat (erasesize_shift ni) = e)"

text \<open>
  What an operation on the blocks \<open>[lo, hi)\<close> needs: a well-formed instance, a frame \<open>Q\<close> that
  tolerates changes of those blocks, and a state table that covers them.
\<close>

definition op_ctx ::
  "('d \<Rightarrow> bool) \<Rightarrow> (u64 \<Rightarrow> bool) \<Rightarrow> nat \<Rightarrow> nat \<Rightarrow> 'd nmbm_instance \<Rightarrow> bool" where
  "op_ctx Q A lo hi ni \<longleftrightarrow>
     dev_wf ni \<and> geom_wf ni \<and> dev_frame (lower ni) Q A \<and>
     hi \<le> 16 * length (block_state ni) \<and>
     (\<forall>b :: u32. lo \<le> unat b \<and> unat b < hi \<longrightarrow> blk_allowed A ni b)"

lemma op_ctxD:
  assumes "op_ctx Q A lo hi ni"
  shows "dev_wf ni" and "geom_wf ni" and "dev_frame (lower ni) Q A" and "lower_ok (lower ni)"
    and "lo \<le> unat b \<Longrightarrow> unat b < hi \<Longrightarrow> blk_allowed A ni b"
    and "unat b < hi \<Longrightarrow> unat b < 16 * length (block_state ni)"
  using assms by (auto simp: op_ctx_def dev_wf_def)

lemma tab_step_geom: "tab_step Q lo hi ni ni' \<Longrightarrow> geom_wf ni' = geom_wf ni"
  by (auto simp: tab_step_def geom_wf_def)

lemma tab_step_op_ctx: "tab_step Q' lo' hi' ni ni' \<Longrightarrow> op_ctx Q A lo hi ni \<Longrightarrow> op_ctx Q A lo hi ni'"
  by (simp add: op_ctx_def tab_step_fields tab_step_geom tab_step_wf)

lemma op_ctx_narrow:
  "op_ctx Q A lo hi ni \<Longrightarrow> lo \<le> lo' \<Longrightarrow> hi' \<le> hi \<Longrightarrow> op_ctx Q A lo' hi' ni"
  by (auto simp: op_ctx_def)

lemma unat_ba2addr:
  assumes "geom_wf ni"
  shows "unat (ba2addr ni ba) = unat ba * unat (erasesize (lower ni))"
proof -
  from assms obtain e where e: "e < 32" "unat (erasesize (lower ni)) = 2 ^ e"
      "unat (erasesize_shift ni) = e"
    by (auto simp: geom_wf_def)
  have "unat ba * 2 ^ e < 2 ^ 32 * 2 ^ 32"
    by (rule mult_less_le_imp_less) (use e unat_u32_less [of ba] pow2_le_u32 [OF e(1)] in simp_all)
  then show ?thesis
    using e by (simp add: ba2addr_def unat_push_bit_mult)
qed

lemma unat_ba2addr_off:
  assumes "geom_wf ni" and "unat off < unat (erasesize (lower ni))"
  shows "unat (ba2addr ni ba + off) = unat ba * unat (erasesize (lower ni)) + unat off"
proof -
  from assms(1) obtain e where e: "e < 32" "unat (erasesize (lower ni)) = 2 ^ e"
    by (auto simp: geom_wf_def)
  have "unat ba * 2 ^ e + unat off < Suc (unat ba) * 2 ^ e" using assms(2) e by simp
  also have "\<dots> \<le> 2 ^ 32 * 2 ^ 32"
    by (rule mult_le_mono) (use e unat_u32_less [of ba] pow2_le_u32 [OF e(1)] in simp_all)
  finally show ?thesis
    using e by (simp add: unat_word_ariths unat_ba2addr [OF assms(1)])
qed

lemma addr2ba_off:
  assumes "geom_wf ni" and "unat off < unat (erasesize (lower ni))"
  shows "addr2ba ni (ba2addr ni ba + off) = ba"
proof -
  from assms(1) obtain e where e: "e < 32" "unat (erasesize (lower ni)) = 2 ^ e"
      "unat (erasesize_shift ni) = e"
    by (auto simp: geom_wf_def)
  have "unat (addr2ba ni (ba2addr ni ba + off)) = unat ba"
    using assms(2) e unat_u32_less [of ba]
    by (simp add: addr2ba_def unat_ucast_mod unat_drop_bit_div unat_ba2addr_off [OF assms])
  then show ?thesis by (simp add: word_unat_eq_iff)
qed

lemma page_leading_eq:
  assumes "geom_wf ni"
  shows "unat (page_leading ni off) = unat off mod unat (writesize (lower ni))"
proof -
  from assms obtain w where w: "w < 32" "unat (writesize (lower ni)) = 2 ^ w"
      "writesize_mask ni = mask w"
    by (auto simp: geom_wf_def)
  have "(ucast (mask w :: u32) :: u64) = mask w"
    by (rule bit_word_eqI) (use w(1) in \<open>auto simp: bit_simps\<close>)
  then have "page_leading ni off = ucast (take_bit w off)"
    by (simp add: page_leading_def w(3) take_bit_eq_mask)
  moreover have "unat (take_bit w off) = unat off mod 2 ^ w"
    by (rule unat_take_bit_mod)
  moreover have "unat off mod 2 ^ w < 2 ^ 32"
    by (rule order_less_le_trans [where y = "2 ^ w"]) (use pow2_le_u32 [OF w(1)] in simp_all)
  ultimately show ?thesis
    by (simp add: unat_ucast_mod w(2))
qed

lemma page_chunk_eq:
  assumes "geom_wf ni"
  shows "unat (page_chunk ni off n) =
    min (unat (writesize (lower ni)) - unat off mod unat (writesize (lower ni))) (unat n)"
proof -
  let ?ws = "unat (writesize (lower ni))"
  have "0 < ?ws" using assms by (auto simp: geom_wf_def)
  then have "page_leading ni off \<le> writesize (lower ni)"
    using page_leading_eq [OF assms, of off] by (simp add: word_le_nat_alt less_imp_le)
  then have "unat (writesize (lower ni) - page_leading ni off) = ?ws - unat off mod ?ws"
    using page_leading_eq [OF assms, of off] by (simp add: unat_sub)
  then show ?thesis by (auto simp: page_chunk_def Let_def word_less_nat_alt min_def)
qed

lemma page_chunk_bounds:
  assumes "geom_wf ni" and "n \<noteq> 0"
  shows "0 < unat (page_chunk ni off n)" and "page_chunk ni off n \<le> n"
    and "unat (page_leading ni off) + unat (page_chunk ni off n) \<le> unat (writesize (lower ni))"
proof -
  have "0 < unat (writesize (lower ni))" using assms(1) by (auto simp: geom_wf_def)
  moreover have "0 < unat n" using assms(2) by (simp add: unat_gt_0)
  moreover have "unat off mod unat (writesize (lower ni)) < unat (writesize (lower ni))"
    by (rule mod_less_divisor) fact
  ultimately show "0 < unat (page_chunk ni off n)" and "page_chunk ni off n \<le> n"
    and "unat (page_leading ni off) + unat (page_chunk ni off n) \<le> unat (writesize (lower ni))"
    by (auto simp: page_chunk_eq [OF assms(1)] page_leading_eq [OF assms(1)] word_le_nat_alt
        min_def)
qed

lemma dev_step_geom: "dev_step Q ni ni' \<Longrightarrow> geom_wf ni' = geom_wf ni"
  by (auto simp: dev_step_def geom_wf_def)

section \<open>Reading pages\<close>

text \<open>
  Only the bytes asked for change in the caller's buffer, and the return value is never
  positive: a corrected bitflip count of \<open>read_page\<close> is not passed on.
\<close>

definition read_data_post ::
  "('d \<Rightarrow> bool) \<Rightarrow> 'd nmbm_instance \<Rightarrow> bytes \<Rightarrow> nat \<Rightarrow> nat \<Rightarrow> int \<times> bytes \<times> 'd nmbm_instance \<Rightarrow> bool" where
  "read_data_post Q ni data pos n = (\<lambda>(ret, data', ni').
     dev_step Q ni ni' \<and> ret \<le> 0 \<and> length data' = length data \<and>
     take pos data' = take pos data \<and> drop (pos + n) data' = drop (pos + n) data)"

lemma read_data_post_step:
  assumes "read_data_post Q ni1 d1 (pos + c) (n - c) r" and "dev_step Q ni ni1" and "c \<le> n"
    and "length d1 = length data" and "take pos d1 = take pos data"
    and "drop (pos + c) d1 = drop (pos + c) data"
  shows "read_data_post Q ni data pos n r"
proof -
  obtain ret d2 ni2 where r: "r = (ret, d2, ni2)" by (cases r)
  from assms(1) r have "take pos (take (pos + c) d2) = take pos (take (pos + c) d1)"
    by (simp add: read_data_post_def)
  then have t: "take pos d2 = take pos data" using assms(5) by (simp add: min_def)
  have e: "pos + n = (n - c) + (pos + c)" using assms(3) by simp
  have "drop (pos + n) d2 = drop (pos + n) d1"
    using assms(1,3) r by (simp add: read_data_post_def)
  also have "\<dots> = drop (pos + n) data"
    unfolding e using assms(6) by (metis drop_drop)
  finally show ?thesis
    using assms r t by (auto simp: read_data_post_def intro: dev_step_trans)
qed

lemma take_mem_write: "mem_write d pos b = Some d' \<Longrightarrow> take pos d' = take pos d"
  by (auto simp: mem_write_def split: if_splits)

lemma drop_mem_write: "mem_write d pos b = Some d' \<Longrightarrow> drop (pos + length b) d' = drop (pos + length b) d"
  by (auto simp: mem_write_def split: if_splits)

lemma mem_write_Some: "pos + length x \<le> length d \<Longrightarrow> \<exists>d'. mem_write d pos x = Some d'"
  by (simp add: mem_write_def)

lemma read_data_post_stop:
  assumes "dev_step Q ni ni1" and "mem_write data pos x = Some d1" and "length x \<le> n" and "ret \<le> 0"
  shows "read_data_post Q ni data pos n (ret, d1, ni1)"
proof -
  have "drop (n - length x) (drop (pos + length x) d1) = drop (n - length x) (drop (pos + length x) data)"
    using drop_mem_write [OF assms(2)] by simp
  then have "drop (pos + n) d1 = drop (pos + n) data" using assms(3) by (simp add: add.commute)
  with assms show ?thesis
    by (simp add: read_data_post_def length_mem_write take_mem_write)
qed

lemma read_data_loop_returns:
  "dev_wf ni \<Longrightarrow> geom_wf ni \<Longrightarrow> dev_frame (lower ni) Q A \<Longrightarrow> pos + unat n \<le> length data \<Longrightarrow>
   returns (read_data_loop ni data pos off n) (read_data_post Q ni data pos (unat n))"
proof (induction "unat n" arbitrary: ni data pos off n rule: less_induct)
  case less
  show ?case
  proof (cases "n = 0")
    case True
    then show ?thesis by (simp add: read_data_loop.simps read_data_post_def)
  next
    case False
    let ?l = "page_leading ni off" and ?c = "page_chunk ni off n"
    note b = page_chunk_bounds [OF less.prems(2) False, of off]
    have sub: "unat (n - ?c) = unat n - unat ?c" using b(2) by (rule unat_sub)
    have step: "returns (read_data_loop ni1 d1 (pos + unat ?c) (off + ucast ?c) (n - ?c))
        (read_data_post Q ni data pos (unat n))"
      if "dev_step Q ni ni1" and "mem_write data pos x = Some d1" and "length x = unat ?c" for ni1 d1 x
    proof -
      have "returns (read_data_loop ni1 d1 (pos + unat ?c) (off + ucast ?c) (n - ?c))
          (read_data_post Q ni1 d1 (pos + unat ?c) (unat (n - ?c)))"
        by (rule less.hyps) (use that b less.prems sub in
            \<open>auto simp: dev_step_geom dev_step_fields dev_step_wf length_mem_write word_le_nat_alt\<close>)
      then show ?thesis
        unfolding sub
        by (rule returns_mono) (rule read_data_post_step [where ?ni1.0 = ni1 and ?d1.0 = d1], use that b(2) in
            \<open>auto simp: length_mem_write take_mem_write word_le_nat_alt dest: drop_mem_write\<close>)
    qed
    show ?thesis
    proof (cases "?c = writesize (lower ni)")
      case True
      let ?buf = "take (unat ?c) (drop pos data)"
      have len: "pos + unat ?c \<le> length data" using b(2) less.prems(4) by (simp add: word_le_nat_alt)
      have "returns (nmbm_read_phys_page ni (off - ucast ?l) (Some ?buf) None NMBM_MODE_PLACE_OOB)
          (\<lambda>(ret, x, oob, ni'). dev_step Q ni ni' \<and> fills (Some ?buf) x \<and> fills None oob)"
        using less.prems(1,3) by (intro nmbm_read_phys_page_returns) (auto simp: dev_wf_def)
      then obtain ret x ni1 where read: "nmbm_read_phys_page ni (off - ucast ?l) (Some ?buf) None
          NMBM_MODE_PLACE_OOB = Some (ret, Some x, None, ni1)"
        and d: "dev_step Q ni ni1" and x: "length x = unat ?c"
        using len by (auto simp: returns_iff fills_Some)
      from len x obtain d1 where w: "mem_write data pos x = Some d1" using mem_write_Some by metis
      show ?thesis
        using read_data_post_stop [OF d w] step [OF d w x] False len x b(2)
        by (subst read_data_loop.simps)
          (simp add: True [symmetric] read w Let_def returns_simps mem_read_def word_le_nat_alt)
    next
      case part: False
      from read_page_cache_returns [OF less.prems(1,3), of "off - ucast ?l" NMBM_MODE_PLACE_OOB]
      obtain ret ni1 where read: "read_page_cache ni (off - ucast ?l) NMBM_MODE_PLACE_OOB = Some (ret, ni1)"
        and d: "dev_step Q ni ni1" by (auto simp: returns_iff)
      let ?x = "take (unat ?c) (drop (unat ?l) (page_cache ni1))"
      have lx: "unat ?l + unat ?c \<le> length (page_cache ni1)"
        using b(3) less.prems(1) dev_step_fields(7) [OF d] by (simp add: dev_wf_def)
      then have x: "length ?x = unat ?c" by simp
      have "pos + length ?x \<le> length data" using b(2) less.prems(4) x by (simp add: word_le_nat_alt)
      then obtain d1 where w: "mem_write data pos ?x = Some d1" using mem_write_Some by metis
      have "read_data_post Q ni data pos (unat n) (ret, data, ni1)" if "ret < 0"
        using d that by (simp add: read_data_post_def)
      then show ?thesis
        using step [OF d w x] False lx
        by (subst read_data_loop.simps)
          (simp add: part read w Let_def returns_simps mem_read_def)
    qed
  qed
qed

lemma nmbn_read_data_returns:
  "dev_wf ni \<Longrightarrow> geom_wf ni \<Longrightarrow> dev_frame (lower ni) Q A \<Longrightarrow> pos + unat n \<le> length data \<Longrightarrow>
   returns (nmbn_read_data ni addr data pos n) (read_data_post Q ni data pos (unat n))"
  unfolding nmbn_read_data_def by (rule read_data_loop_returns)

section \<open>Writing and verifying within a block\<close>

text \<open>
  A page access derived from an address of a block stays inside that block, because the page
  size divides the block size.
\<close>

lemma page_base_in_block:
  assumes "geom_wf ni" and "k < unat (erasesize (lower ni))"
  shows "\<exists>b. ba2addr ni ba + of_nat k - ucast (page_leading ni (ba2addr ni ba + of_nat k)) = ba2addr ni ba + b
           \<and> b < ucast (erasesize (lower ni))"
proof -
  let ?es = "unat (erasesize (lower ni))" and ?ws = "unat (writesize (lower ni))"
  let ?off = "ba2addr ni ba + of_nat k"
  from assms(1) have dvd: "?ws dvd ?es" by (auto simp: geom_wf_def le_imp_power_dvd)
  have k: "unat (of_nat k :: u64) = k"
    using assms(2) unat_u32_less [of "erasesize (lower ni)"] by (intro unat_of_nat_small) simp
  have "unat ?off mod ?ws = (unat ba * ?es + k) mod ?ws"
    using assms k by (simp add: unat_ba2addr_off)
  also have "\<dots> = k mod ?ws" using dvd by (metis dvd_def mod_mult_self3 mult.commute mult.left_commute)
  finally have lead: "unat (page_leading ni ?off) = k mod ?ws" by (simp add: page_leading_eq [OF assms(1)])
  have "(ucast (page_leading ni ?off) :: u64) = of_nat (k mod ?ws)"
    by (simp add: lead [symmetric])
  then have "?off - ucast (page_leading ni ?off) = ba2addr ni ba + of_nat (k - k mod ?ws)"
    by (simp add: of_nat_diff algebra_simps)
  moreover have "unat (of_nat (k - k mod ?ws) :: u64) = k - k mod ?ws"
    using assms(2) unat_u32_less [of "erasesize (lower ni)"] by (intro unat_of_nat_small) simp
  then have "(of_nat (k - k mod ?ws) :: u64) < ucast (erasesize (lower ni))"
    using assms(2) by (simp add: word_less_nat_alt)
  ultimately show ?thesis by blast
qed

lemma page_access_allowed:
  "geom_wf ni \<Longrightarrow> blk_allowed A ni ba \<Longrightarrow> k < unat (erasesize (lower ni)) \<Longrightarrow>
   read_only ni \<or> A (ba2addr ni ba + of_nat k - ucast (page_leading ni (ba2addr ni ba + of_nat k)))"
  using page_base_in_block [of ni k ba] by (metis blk_allowed_def)

lemma write_verify_loop_returns:
  "dev_wf ni \<Longrightarrow> geom_wf ni \<Longrightarrow> dev_frame (lower ni) Q A \<Longrightarrow> blk_allowed A ni ba \<Longrightarrow>
   pos + unat n \<le> length data \<Longrightarrow> k + unat n \<le> unat (erasesize (lower ni)) \<Longrightarrow>
   returns (write_verify_loop ni data pos (ba2addr ni ba + of_nat k) n) (\<lambda>(ok, ni'). dev_step Q ni ni')"
proof (induction "unat n" arbitrary: ni pos k n rule: less_induct)
  case less
  show ?case
  proof (cases "n = 0")
    case True
    then show ?thesis by (simp add: write_verify_loop.simps)
  next
    case False
    let ?off = "ba2addr ni ba + of_nat k"
    let ?l = "page_leading ni ?off" and ?c = "page_chunk ni ?off n"
    let ?a = "?off - ucast ?l"
    note b = page_chunk_bounds [OF less.prems(2) False, of ?off]
    have sub: "unat (n - ?c) = unat n - unat ?c" using b(2) by (rule unat_sub)
    have pc: "length (page_cache ni) = unat (rawpage_size ni)"
      "unat (writesize (lower ni)) \<le> unat (rawpage_size ni)" "lower_ok (lower ni)"
      using less.prems(1) by (auto simp: dev_wf_def)
    have len: "pos + unat ?c \<le> length data" using b(2) less.prems(5) by (simp add: word_le_nat_alt)
    have off: "?off + ucast ?c = ba2addr ni ba + of_nat (k + unat ?c)"
      by simp
    have step: "returns (write_verify_loop ni1 data (pos + unat ?c) (?off + ucast ?c) (n - ?c))
        (\<lambda>(ok, ni'). dev_step Q ni ni')" if d: "dev_step Q ni ni1" for ni1
    proof -
      have "returns (write_verify_loop ni1 data (pos + unat ?c) (ba2addr ni1 ba + of_nat (k + unat ?c)) (n - ?c))
          (\<lambda>(ok, ni'). dev_step Q ni1 ni')"
        by (rule less.hyps) (use d b less.prems sub in
            \<open>auto simp: dev_step_geom dev_step_fields dev_step_wf dev_step_blk_allowed word_le_nat_alt\<close>)
      then show ?thesis
        unfolding off dev_step_fields(9) [OF d] by (rule returns_mono) (auto intro: dev_step_trans [OF d])
    qed
    have "k < unat (erasesize (lower ni))"
      using b(1,2) less.prems(6) by (simp add: word_le_nat_alt)
    then have allowed: "read_only ni \<or> A ?a" by (rule page_access_allowed [OF less.prems(2,4)])
    let ?d = "take (unat ?c) (drop pos data)"
    from len b(3) pc obtain p where p: "mem_write (replicate (unat (rawpage_size ni)) 0xff) (unat ?l) ?d = Some p"
      using mem_write_Some [of "unat ?l" ?d "replicate (unat (rawpage_size ni)) 0xff"] by auto
    then have lp: "length p = unat (rawpage_size ni)" by (auto dest: length_mem_write)
    let ?ni = "ni\<lparr>page_cache := p\<rparr>"
    have d0: "dev_step Q ni ?ni" by (rule dev_step_page_cache) (simp add: lp pc)
    have "returns (nmbm_write_phys_page ?ni ?a (Some (take (unat (writesize (lower ni))) p)) None
        NMBM_MODE_PLACE_OOB) (\<lambda>(ok, ni'). dev_step Q ?ni ni' \<and> (read_only ?ni \<longrightarrow> \<not> ok))"
      by (rule nmbm_write_phys_page_returns) (use pc less.prems(3) allowed in \<open>auto simp: read_only_def\<close>)
    then obtain ok ni1 where w: "nmbm_write_phys_page ?ni ?a (Some (take (unat (writesize (lower ni))) p)) None
        NMBM_MODE_PLACE_OOB = Some (ok, ni1)" and d1: "dev_step Q ni ni1"
      using dev_step_trans [OF d0] by (auto simp: returns_iff)
    from less.prems d1 have "returns (read_page_cache ni1 ?a NMBM_MODE_PLACE_OOB) (\<lambda>(ret, ni'). dev_step Q ni1 ni')"
      by (intro read_page_cache_returns) (auto simp: dev_step_fields dev_step_wf)
    then obtain ret ni2 where r: "read_page_cache ni1 ?a NMBM_MODE_PLACE_OOB = Some (ret, ni2)"
      and d2: "dev_step Q ni ni2"
      using dev_step_trans [OF d1] by (auto simp: returns_iff)
    from d2 have "length (page_cache ni2) = unat (rawpage_size ni)" by (simp add: dev_step_fields pc)
    then show ?thesis
      using False len b(3) pc lp d1 d2 step
      by (subst write_verify_loop.simps)
        (simp add: Let_def returns_simps mem_read_def mem_write_def [of "page_cache ni"] p w r)
  qed
qed

lemma nmbn_write_verify_data_returns:
  "dev_wf ni \<Longrightarrow> geom_wf ni \<Longrightarrow> dev_frame (lower ni) Q A \<Longrightarrow> blk_allowed A ni ba \<Longrightarrow>
   pos + unat n \<le> length data \<Longrightarrow> n \<le> erasesize (lower ni) \<Longrightarrow>
   returns (nmbn_write_verify_data ni (ba2addr ni ba) data pos n) (\<lambda>(ok, ni'). dev_step Q ni ni')"
  unfolding nmbn_write_verify_data_def
  using write_verify_loop_returns [where k = 0] by (simp add: word_le_nat_alt)

section \<open>Contracts of the block operations\<close>

lemma check_empty_pages_returns:
  "dev_wf ni \<Longrightarrow> dev_frame (lower ni) Q A \<Longrightarrow>
   returns (check_empty_pages ni addr offs) (\<lambda>(ok, ni'). dev_step Q ni ni')"
proof (induction offs arbitrary: ni)
  case Nil
  then show ?case by simp
next
  case (Cons off offs)
  have "returns (check_empty_pages ni1 addr offs) (\<lambda>(ok, ni'). dev_step Q ni ni')"
    if d: "dev_step Q ni ni1" for ni1
    using Cons.IH [of ni1] Cons.prems
    by (auto simp: dev_step_fields [OF d] dev_step_wf [OF d] intro: dev_step_trans [OF d]
        elim!: returns_mono)
  then show ?case
    by (auto simp: returns_simps intro!: returns_mono [OF read_page_cache_returns [OF Cons.prems]])
qed

lemma nmbm_erase_block_and_check_returns:
  assumes "dev_wf ni" and "dev_frame (lower ni) Q A" and "blk_allowed A ni ba"
  shows "returns (nmbm_erase_block_and_check ni ba)
    (\<lambda>(ok, ni'). dev_step Q ni ni' \<and> (read_only ni \<longrightarrow> \<not> ok))"
proof -
  have "returns (nmbm_erase_phys_block ni (ba2addr ni ba))
      (\<lambda>(ok, ni'). dev_step Q ni ni' \<and> (read_only ni \<longrightarrow> \<not> ok))"
    by (rule nmbm_erase_phys_block_returns [where A = A]) (use assms in \<open>auto simp: dev_wf_def blk_allowed_def\<close>)
  moreover have "returns (check_empty_pages ni1 a offs) (\<lambda>(ok, ni'). dev_step Q ni ni')"
    if d: "dev_step Q ni ni1" for ni1 a offs
    using check_empty_pages_returns [of ni1 Q A a offs] assms
    by (auto simp: dev_step_fields [OF d] dev_step_wf [OF d] intro: dev_step_trans [OF d] elim!: returns_mono)
  ultimately show ?thesis
    unfolding nmbm_erase_block_and_check_def
    by (auto simp: returns_simps elim!: returns_mono)
qed

lemma write_repeated_pages_returns:
  "dev_wf ni \<Longrightarrow> dev_frame (lower ni) Q A \<Longrightarrow> length data \<le> unat (writesize (lower ni)) \<Longrightarrow>
   \<forall>off \<in> set offs. read_only ni \<or> A (addr + off) \<Longrightarrow>
   returns (write_repeated_pages ni addr data offs) (\<lambda>(ok, ni'). dev_step Q ni ni')"
proof (induction offs arbitrary: ni)
  case Nil
  then show ?case by simp
next
  case (Cons off offs)
  let ?pc = "data @ replicate (unat (rawpage_size ni) - length data) 0xff"
  let ?ni = "ni\<lparr>page_cache := ?pc\<rparr>"
  have pc: "length (page_cache ni) = unat (rawpage_size ni)"
      "unat (writesize (lower ni)) \<le> unat (rawpage_size ni)" "lower_ok (lower ni)"
    using Cons.prems(1) by (auto simp: dev_wf_def)
  have p: "mem_write (data @ drop (length data) (page_cache ni)) (length data)
      (replicate (unat (rawpage_size ni) - length data) 0xff) = Some ?pc"
    using pc Cons.prems(3) by (simp add: mem_write_def)
  have d0: "dev_step Q ni ?ni"
    by (rule dev_step_page_cache) (use pc Cons.prems(3) in simp)
  have "returns (nmbm_write_phys_page ?ni (addr + off) (Some (take (unat (writesize (lower ni))) ?pc)) None
      NMBM_MODE_PLACE_OOB) (\<lambda>(ok, ni'). dev_step Q ?ni ni' \<and> (read_only ?ni \<longrightarrow> \<not> ok))"
    by (rule nmbm_write_phys_page_returns [where A = A]) (use pc Cons.prems in \<open>auto simp: read_only_def\<close>)
  then obtain ok ni1 where w: "nmbm_write_phys_page ?ni (addr + off)
      (Some (take (unat (writesize (lower ni))) ?pc)) None NMBM_MODE_PLACE_OOB = Some (ok, ni1)"
    and d1: "dev_step Q ni ni1"
    using dev_step_trans [OF d0] by (auto simp: returns_iff)
  from Cons.prems d1 have "returns (read_page_cache ni1 (addr + off) NMBM_MODE_PLACE_OOB)
      (\<lambda>(ret, ni'). dev_step Q ni1 ni')"
    by (intro read_page_cache_returns) (auto simp: dev_step_fields dev_step_wf)
  then obtain ret ni2 where r: "read_page_cache ni1 (addr + off) NMBM_MODE_PLACE_OOB = Some (ret, ni2)"
    and d2: "dev_step Q ni ni2"
    using dev_step_trans [OF d1] by (auto simp: returns_iff)
  have "returns (write_repeated_pages ni2 addr data offs) (\<lambda>(ok, ni'). dev_step Q ni2 ni')"
    by (rule Cons.IH) (use Cons.prems in \<open>auto simp: dev_step_fields [OF d2] dev_step_wf [OF d2]\<close>)
  then have "returns (write_repeated_pages ni2 addr data offs) (\<lambda>(ok, ni'). dev_step Q ni ni')"
    by (rule returns_mono) (auto intro: dev_step_trans [OF d2])
  then show ?case
    using pc Cons.prems(3) d1 d2 w r
    by (simp add: Let_def returns_simps mem_read_def mem_write_def [of "page_cache ni"] p
        dev_step_fields [OF d2])
qed

lemma nmbm_write_repeated_data_returns:
  assumes "dev_wf ni" and "dev_frame (lower ni) Q A" and "blk_allowed A ni ba"
  shows "returns (nmbm_write_repeated_data ni ba data) (\<lambda>(ok, ni'). dev_step Q ni ni')"
  unfolding nmbm_write_repeated_data_def returns_if
  using assms write_repeated_pages_returns [OF assms(1,2)] page_offsets_less
  by (auto simp: blk_allowed_def)

text \<open>
  The three range operations treat a block alike: a block that is not good is passed over, one
  with a factory mark is recorded as bad, and the others are tried, and retired on a failure.
  Hence a block that was not used is not good any more.
\<close>

abbreviation good_at :: "'d nmbm_instance \<Rightarrow> u32 \<Rightarrow> bool" where
  "good_at ni ba \<equiv> st_of (block_state ni) (unat ba) = BLOCK_ST_GOOD"

definition block_post ::
  "('d \<Rightarrow> bool) \<Rightarrow> nat \<Rightarrow> nat \<Rightarrow> u32 \<Rightarrow> 'd nmbm_instance \<Rightarrow> bool \<times> 'd nmbm_instance \<Rightarrow> bool" where
  "block_post Q lo hi ba ni = (\<lambda>(ok, ni'). tab_step Q lo hi ni ni' \<and> (ok \<longleftrightarrow> good_at ni' ba))"

lemma block_post_dev_trans:
  "dev_step Q ni ni1 \<Longrightarrow> block_post Q lo hi ba ni1 r \<Longrightarrow> block_post Q lo hi ba ni r"
  by (auto simp: block_post_def intro: tab_step_trans [OF dev_step_tab_step])

lemma bad_not_good [simp]: "BLOCK_ST_BAD \<noteq> BLOCK_ST_GOOD" "BLOCK_ST_GOOD \<noteq> BLOCK_ST_BAD"
  by (simp_all add: block_st_defs)

lemma dev_step_op_ctx: "dev_step Q' ni ni' \<Longrightarrow> op_ctx Q A lo hi ni \<Longrightarrow> op_ctx Q A lo hi ni'"
  by (rule tab_step_op_ctx [OF dev_step_tab_step])

lemma set_bad_post:
  assumes "op_ctx Q A lo hi ni" and "lo \<le> unat ba" and "unat ba < hi" and "good_at ni ba"
  shows "returns (nmbm_set_block_state ni ba BLOCK_ST_BAD) (\<lambda>(c, ni'). block_post Q lo hi ba ni (False, ni'))"
  using set_bad_step [of ba ni lo hi Q] assms op_ctxD(6) [OF assms(1,3)]
  by (auto simp: block_post_def elim!: returns_mono)

lemma skip_bad_block_post:
  assumes ctx: "op_ctx Q A lo hi ni" and r: "lo \<le> unat ba" "unat ba < hi" and g: "good_at ni ba"
  shows "returns (skip_bad_block ni ba) (\<lambda>ni'. block_post Q lo hi ba ni (False, ni'))"
proof -
  have "returns (nmbm_mark_phys_bad_block ni ba) (\<lambda>(ret, ni'). dev_step Q ni ni')"
    by (rule nmbm_mark_phys_bad_block_returns [OF op_ctxD(1,3,5) [OF ctx]]) (use r in auto)
  then obtain x ni1 where m: "nmbm_mark_phys_bad_block ni ba = Some (x, ni1)" and d: "dev_step Q ni ni1"
    by (auto simp: returns_iff)
  have "returns (nmbm_set_block_state ni1 ba BLOCK_ST_BAD)
      (\<lambda>(c, ni'). block_post Q lo hi ba ni1 (False, ni'))"
    by (rule set_bad_post [OF dev_step_op_ctx [OF d ctx] r]) (use g in \<open>simp add: dev_step_fields [OF d]\<close>)
  then show ?thesis
    by (auto simp: skip_bad_block_def m returns_simps intro: block_post_dev_trans [OF d]
        elim!: returns_mono)
qed

lemma try_block_post:
  assumes ctx: "op_ctx Q A lo hi ni" and r: "lo \<le> unat ba" "unat ba < hi"
    and act: "\<And>ni1. dev_step Q ni ni1 \<Longrightarrow> returns (act ni1) (\<lambda>(ok, ni'). dev_step Q ni1 ni')"
  shows "returns
     (do {
        st \<leftarrow> nmbm_get_block_state ni ba;
        if st \<noteq> BLOCK_ST_GOOD then Some (False, ni)
        else do {
          (bad, ni) \<leftarrow> nmbm_check_bad_phys_block ni ba;
          if bad then do { (_, ni) \<leftarrow> nmbm_set_block_state ni ba BLOCK_ST_BAD; Some (False, ni) }
          else do {
            (success, ni) \<leftarrow> act ni;
            if success then Some (True, ni)
            else do { ni \<leftarrow> skip_bad_block ni ba; Some (False, ni) }
          }
        }
      }) (block_post Q lo hi ba ni)"
proof (cases "good_at ni ba")
  case False
  then show ?thesis using op_ctxD(6) [OF ctx r(2)] by (simp add: returns_simps block_post_def)
next
  case g: True
  from nmbm_check_bad_phys_block_returns [OF op_ctxD(1,3) [OF ctx], of ba]
  obtain bad ni1 where c: "nmbm_check_bad_phys_block ni ba = Some (bad, ni1)" and d: "dev_step Q ni ni1"
    by (auto simp: returns_iff)
  from act [OF d] obtain ok ni2 where a: "act ni1 = Some (ok, ni2)" and d2: "dev_step Q ni ni2"
    using dev_step_trans [OF d] by (auto simp: returns_iff)
  have g12: "good_at ni1 ba" "good_at ni2 ba" using g by (simp_all add: dev_step_fields [OF d] dev_step_fields [OF d2])
  note set = set_bad_post [OF dev_step_op_ctx [OF d ctx] r g12(1)]
  note skip = skip_bad_block_post [OF dev_step_op_ctx [OF d2 ctx] r g12(2)]
  show ?thesis
    using g g12 op_ctxD(6) [OF ctx r(2)] set skip dev_step_tab_step [OF d2]
    by (auto simp: returns_simps c a block_post_def elim!: returns_mono
        intro: tab_step_trans [OF dev_step_tab_step [OF d]] tab_step_trans [OF dev_step_tab_step [OF d2]])
qed

lemma erase_in_ctx:
  assumes "op_ctx Q A lo hi ni" and "lo \<le> unat ba" and "unat ba < hi"
  shows "returns (nmbm_erase_block_and_check ni ba) (\<lambda>(ok, ni'). dev_step Q ni ni')"
  using nmbm_erase_block_and_check_returns [OF op_ctxD(1,3) [OF assms(1)] op_ctxD(5) [OF assms]]
  by (auto elim!: returns_mono)

lemma erase_range_block_post:
  assumes ctx: "op_ctx Q A lo hi ni" and r: "lo \<le> unat ba" "unat ba < hi"
  shows "returns (erase_range_block ni ba) (tab_step Q lo hi ni)"
proof -
  have eq: "erase_range_block ni ba = map_option snd
     (do {
        st \<leftarrow> nmbm_get_block_state ni ba;
        if st \<noteq> BLOCK_ST_GOOD then Some (False, ni)
        else do {
          (bad, ni) \<leftarrow> nmbm_check_bad_phys_block ni ba;
          if bad then do { (_, ni) \<leftarrow> nmbm_set_block_state ni ba BLOCK_ST_BAD; Some (False, ni) }
          else do {
            (success, ni) \<leftarrow> nmbm_erase_block_and_check ni ba;
            if success then Some (True, ni)
            else do { ni \<leftarrow> skip_bad_block ni ba; Some (False, ni) }
          }
        }
      })"
    by (simp add: erase_range_block_def split: Option.bind_split prod.split)
  have "returns (nmbm_erase_block_and_check ni1 ba) (\<lambda>(ok, ni'). dev_step Q ni1 ni')"
    if d: "dev_step Q ni ni1" for ni1
    by (rule erase_in_ctx [OF dev_step_op_ctx [OF d ctx] r])
  from try_block_post [OF ctx r this] show ?thesis
    unfolding eq by (auto simp: returns_iff block_post_def)
qed

lemma write_signature_block_post:
  assumes ctx: "op_ctx Q A lo hi ni" and r: "lo \<le> unat ba" "unat ba < hi"
  shows "returns (write_signature_block ni ba sig) (block_post Q lo hi ba ni)"
proof -
  let ?act = "\<lambda>ni. nmbm_erase_block_and_check ni ba \<bind>
    (\<lambda>(ok, ni). if ok then nmbm_write_repeated_data ni ba sig else Some (False, ni))"
  have "returns (?act ni1) (\<lambda>(ok, ni'). dev_step Q ni1 ni')" if d: "dev_step Q ni ni1" for ni1
  proof -
    note ctx1 = dev_step_op_ctx [OF d ctx]
    from erase_in_ctx [OF ctx1 r]
    obtain ok ni2 where e: "nmbm_erase_block_and_check ni1 ba = Some (ok, ni2)" and d2: "dev_step Q ni1 ni2"
      by (auto simp: returns_iff)
    note ctx2 = dev_step_op_ctx [OF d2 ctx1]
    from nmbm_write_repeated_data_returns [OF op_ctxD(1,3) [OF ctx2] op_ctxD(5) [OF ctx2 r], of sig]
    show ?thesis using d2 by (auto simp: e returns_simps intro: dev_step_trans elim!: returns_mono)
  qed
  from try_block_post [OF ctx r this] show ?thesis
    unfolding write_signature_block_def by (simp add: returns_simps split_def cong: if_cong)
qed

lemma write_mgmt_block_post:
  assumes ctx: "op_ctx Q A lo hi ni" and r: "lo \<le> unat ba" "unat ba < hi"
    and len: "pos + unat n \<le> length data" "n \<le> erasesize (lower ni)"
  shows "returns (write_mgmt_block ni ba data pos n) (block_post Q lo hi ba ni)"
proof -
  let ?act = "\<lambda>ni. nmbm_erase_block_and_check ni ba \<bind>
    (\<lambda>(ok, ni). if ok then nmbn_write_verify_data ni (ba2addr ni ba) data pos n else Some (False, ni))"
  have "returns (?act ni1) (\<lambda>(ok, ni'). dev_step Q ni1 ni')" if d: "dev_step Q ni ni1" for ni1
  proof -
    note ctx1 = dev_step_op_ctx [OF d ctx]
    from erase_in_ctx [OF ctx1 r]
    obtain ok ni2 where e: "nmbm_erase_block_and_check ni1 ba = Some (ok, ni2)" and d2: "dev_step Q ni1 ni2"
      by (auto simp: returns_iff)
    note ctx2 = dev_step_op_ctx [OF d2 ctx1]
    have "n \<le> erasesize (lower ni2)" using len(2) by (simp add: dev_step_fields [OF d] dev_step_fields [OF d2])
    from nmbn_write_verify_data_returns [OF op_ctxD(1-3) [OF ctx2] op_ctxD(5) [OF ctx2 r] len(1) this]
    show ?thesis using d2 by (auto simp: e returns_simps intro: dev_step_trans elim!: returns_mono)
  qed
  from try_block_post [OF ctx r this] show ?thesis
    unfolding write_mgmt_block_def by (simp add: returns_simps split_def cong: if_cong)
qed

section \<open>Contracts of the range operations\<close>

lemma nmbm_erase_range_returns:
  "op_ctx Q A lo hi ni \<Longrightarrow> lo \<le> unat ba \<Longrightarrow> unat limit \<le> hi \<Longrightarrow>
   returns (nmbm_erase_range ni ba limit) (tab_step Q lo hi ni)"
proof (induction ni ba limit rule: nmbm_erase_range.induct)
  case (1 ni ba limit)
  show ?case
  proof (cases "ba < limit")
    case True
    then have r: "unat ba < hi" using "1.prems" by (simp add: word_less_nat_alt)
    from erase_range_block_post [OF "1.prems"(1,2) r]
    obtain ni1 where e: "erase_range_block ni ba = Some ni1" and t: "tab_step Q lo hi ni ni1"
      by (auto simp: returns_iff)
    have "returns (nmbm_erase_range ni1 (ba + 1) limit) (tab_step Q lo hi ni1)"
      using "1.prems" True by (intro "1.IH" [OF True]) (auto simp: tab_step_op_ctx [OF t] e)
    then show ?thesis
      using True by (subst nmbm_erase_range.simps)
        (auto simp: returns_simps e intro: tab_step_trans [OF t] elim!: returns_mono)
  next
    case False
    then show ?thesis by (subst nmbm_erase_range.simps) simp
  qed
qed

text \<open>
  Writing a signature goes down from the last block of the chip to the first block that takes
  it. It fails only when no good block above \<open>limit\<close> is left.
\<close>

lemma write_signature_loop_returns:
  "op_ctx Q A lo hi ni \<Longrightarrow> lo \<le> Suc (unat limit) \<Longrightarrow> unat ba < hi \<Longrightarrow>
   returns (write_signature_loop ni ba limit sig) (\<lambda>(found, ni'). tab_step Q lo hi ni ni' \<and>
     (case found of
        Some s \<Rightarrow> limit < s \<and> s \<le> ba \<and> good_at ni' s \<and> (\<forall>b. s < b \<and> b \<le> ba \<longrightarrow> \<not> good_at ni' b)
      | None \<Rightarrow> \<forall>b. limit < b \<and> b \<le> ba \<longrightarrow> \<not> good_at ni' b))"
proof (induction ni ba limit sig rule: write_signature_loop.induct)
  case (1 ni ba limit sig)
  show ?case
  proof (cases "ba > limit")
    case True
    then have r: "lo \<le> unat ba" using "1.prems"(2) by (simp add: word_less_nat_alt)
    from write_signature_block_post [OF "1.prems"(1) r "1.prems"(3), of sig]
    obtain ok ni1 where w: "write_signature_block ni ba sig = Some (ok, ni1)"
      and t: "tab_step Q lo hi ni ni1" and ok: "ok \<longleftrightarrow> good_at ni1 ba"
      by (auto simp: returns_iff block_post_def)
    show ?thesis
    proof (cases ok)
      case True
      with \<open>ba > limit\<close> w t ok show ?thesis
        by (subst write_signature_loop.simps) (auto simp: returns_simps)
    next
      case False
      have u: "unat (ba - 1) = unat ba - 1" using True by unat_arith
      have le: "b \<le> ba - 1 \<or> b = ba" if "b \<le> ba" for b using that True by unat_arith
      have le': "ba - 1 \<le> ba" using True by unat_arith
      have "returns (write_signature_loop ni1 (ba - 1) limit sig) (\<lambda>(found, ni'). tab_step Q lo hi ni1 ni' \<and>
         (case found of
            Some s \<Rightarrow> limit < s \<and> s \<le> ba - 1 \<and> good_at ni' s \<and> (\<forall>b. s < b \<and> b \<le> ba - 1 \<longrightarrow> \<not> good_at ni' b)
          | None \<Rightarrow> \<forall>b. limit < b \<and> b \<le> ba - 1 \<longrightarrow> \<not> good_at ni' b))"
        using "1.prems" u False
        by (intro "1.IH" [OF True w refl]) (auto simp: tab_step_op_ctx [OF t])
      moreover have "\<not> good_at ni2 ba" if "tab_step Q lo hi ni1 ni2" for ni2
        using degrades_good [OF tab_step_degrades [OF that], of "unat ba"] ok False
          op_ctxD(6) [OF tab_step_op_ctx [OF t "1.prems"(1)] "1.prems"(3)] by auto
      ultimately show ?thesis
        using True False w
        by (subst write_signature_loop.simps)
          (auto simp: returns_simps split: option.splits intro: tab_step_trans [OF t] order_trans [OF _ le']
            dest!: le elim!: returns_mono)
    qed
  next
    case False
    then show ?thesis by (subst write_signature_loop.simps) auto
  qed
qed

text \<open>
  Writing a management table goes up from \<open>ba\<close>. In the final state the table lies in the good
  blocks from \<open>ba\<close> on, one block-sized chunk in each: \<open>k\<close> counts them.
\<close>

definition mgmt_post ::
  "('d \<Rightarrow> bool) \<Rightarrow> nat \<Rightarrow> 'd nmbm_instance \<Rightarrow> u32 \<Rightarrow> u32 \<Rightarrow> u32 \<Rightarrow> u32 \<Rightarrow> u32 option
     \<Rightarrow> u32 \<times> u32 option \<times> u32 \<times> 'd nmbm_instance \<Rightarrow> bool" where
  "mgmt_post Q hi ni ba limit sz rem start = (\<lambda>(rem', start', ba', ni').
     let es = unat (erasesize (lower ni));
         used = good_blocks (block_state ni') (unat ba) (unat ba');
         k = length used
     in tab_step Q (unat ba) hi ni ni' \<and> ba \<le> ba' \<and> ba' \<le> max ba limit \<and>
        unat rem' = unat rem - k * es \<and>
        (k \<noteq> 0 \<longrightarrow> (k - 1) * es < unat rem) \<and>
        (rem' \<noteq> 0 \<longrightarrow> limit \<le> ba') \<and> (rem = 0 \<longrightarrow> ba' = ba) \<and>
        (rem' = 0 \<and> rem \<noteq> 0 \<longrightarrow> k \<noteq> 0 \<and> Suc (last used) = unat ba') \<and>
        start' = (if k \<noteq> 0 \<and> rem = sz then Some (of_nat (hd used)) else start))"

lemma tab_step_outside:
  assumes "tab_step Q lo hi ni ni'" and "i < 16 * length (block_state ni)" and "i < lo \<or> hi \<le> i"
  shows "st_of (block_state ni') i = st_of (block_state ni) i"
  using tab_step_degrades [OF assms(1)] assms(2,3) by (auto simp: degrades_def)

lemma mgmt_post_skip:
  assumes t: "tab_step Q (unat ba) hi ni ni1" and lt: "ba < limit" and r: "unat ba < 16 * length (block_state ni)"
    and bad: "\<not> good_at ni1 ba" and rem: "rem \<noteq> 0"
    and post: "mgmt_post Q hi ni1 (ba + 1) limit sz rem start r"
  shows "mgmt_post Q hi ni ba limit sz rem start r"
proof -
  obtain rem' start' ba' ni' where res: "r = (rem', start', ba', ni')" by (cases r)
  note s = unat_Suc_less [OF lt]
  from lt s have b: "ba + 1 \<le> limit" "ba \<le> ba + 1" by (simp_all add: word_le_nat_alt word_less_nat_alt)
  from post have t2: "tab_step Q (Suc (unat ba)) hi ni1 ni'" and ba': "ba + 1 \<le> ba'"
    by (auto simp: mgmt_post_def res Let_def s)
  have "\<not> good_at ni' ba"
    using bad tab_step_outside [OF t2, of "unat ba"] r by (simp add: tab_step_fields [OF t])
  then have "good_blocks (block_state ni') (unat ba) (unat ba') = good_blocks (block_state ni') (Suc (unat ba)) (unat ba')"
    using ba' s by (subst good_blocks_rec) (auto simp: word_le_nat_alt)
  moreover have "tab_step Q (unat ba) hi ni ni'"
    by (rule tab_step_trans [OF t tab_step_widen [OF t2]]) simp_all
  ultimately show ?thesis
    using post b lt rem by (auto simp: mgmt_post_def res Let_def s tab_step_fields [OF t] max_def)
qed

lemma mgmt_post_used:
  assumes t: "tab_step Q (unat ba) hi ni ni1" and lt: "ba < limit" and r: "unat ba < 16 * length (block_state ni)"
    and good: "good_at ni1 ba" and rem: "rem \<noteq> 0" "unat rem \<le> unat sz"
    and es: "0 < erasesize (lower ni)"
    and c: "c = (if rem > erasesize (lower ni) then erasesize (lower ni) else rem)"
    and post: "mgmt_post Q hi ni1 (ba + 1) limit sz (rem - c) (if rem = sz then Some ba else start) r"
  shows "mgmt_post Q hi ni ba limit sz rem start r"
proof -
  obtain rem' start' ba' ni' where res: "r = (rem', start', ba', ni')" by (cases r)
  note s = unat_Suc_less [OF lt]
  from lt s have b: "ba + 1 \<le> limit" "ba \<le> ba + 1" by (simp_all add: word_le_nat_alt word_less_nat_alt)
  from post have t2: "tab_step Q (Suc (unat ba)) hi ni1 ni'" and ba': "ba + 1 \<le> ba'"
    by (auto simp: mgmt_post_def res Let_def s)
  have "good_at ni' ba"
    using good tab_step_outside [OF t2, of "unat ba"] r by (simp add: tab_step_fields [OF t])
  then have u: "good_blocks (block_state ni') (unat ba) (unat ba') =
      unat ba # good_blocks (block_state ni') (Suc (unat ba)) (unat ba')"
    using ba' s by (subst good_blocks_rec) (auto simp: word_le_nat_alt)
  have tt: "tab_step Q (unat ba) hi ni ni'"
    by (rule tab_step_trans [OF t tab_step_widen [OF t2]]) simp_all
  have "unat c = min (unat rem) (unat (erasesize (lower ni)))"
    by (auto simp: c word_less_nat_alt)
  moreover have "c \<le> rem" by (auto simp: c)
  then have "unat (rem - c) = unat rem - unat c" by (rule unat_sub)
  ultimately have sub: "unat (rem - c) = unat rem - unat (erasesize (lower ni))" by simp
  have "unat (rem - c) < unat rem" using rem(1) es sub by (simp add: word_less_nat_alt unat_gt_0)
  then have ne: "rem - c \<noteq> sz" using rem(2) by auto
  let ?es = "unat (erasesize (lower ni))" and ?u = "good_blocks (block_state ni') (Suc (unat ba)) (unat ba')"
  have P: "ba' \<le> limit" "unat rem' = unat rem - ?es - length ?u * ?es"
      "?u \<noteq> [] \<longrightarrow> (length ?u - 1) * ?es < unat rem - ?es"
      "rem' \<noteq> 0 \<longrightarrow> limit \<le> ba'" "rem - c = 0 \<longrightarrow> ba' = ba + 1"
      "rem' = 0 \<and> rem - c \<noteq> 0 \<longrightarrow> ?u \<noteq> [] \<and> Suc (last ?u) = unat ba'"
      "start' = (if rem = sz then Some ba else start)"
    using post b ne by (auto simp: mgmt_post_def res Let_def s tab_step_fields [OF t] sub max_def)
  have "length ?u * ?es < unat rem"
    using P(3) rem(1) by (cases ?u) (auto simp: unat_gt_0)
  moreover have "Suc (last (unat ba # ?u)) = unat ba'" if "rem' = 0"
  proof (cases "rem - c = 0")
    case True
    with P(5) s show ?thesis by simp
  next
    case False
    with P(6) that show ?thesis by simp
  qed
  ultimately show ?thesis
    using P(1,2,4,7) rem(1) less_imp_le [OF lt] order_trans [OF b(2) ba']
    by (simp add: mgmt_post_def res Let_def s u tt max_def)
qed

lemma write_mgmt_loop_returns:
  "op_ctx Q A lo hi ni \<Longrightarrow> lo \<le> unat ba \<Longrightarrow> unat limit \<le> hi \<Longrightarrow>
   pos + unat rem \<le> length data \<Longrightarrow> unat rem \<le> unat sz \<Longrightarrow>
   returns (write_mgmt_loop ni ba limit data pos sz rem start) (mgmt_post Q hi ni ba limit sz rem start)"
proof (induction ni ba limit data pos sz rem start rule: write_mgmt_loop.induct)
  case (1 ni ba limit data pos sz rem start)
  show ?case
  proof (cases "rem \<noteq> 0 \<and> ba < limit")
    case True
    define c where "c = (if rem > erasesize (lower ni) then erasesize (lower ni) else rem)"
    have cle: "c \<le> rem" "c \<le> erasesize (lower ni)" by (auto simp: c_def)
    then have sub: "unat (rem - c) = unat rem - unat c" and cn: "unat c \<le> unat rem"
      by (auto simp: unat_sub word_le_nat_alt)
    from True "1.prems" have r: "unat ba < hi" by (simp add: word_less_nat_alt)
    note r16 = op_ctxD(6) [OF "1.prems"(1) r]
    have es: "0 < erasesize (lower ni)"
      using op_ctxD(2) [OF "1.prems"(1)] by (auto simp: geom_wf_def word_less_nat_alt)
    have ctx: "op_ctx Q A (unat ba) hi ni" by (rule op_ctx_narrow [OF "1.prems"(1,2)]) simp
    from write_mgmt_block_post [OF ctx order_refl r _ cle(2), of pos data] "1.prems"(4) cn
    obtain ok ni1 where w: "write_mgmt_block ni ba data pos c = Some (ok, ni1)"
      and t: "tab_step Q (unat ba) hi ni ni1" and ok: "ok \<longleftrightarrow> good_at ni1 ba"
      by (auto simp: returns_iff block_post_def)
    note ctx1 = tab_step_op_ctx [OF t "1.prems"(1)]
    have lo: "lo \<le> unat (ba + 1)" using "1.prems"(2) unat_Suc_less [OF conjunct2 [OF True]] by simp
    note lt = conjunct2 [OF True] and rem = conjunct1 [OF True]
    have unfold: "write_mgmt_loop ni ba limit data pos sz rem start =
       (if ok then write_mgmt_loop ni1 (ba + 1) limit data (pos + unat c) sz (rem - c)
                     (if rem = sz then Some ba else start)
        else write_mgmt_loop ni1 (ba + 1) limit data pos sz rem start)"
      using True w by (subst write_mgmt_loop.simps) (simp add: c_def [symmetric])
    show ?thesis
    proof (cases ok)
      case True
      have "returns (write_mgmt_loop ni1 (ba + 1) limit data (pos + unat c) sz (rem - c)
              (if rem = sz then Some ba else start))
          (mgmt_post Q hi ni1 (ba + 1) limit sz (rem - c) (if rem = sz then Some ba else start))"
        by (rule "1.IH"(1) [OF \<open>rem \<noteq> 0 \<and> ba < limit\<close> c_def w refl True ctx1 lo])
          (use "1.prems" sub cn in simp_all)
      then show ?thesis
        unfolding unfold if_P [OF True]
        by (rule returns_mono) (rule mgmt_post_used [OF t lt r16 ok [THEN iffD1, OF True] rem "1.prems"(5) es c_def])
    next
      case False
      have "returns (write_mgmt_loop ni1 (ba + 1) limit data pos sz rem start)
          (mgmt_post Q hi ni1 (ba + 1) limit sz rem start)"
        by (rule "1.IH"(2) [OF \<open>rem \<noteq> 0 \<and> ba < limit\<close> c_def w refl False ctx1 lo "1.prems"(3-5)])
      then show ?thesis
        unfolding unfold if_not_P [OF False]
        by (rule returns_mono) (rule mgmt_post_skip [OF t lt r16 _ rem], use ok False in simp)
    qed
  next
    case False
    then show ?thesis
      by (subst write_mgmt_loop.simps) (auto simp: mgmt_post_def Let_def)
  qed
qed

text \<open>
  The contract of \<open>nmbm_write_mgmt_range\<close>. On success the table fills the good blocks of
  \<open>[start, end)\<close>, as many as its size needs, the first and the last block of the range among
  them. On failure fewer good blocks than that are left below \<open>limit\<close>.
\<close>

definition mgmt_range_post ::
  "('d \<Rightarrow> bool) \<Rightarrow> nat \<Rightarrow> 'd nmbm_instance \<Rightarrow> u32 \<Rightarrow> u32 \<Rightarrow> u32
     \<Rightarrow> (u32 \<times> u32) option \<times> 'd nmbm_instance \<Rightarrow> bool" where
  "mgmt_range_post Q hi ni ba limit sz = (\<lambda>(res, ni'). tab_step Q (unat ba) hi ni ni' \<and>
     (let es = unat (erasesize (lower ni)) in
      case res of
        Some (s, e) \<Rightarrow> ba \<le> s \<and> s < e \<and> e \<le> limit \<and> good_at ni' s \<and> good_at ni' (e - 1) \<and>
          (\<forall>b. ba \<le> b \<and> b < s \<longrightarrow> \<not> good_at ni' b) \<and>
          length (good_blocks (block_state ni') (unat s) (unat e)) = (unat sz + es - 1) div es
      | None \<Rightarrow> length (good_blocks (block_state ni') (unat ba) (unat limit)) * es < unat sz))"

lemma ceil_div_eq:
  assumes "(k - 1) * m < n" and "n \<le> k * m" and "0 < n"
  shows "(n + m - 1) div m = (k :: nat)"
proof -
  have "0 < k" using assms by (cases k) auto
  then have m: "k * m = (k - 1) * m + m" by (cases k) auto
  show ?thesis
    by (rule div_nat_eqI) (use assms m in \<open>auto simp: mult.commute\<close>)
qed

lemma good_blocks_Cons:
  assumes "good_blocks bs lo hi = b # rest"
  shows "lo \<le> b" and "b < hi" and "st_of bs b = BLOCK_ST_GOOD"
    and "\<And>i. lo \<le> i \<Longrightarrow> i < b \<Longrightarrow> st_of bs i \<noteq> BLOCK_ST_GOOD"
    and "good_blocks bs b hi = b # rest"
proof -
  from assms have b: "b \<in> set (good_blocks bs lo hi)" by simp
  then show c: "lo \<le> b" "b < hi" "st_of bs b = BLOCK_ST_GOOD" by (auto simp: good_blocks_def)
  have srt: "sorted (good_blocks bs lo hi)" by simp
  show none: "st_of bs i \<noteq> BLOCK_ST_GOOD" if "lo \<le> i" "i < b" for i
  proof
    assume "st_of bs i = BLOCK_ST_GOOD"
    then have "i \<in> set (b # rest)" using that c unfolding assms [symmetric] by (auto simp: good_blocks_def)
    with srt that show False unfolding assms by auto
  qed
  have "[lo..<hi] = [lo..<b] @ [b..<hi]" using c by (metis le_add_diff_inverse less_imp_le upt_add_eq_append)
  moreover have "filter (\<lambda>i. st_of bs i = BLOCK_ST_GOOD) [lo..<b] = []"
    using none by (auto simp: filter_empty_conv)
  ultimately show "good_blocks bs b hi = b # rest" using assms by (simp add: good_blocks_def)
qed

lemma nmbm_write_mgmt_range_returns:
  assumes ctx: "op_ctx Q A lo hi ni" and r: "lo \<le> unat ba" "unat limit \<le> hi" "ba \<le> limit"
    and len: "unat sz \<le> length data" "sz \<noteq> 0"
  shows "returns (nmbm_write_mgmt_range ni ba limit data sz) (mgmt_range_post Q hi ni ba limit sz)"
proof -
  let ?es = "unat (erasesize (lower ni))"
  from write_mgmt_loop_returns [OF ctx r(1,2), of 0 sz data sz None] len
  obtain rem start e ni' where w: "write_mgmt_loop ni ba limit data 0 sz sz None = Some (rem, start, e, ni')"
    and post: "mgmt_post Q hi ni ba limit sz sz None (rem, start, e, ni')"
    by (auto simp: returns_iff)
  let ?u = "good_blocks (block_state ni') (unat ba) (unat e)"
  have P: "tab_step Q (unat ba) hi ni ni'" "e \<le> limit" "unat rem = unat sz - length ?u * ?es"
      "?u \<noteq> [] \<longrightarrow> (length ?u - 1) * ?es < unat sz" "rem \<noteq> 0 \<longrightarrow> limit \<le> e"
      "rem = 0 \<longrightarrow> ?u \<noteq> [] \<and> Suc (last ?u) = unat e"
      "start = (if ?u \<noteq> [] then Some (of_nat (hd ?u)) else None)"
    using post r(3) len(2) by (auto simp: mgmt_post_def Let_def max_def)
  show ?thesis
  proof (cases "rem = 0")
    case False
    with P have "e = limit" by auto
    with False P(1,3) w show ?thesis
      by (auto simp: nmbm_write_mgmt_range_def mgmt_range_post_def Let_def word_unat_eq_iff)
  next
    case True
    with P(6) obtain b rest where u: "?u = b # rest" by (cases ?u) auto
    note gb = good_blocks_Cons [OF u]
    have ub: "unat (of_nat b :: u32) = b"
      by (rule unat_of_nat_small) (use gb(2) unat_u32_less [of e] in simp)
    have last: "Suc (last ?u) = unat e" using True P(6) by simp
    then have e1: "unat (e - 1) = last ?u" by (metis diff_Suc_1 unat_minus_one unat_0 nat.distinct(1))
    have "last ?u \<in> set ?u" using u by simp
    then have "good_at ni' (e - 1)" by (simp add: e1 good_blocks_def)
    moreover have "length (b # rest) = (unat sz + ?es - 1) div ?es"
      by (rule ceil_div_eq [symmetric]) (use P(3,4) u True len(2) in \<open>auto simp: unat_gt_0\<close>)
    ultimately show ?thesis
      using w True P(1,2,7) gb ub u
      by (auto simp: nmbm_write_mgmt_range_def mgmt_range_post_def Let_def word_le_nat_alt word_less_nat_alt)
  qed
qed

lemma nmbm_write_signature_returns:
  assumes ctx: "op_ctx Q A lo hi ni" and r: "lo \<le> Suc (unat limit)" "unat (block_count ni) \<le> hi"
    and "0 < block_count ni"
  shows "returns (nmbm_write_signature ni limit sig) (\<lambda>(found, ni'). tab_step Q lo hi ni ni' \<and>
     (case found of
        Some s \<Rightarrow> limit < s \<and> s < block_count ni \<and> good_at ni' s \<and>
          (\<forall>b. s < b \<and> b < block_count ni \<longrightarrow> \<not> good_at ni' b)
      | None \<Rightarrow> \<forall>b. limit < b \<and> b < block_count ni \<longrightarrow> \<not> good_at ni' b))"
proof -
  have "unat (block_count ni - 1) = unat (block_count ni) - 1"
    using assms(4) by (intro unat_minus_one) auto
  then have le: "b \<le> block_count ni - 1 \<longleftrightarrow> b < block_count ni" for b
    using assms(4) by (auto simp: word_le_nat_alt word_less_nat_alt)
  have "unat (block_count ni - 1) < hi"
    using r(2) assms(4) by (metis le less_le_trans order_refl word_less_nat_alt)
  from write_signature_loop_returns [OF ctx r(1) this, of "sig_bytes sig"] show ?thesis
    unfolding nmbm_write_signature_def le .
qed

end
