(* ===== verification/Nmbm_Table.thy ===== *)
theory Nmbm_Table
  imports Nmbm_Write
begin

text \<open>
  The info tables (\<open>nmbm-core.c\<close>, lines 1005 to 1585): how the block state and mapping tables
  are serialised, how the main and the backup copy are written into the management area,
  rebuilt and rescued when blocks fail, and the loop \<open>nmbm_update_info_table\<close>.

  The contracts at the end show that an update returns whatever the chip does: each round that
  leaves something to write has retired at least one good block. They also bound where it
  writes, and keep the order of the two tables inside the management area.
\<close>

section \<open>Operations\<close>

definition nmbm_generate_info_table_cache ::
  "crc_fn \<Rightarrow> 'd nmbm_instance \<Rightarrow> (bool \<times> 'd nmbm_instance) option" where
  "nmbm_generate_info_table_cache crc ni =
     do {
       c \<leftarrow> mem_write (info_table_cache ni) 0 (replicate (unat (info_table_size ni)) 0xff);
       st \<leftarrow> mem_read (words_bytes (block_state ni)) 0 (unat (state_table_size ni));
       c \<leftarrow> mem_write c (unat (state_table_off (info_table ni))) st;
       mp \<leftarrow> mem_read (words_bytes (block_mapping ni)) 0 (unat (mapping_table_size ni));
       c \<leftarrow> mem_write c (unat (mapping_table_off (info_table ni))) mp;
       let it = (info_table ni)\<lparr>ith_header := (ith_header (info_table ni))
                  \<lparr>magic := NMBM_MAGIC_INFO_TABLE, version := NMBM_VER,
                   hdr_size := info_table_size ni\<rparr>\<rparr>;
       let changed = (block_state_changed ni \<noteq> 0 \<or> block_mapping_changed ni \<noteq> 0);
       let it = (if changed then it\<lparr>write_count := write_count it + 1\<rparr> else it);
       c \<leftarrow> mem_write c 0 (ith_bytes it);
       c \<leftarrow> nmbm_update_checksum crc c;
       Some (changed, ni\<lparr>info_table_cache := c, info_table := it\<rparr>)
     }"

definition nmbm_write_info_table ::
  "'d nmbm_instance \<Rightarrow> u32 \<Rightarrow> u32 \<Rightarrow> ((u32 \<times> u32) option \<times> 'd nmbm_instance) option" where
  "nmbm_write_info_table ni ba limit =
     nmbm_write_mgmt_range ni ba limit (info_table_cache ni) (info_table_size ni)"

definition nmbm_mark_tables_clean :: "'d nmbm_instance \<Rightarrow> 'd nmbm_instance" where
  "nmbm_mark_tables_clean ni = ni\<lparr>block_state_changed := 0, block_mapping_changed := 0\<rparr>"

text \<open>\<open>nblocks\<close> is the \<open>int32_t\<close> counter; it does not go below \<open>min_count - 1\<close>.\<close>

function reserve_loop ::
  "'d nmbm_instance \<Rightarrow> u32 \<Rightarrow> int \<Rightarrow> int \<Rightarrow> u32 \<Rightarrow> u32 option option" where
  "reserve_loop ni ba nblocks min_count limit =
     (if nblocks \<ge> min_count then
        do {
          res \<leftarrow> nmbm_block_walk ni True ba (of_int nblocks) limit;
          if res \<noteq> None then Some res
          else reserve_loop ni ba (nblocks - 1) min_count limit
        }
      else Some None)"
  by pat_completeness auto
termination
  by (relation "measure (\<lambda>(ni, ba, nblocks, min_count, limit). nat (nblocks - min_count + 1))") auto

declare reserve_loop.simps [simp del]

definition nmbm_try_reserve_blocks ::
  "'d nmbm_instance \<Rightarrow> u32 \<Rightarrow> u32 \<Rightarrow> int \<Rightarrow> u32 \<Rightarrow> u32 option option" where
  "nmbm_try_reserve_blocks ni ba count min_count limit = reserve_loop ni ba (sint count) min_count limit"

definition info_table_blocks :: "'d nmbm_instance \<Rightarrow> u32" where
  "info_table_blocks ni = size2blk ni (ucast (info_table_size ni))"

text \<open>The part of \<open>nmbm_rebuild_info_table\<close> after the main table is written.\<close>

definition rebuild_backup ::
  "'d nmbm_instance \<Rightarrow> u32 \<Rightarrow> (bool \<times> 'd nmbm_instance) option" where
  "rebuild_backup ni main_table_end_ba =
     do {
       next_start_ba \<leftarrow> nmbm_try_reserve_blocks ni main_table_end_ba (info_table_spare_blocks ni) 0
                         (mapping_blocks_top_ba ni - info_table_blocks ni);
       case next_start_ba of
         None \<Rightarrow> Some (True, ni)
       | Some next_start_ba \<Rightarrow>
           do {
             (res, ni) \<leftarrow> nmbm_write_info_table ni next_start_ba (mapping_blocks_top_ba ni);
             case res of
               None \<Rightarrow> Some (True, ni)
             | Some (table_start_ba, table_end_ba) \<Rightarrow>
                 do {
                   let ni = ni\<lparr>backup_table_ba := table_start_ba, mapping_blocks_ba := table_end_ba\<rparr>;
                   ni \<leftarrow> nmbm_erase_range ni main_table_end_ba (backup_table_ba ni);
                   Some (True, ni)
                 }
           }
     }"

definition nmbm_rebuild_info_table :: "'d nmbm_instance \<Rightarrow> (bool \<times> 'd nmbm_instance) option" where
  "nmbm_rebuild_info_table ni =
     do {
       let ni = ni\<lparr>main_table_ba := 0, backup_table_ba := 0,
                   mapping_blocks_ba := mapping_blocks_top_ba ni\<rparr>;
       (res, ni) \<leftarrow> nmbm_write_info_table ni (mgmt_start_ba ni) (mapping_blocks_top_ba ni);
       case res of
         None \<Rightarrow> Some (False, ni\<lparr>protected := True\<rparr>)
       | Some (table_start_ba, table_end_ba) \<Rightarrow>
           rebuild_backup
             (nmbm_mark_tables_clean (ni\<lparr>main_table_ba := table_start_ba, mapping_blocks_ba := table_end_ba\<rparr>))
             table_end_ba
     }"

text \<open>
  The loops \<open>while (write_ba >= ni->mapping_blocks_ba)\<close> (and \<open>>= main_table_end_ba\<close>). With a
  lower bound of 0 they need not end. If they are not entered, C goes on with table addresses
  that were never stored.
\<close>

partial_function (option) write_table_down ::
  "'d nmbm_instance \<Rightarrow> u32 \<Rightarrow> u32 \<Rightarrow> ((u32 \<times> u32) option \<times> 'd nmbm_instance) option" where
  "write_table_down ni write_ba low =
     (if write_ba \<ge> low then
        do {
          (res, ni) \<leftarrow> nmbm_write_info_table ni write_ba (mapping_blocks_top_ba ni);
          if res \<noteq> None then Some (res, ni)
          else write_table_down ni (write_ba - 1) low
        }
      else Some (None, ni))"

definition write_table_from ::
  "'d nmbm_instance \<Rightarrow> u32 \<Rightarrow> u32 \<Rightarrow> ((u32 \<times> u32) option \<times> 'd nmbm_instance) option" where
  "write_table_from ni write_ba low =
     (if write_ba \<ge> low then write_table_down ni write_ba low else None)"

text \<open>
  The part of \<open>nmbm_rescue_single_info_table\<close> that tries the blocks behind the existing table.
\<close>

definition rescue_next_to :: "'d nmbm_instance \<Rightarrow> (bool \<times> 'd nmbm_instance) option" where
  "rescue_next_to ni =
     do {
       write_ba \<leftarrow> nmbm_try_reserve_blocks ni (mapping_blocks_ba ni) (info_table_spare_blocks ni) 0
                    (mapping_blocks_top_ba ni - info_table_blocks ni);
       case write_ba of
         None \<Rightarrow> Some (False, ni)
       | Some write_ba \<Rightarrow>
           do {
             (res, ni) \<leftarrow> write_table_from ni write_ba (mapping_blocks_ba ni);
             case res of
               None \<Rightarrow> Some (False, ni)
             | Some (table_start_ba, table_end_ba) \<Rightarrow>
                 do {
                   ni \<leftarrow> nmbm_erase_range ni (mapping_blocks_ba ni) table_start_ba;
                   Some (True, nmbm_mark_tables_clean
                     (ni\<lparr>backup_table_ba := table_start_ba, mapping_blocks_ba := table_end_ba\<rparr>))
                 }
           }
     }"

definition nmbm_rescue_single_info_table :: "'d nmbm_instance \<Rightarrow> (bool \<times> 'd nmbm_instance) option" where
  "nmbm_rescue_single_info_table ni =
     do {
       (res, ni) \<leftarrow> nmbm_write_info_table ni (mgmt_start_ba ni) (main_table_ba ni);
       case res of
         Some (table_start_ba, table_end_ba) \<Rightarrow>
           do {
             let ni = nmbm_mark_tables_clean
                        (ni\<lparr>backup_table_ba := main_table_ba ni, main_table_ba := table_start_ba\<rparr>);
             ni \<leftarrow> nmbm_erase_range ni table_end_ba (backup_table_ba ni);
             Some (True, ni)
           }
       | None \<Rightarrow> rescue_next_to ni
     }"

definition nmbm_update_single_info_table ::
  "'d nmbm_instance \<Rightarrow> bool \<Rightarrow> (bool \<times> 'd nmbm_instance) option" where
  "nmbm_update_single_info_table ni update_main_table =
     do {
       let (write_start_ba, write_limit) =
         (if update_main_table then (main_table_ba ni, backup_table_ba ni)
          else (backup_table_ba ni, mapping_blocks_top_ba ni));
       (res, ni) \<leftarrow> nmbm_write_info_table ni write_start_ba write_limit;
       case res of
         Some (table_start_ba, table_end_ba) \<Rightarrow>
           Some (True, nmbm_mark_tables_clean
             (if update_main_table then ni\<lparr>main_table_ba := table_start_ba\<rparr>
              else ni\<lparr>backup_table_ba := table_start_ba, mapping_blocks_ba := table_end_ba\<rparr>))
       | None \<Rightarrow>
           if update_main_table
           then nmbm_rescue_single_info_table
                  (ni\<lparr>main_table_ba := backup_table_ba ni, backup_table_ba := 0\<rparr>)
           else Some (False, ni\<lparr>mapping_blocks_ba := backup_table_ba ni, backup_table_ba := 0\<rparr>)
     }"

text \<open>\<open>nmbm_rescue_main_info_table\<close>: the part after the main table was overwritten.\<close>

definition rescue_new_backup ::
  "'d nmbm_instance \<Rightarrow> u32 \<Rightarrow> (bool \<times> 'd nmbm_instance) option" where
  "rescue_new_backup ni main_table_end_ba =
     do {
       let ni = ni\<lparr>mapping_blocks_ba := main_table_end_ba\<rparr>;
       write_ba \<leftarrow> nmbm_try_reserve_blocks ni main_table_end_ba (info_table_spare_blocks ni) 0
                    (mapping_blocks_top_ba ni - info_table_blocks ni);
       case write_ba of
         None \<Rightarrow> Some (True, ni\<lparr>backup_table_ba := 0\<rparr>)
       | Some write_ba \<Rightarrow>
           do {
             (res, ni) \<leftarrow> write_table_from ni write_ba main_table_end_ba;
             case res of
               None \<Rightarrow> Some (True, ni\<lparr>backup_table_ba := 0\<rparr>)
             | Some (tmp_table_start_ba, tmp_table_end_ba) \<Rightarrow>
                 do {
                   let ni = ni\<lparr>backup_table_ba := tmp_table_start_ba,
                               mapping_blocks_ba := tmp_table_end_ba\<rparr>;
                   ni \<leftarrow> nmbm_erase_range ni main_table_end_ba (backup_table_ba ni);
                   Some (True, ni)
                 }
           }
     }"

text \<open>The part of \<open>nmbm_rescue_main_info_table\<close> after the temporary table is written.\<close>

definition rescue_write_main ::
  "'d nmbm_instance \<Rightarrow> u32 \<Rightarrow> u32 \<Rightarrow> (bool \<times> 'd nmbm_instance) option" where
  "rescue_write_main ni tmp_table_start_ba tmp_table_end_ba =
     do {
       let ni = ni\<lparr>mapping_blocks_ba := tmp_table_end_ba\<rparr>;
       (res, ni) \<leftarrow> nmbm_write_info_table ni (mgmt_start_ba ni) tmp_table_start_ba;
       case res of
         None \<Rightarrow> Some (True, nmbm_mark_tables_clean
           (ni\<lparr>main_table_ba := tmp_table_start_ba, backup_table_ba := 0\<rparr>))
       | Some (main_table_start_ba, main_table_end_ba) \<Rightarrow>
           do {
             let ni = nmbm_mark_tables_clean (ni\<lparr>main_table_ba := main_table_start_ba\<rparr>);
             if main_table_end_ba \<le> tmp_table_start_ba
             then Some (True, ni\<lparr>backup_table_ba := tmp_table_start_ba\<rparr>)
             else rescue_new_backup ni main_table_end_ba
           }
     }"

definition nmbm_rescue_main_info_table :: "'d nmbm_instance \<Rightarrow> (bool \<times> 'd nmbm_instance) option" where
  "nmbm_rescue_main_info_table ni =
     do {
       write_ba \<leftarrow> nmbm_try_reserve_blocks ni (mapping_blocks_ba ni) (info_table_spare_blocks ni) 0
                    (mapping_blocks_top_ba ni - info_table_blocks ni);
       case write_ba of
         None \<Rightarrow> Some (True, ni\<lparr>main_table_ba := backup_table_ba ni, backup_table_ba := 0\<rparr>)
       | Some write_ba \<Rightarrow>
           do {
             (res, ni) \<leftarrow> write_table_from ni write_ba (mapping_blocks_ba ni);
             case res of
               None \<Rightarrow> Some (True, ni\<lparr>main_table_ba := backup_table_ba ni, backup_table_ba := 0\<rparr>)
             | Some (tmp_table_start_ba, tmp_table_end_ba) \<Rightarrow>
                 rescue_write_main ni tmp_table_start_ba tmp_table_end_ba
           }
     }"

text \<open>\<open>nmbm_update_info_table_once\<close> from the label \<open>write_main_table\<close> on.\<close>

definition write_main_table ::
  "'d nmbm_instance \<Rightarrow> u32 \<Rightarrow> (bool \<times> 'd nmbm_instance) option" where
  "write_main_table ni main_table_limit =
     (if main_table_ba ni = 0 then nmbm_rebuild_info_table ni
      else do {
        (res, ni) \<leftarrow> nmbm_write_info_table ni (main_table_ba ni) main_table_limit;
        case res of
          None \<Rightarrow> if backup_table_ba ni = 0 then nmbm_rebuild_info_table ni
                  else nmbm_rescue_main_info_table ni
        | Some (table_start_ba, table_end_ba) \<Rightarrow>
            do {
              let ni = ni\<lparr>main_table_ba := table_start_ba\<rparr>;
              let ni = (if backup_table_ba ni = 0 then ni\<lparr>mapping_blocks_ba := table_end_ba\<rparr> else ni);
              Some (True, nmbm_mark_tables_clean ni)
            }
      })"

definition nmbm_update_info_table_once ::
  "crc_fn \<Rightarrow> 'd nmbm_instance \<Rightarrow> bool \<Rightarrow> (bool \<times> 'd nmbm_instance) option" where
  "nmbm_update_info_table_once crc ni force =
     do {
       (changed, ni) \<leftarrow> nmbm_generate_info_table_cache crc ni;
       if \<not> changed \<and> \<not> force then Some (True, ni)
       else if backup_table_ba ni = 0 then write_main_table ni (mapping_blocks_top_ba ni)
       else do {
         (res, ni) \<leftarrow> nmbm_write_info_table ni (backup_table_ba ni) (mapping_blocks_top_ba ni);
         case res of
           None \<Rightarrow>
             do {
               let ni = ni\<lparr>mapping_blocks_ba := backup_table_ba ni, backup_table_ba := 0\<rparr>;
               write_main_table ni (mapping_blocks_top_ba ni)
             }
         | Some (table_start_ba, table_end_ba) \<Rightarrow>
             do {
               let ni = nmbm_mark_tables_clean
                          (ni\<lparr>backup_table_ba := table_start_ba, mapping_blocks_ba := table_end_ba\<rparr>);
               write_main_table ni (backup_table_ba ni)
             }
       }
     }"

partial_function (option) update_loop ::
  "crc_fn \<Rightarrow> 'd nmbm_instance \<Rightarrow> (bool \<times> 'd nmbm_instance) option" where
  "update_loop crc ni =
     (if block_state_changed ni \<noteq> 0 \<or> block_mapping_changed ni \<noteq> 0 then
        do {
          (success, ni) \<leftarrow> nmbm_update_info_table_once crc ni False;
          if success then update_loop crc ni else Some (False, ni)
        }
      else Some (True, ni))"

definition nmbm_update_info_table ::
  "crc_fn \<Rightarrow> 'd nmbm_instance \<Rightarrow> (bool \<times> 'd nmbm_instance) option" where
  "nmbm_update_info_table crc ni = (if protected ni then Some (True, ni) else update_loop crc ni)"

section \<open>Well-formed tables\<close>

text \<open>
  The sizes \<open>nmbm_init_structure\<close> sets up: the two tables lie behind the header in the cache,
  without overlap, and the state table covers the chip.
\<close>

definition table_wf :: "'d nmbm_instance \<Rightarrow> bool" where
  "table_wf ni \<longleftrightarrow>
     length (info_table_cache ni) = unat (info_table_size ni) \<and>
     unat (state_table_size ni) = 4 * length (block_state ni) \<and>
     unat (mapping_table_size ni) = 4 * length (block_mapping ni) \<and>
     32 \<le> unat (state_table_off (info_table ni)) \<and>
     unat (state_table_off (info_table ni)) + unat (state_table_size ni)
       \<le> unat (mapping_table_off (info_table ni)) \<and>
     unat (mapping_table_off (info_table ni)) + unat (mapping_table_size ni) \<le> unat (info_table_size ni) \<and>
     0 < block_count ni \<and> unat (block_count ni) \<le> 16 * length (block_state ni) \<and>
     mapping_blocks_top_ba ni < block_count ni"

text \<open>
  The management area, from \<open>mgmt_start_ba\<close> up to \<open>mapping_blocks_top_ba\<close>: first the main table,
  then the backup table (each 0 if it does not exist), then from \<open>mapping_blocks_ba\<close> on the
  blocks still free for remapping.
\<close>

definition order_wf :: "'d nmbm_instance \<Rightarrow> bool" where
  "order_wf ni \<longleftrightarrow>
     0 < mgmt_start_ba ni \<and> mgmt_start_ba ni \<le> mapping_blocks_ba ni \<and>
     mapping_blocks_ba ni \<le> mapping_blocks_top_ba ni \<and>
     (main_table_ba ni \<noteq> 0 \<longrightarrow>
        mgmt_start_ba ni \<le> main_table_ba ni \<and> main_table_ba ni < mapping_blocks_ba ni) \<and>
     (backup_table_ba ni \<noteq> 0 \<longrightarrow>
        mgmt_start_ba ni \<le> backup_table_ba ni \<and> backup_table_ba ni < mapping_blocks_ba ni \<and>
        main_table_ba ni < backup_table_ba ni)"

text \<open>
  What the management of the tables may change of the instance: the chip and the page cache,
  block states of the management area (from good to bad), the two change counters, the
  positions of the tables, the protection flag and the serialised table.
\<close>

definition mg_restore :: "'d nmbm_instance \<Rightarrow> 'd nmbm_instance \<Rightarrow> 'd nmbm_instance" where
  "mg_restore ni r =
     r\<lparr>dev := dev ni, page_cache := page_cache ni, block_state := block_state ni,
       block_state_changed := block_state_changed ni,
       block_mapping_changed := block_mapping_changed ni, main_table_ba := main_table_ba ni,
       backup_table_ba := backup_table_ba ni, mapping_blocks_ba := mapping_blocks_ba ni,
       protected := protected ni, info_table := info_table ni,
       info_table_cache := info_table_cache ni\<rparr>"

definition mg_step :: "('d \<Rightarrow> bool) \<Rightarrow> 'd nmbm_instance \<Rightarrow> 'd nmbm_instance \<Rightarrow> bool" where
  "mg_step Q ni ni' \<longleftrightarrow>
     mg_restore ni ni' = ni \<and>
     length (page_cache ni') = length (page_cache ni) \<and>
     length (block_state ni') = length (block_state ni) \<and>
     length (info_table_cache ni') = length (info_table_cache ni) \<and>
     state_table_off (info_table ni') = state_table_off (info_table ni) \<and>
     mapping_table_off (info_table ni') = mapping_table_off (info_table ni) \<and>
     (Q (dev ni) \<longrightarrow> Q (dev ni')) \<and>
     degrades (16 * length (block_state ni)) (unat (mgmt_start_ba ni)) (unat (mapping_blocks_top_ba ni))
       (st_of (block_state ni)) (st_of (block_state ni'))"

lemma mg_step_refl [simp]: "mg_step Q ni ni"
  by (simp add: mg_step_def mg_restore_def)

lemma mg_step_same: "mg_step Q ni ni' \<Longrightarrow> (\<And>r. f (mg_restore ni r) = f r) \<Longrightarrow> f ni' = f ni"
  by (metis mg_step_def)

lemma mg_step_fields:
  assumes "mg_step Q ni ni'"
  shows "lower ni' = lower ni" and "block_count ni' = block_count ni"
    and "erasesize_shift ni' = erasesize_shift ni" and "read_only ni' = read_only ni"
    and "ba2addr ni' = ba2addr ni" and "addr2ba ni' = addr2ba ni" and "size2blk ni' = size2blk ni"
    and "blk_allowed A ni' = blk_allowed A ni" and "info_table_size ni' = info_table_size ni"
    and "info_table_spare_blocks ni' = info_table_spare_blocks ni"
    and "block_mapping ni' = block_mapping ni" and "data_block_count ni' = data_block_count ni"
    and "mgmt_start_ba ni' = mgmt_start_ba ni"
    and "mapping_blocks_top_ba ni' = mapping_blocks_top_ba ni"
    and "signature_ba ni' = signature_ba ni" and "signature ni' = signature ni"
    and "geom_wf ni' = geom_wf ni" and "state_table_size ni' = state_table_size ni"
    and "mapping_table_size ni' = mapping_table_size ni" and "rawpage_size ni' = rawpage_size ni"
    and "writesize_mask ni' = writesize_mask ni"
  by (rule mg_step_same [OF assms], simp add: mg_restore_def read_only_def ba2addr_def addr2ba_def
      size2blk_def blk_allowed_def geom_wf_def fun_eq_iff)+

lemma mg_step_lengths:
  assumes "mg_step Q ni ni'"
  shows "length (block_state ni') = length (block_state ni)"
    and "length (page_cache ni') = length (page_cache ni)"
    and "length (info_table_cache ni') = length (info_table_cache ni)"
    and "dev_wf ni' = dev_wf ni" and "table_wf ni' = table_wf ni"
    and "good_left ni' \<le> good_left ni"
  using assms mg_step_fields [OF assms]
  by (auto simp: mg_step_def dev_wf_def table_wf_def good_left_def intro: degrades_count)

lemma mg_restore_trans: "mg_restore a b = a \<Longrightarrow> mg_restore b c = b \<Longrightarrow> mg_restore a c = a"
  by (cases a; cases b; cases c) (simp add: mg_restore_def)

lemma mg_step_trans:
  assumes "mg_step Q a b" and "mg_step Q b c"
  shows "mg_step Q a c"
  using assms mg_step_fields [OF assms(1)]
  by (auto simp: mg_step_def intro: mg_restore_trans degrades_trans)

lemma mg_step_op_ctx: "mg_step Q' ni ni' \<Longrightarrow> op_ctx Q A lo hi ni' = op_ctx Q A lo hi ni"
  by (simp add: op_ctx_def mg_step_fields mg_step_lengths)

lemma tab_step_mg_step:
  assumes "tab_step Q lo hi ni ni'" and "unat (mgmt_start_ba ni) \<le> lo" and "hi \<le> unat (mapping_blocks_top_ba ni)"
  shows "mg_step Q ni ni'"
proof -
  have "degrades (16 * length (block_state ni)) (unat (mgmt_start_ba ni)) (unat (mapping_blocks_top_ba ni))
      (st_of (block_state ni)) (st_of (block_state ni'))"
    by (rule degrades_widen [OF tab_step_degrades [OF assms(1)] assms(2,3)])
  with assms(1) show ?thesis
    by (elim tab_stepE) (simp add: mg_step_def mg_restore_def)
qed

text \<open>The updates of single fields in the operations are such steps.\<close>

lemma mg_step_update [simp]:
  "mg_step Q a (b\<lparr>main_table_ba := x\<rparr>) = mg_step Q a b"
  "mg_step Q a (b\<lparr>backup_table_ba := x\<rparr>) = mg_step Q a b"
  "mg_step Q a (b\<lparr>mapping_blocks_ba := x\<rparr>) = mg_step Q a b"
  "mg_step Q a (b\<lparr>protected := p\<rparr>) = mg_step Q a b"
  "mg_step Q a (nmbm_mark_tables_clean b) = mg_step Q a b"
  by (simp_all add: mg_step_def mg_restore_def nmbm_mark_tables_clean_def)

section \<open>Contracts\<close>

text \<open>
  \<open>mg_ok Q A ni\<^sub>0 ni\<close>: the operation started in \<open>ni\<^sub>0\<close> and has reached the well-formed \<open>ni\<close>, with
  \<open>A\<close> allowing accesses to the management area.
\<close>

definition mg_ok ::
  "('d \<Rightarrow> bool) \<Rightarrow> (u64 \<Rightarrow> bool) \<Rightarrow> 'd nmbm_instance \<Rightarrow> 'd nmbm_instance \<Rightarrow> bool" where
  "mg_ok Q A ni0 ni \<longleftrightarrow>
     op_ctx Q A (unat (mgmt_start_ba ni)) (unat (mapping_blocks_top_ba ni)) ni \<and> table_wf ni \<and>
     order_wf ni \<and> mg_step Q ni0 ni"

definition clean :: "'d nmbm_instance \<Rightarrow> bool" where
  "clean ni \<longleftrightarrow> block_state_changed ni = 0 \<and> block_mapping_changed ni = 0"

text \<open>Either nothing is left to write, or a good block was lost since \<open>ni\<^sub>0\<close>.\<close>

definition settled :: "'d nmbm_instance \<Rightarrow> 'd nmbm_instance \<Rightarrow> bool" where
  "settled ni0 ni \<longleftrightarrow> clean ni \<or> good_left ni < good_left ni0"

lemma good_left_update [simp]:
  "good_left (ni\<lparr>main_table_ba := x\<rparr>) = good_left ni"
  "good_left (ni\<lparr>backup_table_ba := x\<rparr>) = good_left ni"
  "good_left (ni\<lparr>mapping_blocks_ba := x\<rparr>) = good_left ni"
  "good_left (ni\<lparr>protected := p\<rparr>) = good_left ni"
  "good_left (nmbm_mark_tables_clean ni) = good_left ni"
  by (simp_all add: good_left_def nmbm_mark_tables_clean_def)

lemma clean_update [simp]:
  "clean (ni\<lparr>main_table_ba := x\<rparr>) = clean ni"
  "clean (ni\<lparr>backup_table_ba := x\<rparr>) = clean ni"
  "clean (ni\<lparr>mapping_blocks_ba := x\<rparr>) = clean ni"
  "clean (ni\<lparr>protected := p\<rparr>) = clean ni"
  "clean (nmbm_mark_tables_clean ni)"
  by (simp_all add: clean_def nmbm_mark_tables_clean_def)

lemma settled_update [simp]:
  "settled ni0 (ni\<lparr>main_table_ba := x\<rparr>) = settled ni0 ni"
  "settled ni0 (ni\<lparr>backup_table_ba := x\<rparr>) = settled ni0 ni"
  "settled ni0 (ni\<lparr>mapping_blocks_ba := x\<rparr>) = settled ni0 ni"
  "settled ni0 (nmbm_mark_tables_clean ni)"
  by (simp_all add: settled_def)

lemma settled_tab_step:
  assumes "mg_ok Q A ni0 ni" and "tab_step Q lo hi ni ni'" and "settled ni0 ni"
  shows "settled ni0 ni'"
proof -
  have "good_left ni \<le> good_left ni0" using assms(1) by (auto simp: mg_ok_def intro: mg_step_lengths)
  then show ?thesis
    using assms(3) tab_step_good_left [OF assms(2)] tab_step_fields(24) [OF assms(2)]
    by (cases "block_state_changed ni' = block_state_changed ni") (auto simp: settled_def clean_def)
qed

lemma tab_step_order_wf: "tab_step Q lo hi ni ni' \<Longrightarrow> order_wf ni' = order_wf ni"
  by (simp add: order_wf_def tab_step_fields)

lemma mg_ok_tab_step:
  assumes "mg_ok Q A ni0 ni" and t: "tab_step Q lo hi ni ni'"
    and "unat (mgmt_start_ba ni) \<le> lo" and "hi \<le> unat (mapping_blocks_top_ba ni)"
  shows "mg_ok Q A ni0 ni'"
proof -
  have m: "mg_step Q ni ni'" by (rule tab_step_mg_step [OF assms(2-4)])
  show ?thesis
    using assms(1) mg_step_trans [OF _ m]
    by (auto simp: mg_ok_def mg_step_fields [OF m] mg_step_lengths [OF m] mg_step_op_ctx [OF m]
        tab_step_order_wf [OF t])
qed

text \<open>A field update keeps \<open>mg_ok\<close> as far as the order of the tables is kept.\<close>

lemma mg_ok_update:
  assumes "mg_ok Q A ni0 ni" and "order_wf ni'" and "mg_step Q ni ni'"
  shows "mg_ok Q A ni0 ni'"
  using assms mg_step_trans [OF _ assms(3)]
  by (auto simp: mg_ok_def mg_step_fields [OF assms(3)] mg_step_lengths [OF assms(3)]
      mg_step_op_ctx [OF assms(3)])

text \<open>What writing or erasing in the management area leaves untouched.\<close>

definition area_step ::
  "('d \<Rightarrow> bool) \<Rightarrow> (u64 \<Rightarrow> bool) \<Rightarrow> 'd nmbm_instance \<Rightarrow> 'd nmbm_instance \<Rightarrow> 'd nmbm_instance \<Rightarrow> bool" where
  "area_step Q A ni0 ni ni' \<longleftrightarrow>
     mg_ok Q A ni0 ni' \<and> (settled ni0 ni \<longrightarrow> settled ni0 ni') \<and>
     mgmt_start_ba ni' = mgmt_start_ba ni \<and> mapping_blocks_top_ba ni' = mapping_blocks_top_ba ni \<and>
     main_table_ba ni' = main_table_ba ni \<and> backup_table_ba ni' = backup_table_ba ni \<and>
     mapping_blocks_ba ni' = mapping_blocks_ba ni \<and> protected ni' = protected ni"

lemma area_stepI:
  assumes ok: "mg_ok Q A ni0 ni"
    and t: "tab_step Q (unat (mgmt_start_ba ni)) (unat (mapping_blocks_top_ba ni)) ni ni'"
  shows "area_step Q A ni0 ni ni'"
  using settled_tab_step [OF ok t] mg_ok_tab_step [OF ok t] tab_step_fields [OF t]
  by (simp add: area_step_def)

definition fits :: "u32 \<Rightarrow> u32 \<Rightarrow> (u32 \<times> u32) option \<Rightarrow> bool" where
  "fits lo hi res = (case res of None \<Rightarrow> True | Some (s, e) \<Rightarrow> lo \<le> s \<and> s < e \<and> e \<le> hi)"

lemma fits_simps [simp]: "fits lo hi None" "fits lo hi (Some (s, e)) \<longleftrightarrow> lo \<le> s \<and> s < e \<and> e \<le> hi"
  by (simp_all add: fits_def)

lemma nmbm_write_info_table_post:
  assumes ok: "mg_ok Q A ni0 ni"
    and r: "mgmt_start_ba ni \<le> ba" "limit \<le> mapping_blocks_top_ba ni"
  shows "returns (nmbm_write_info_table ni ba limit) (\<lambda>(res, ni'). area_step Q A ni0 ni ni' \<and>
    fits ba limit res)"
proof (cases "ba \<le> limit")
  case False
  then have "\<not> ba < limit" by simp
  moreover have "info_table_size ni \<noteq> 0" using ok by (auto simp: mg_ok_def table_wf_def)
  ultimately have "nmbm_write_info_table ni ba limit = Some (None, ni)"
    by (simp add: nmbm_write_info_table_def nmbm_write_mgmt_range_def write_mgmt_loop.simps)
  then show ?thesis using area_stepI [OF ok] by simp
next
  case True
  let ?lo = "unat (mgmt_start_ba ni)" and ?hi = "unat (mapping_blocks_top_ba ni)"
  have "returns (nmbm_write_info_table ni ba limit)
      (mgmt_range_post Q ?hi ni ba limit (info_table_size ni))"
    unfolding nmbm_write_info_table_def
    by (rule nmbm_write_mgmt_range_returns [where lo = ?lo and A = A])
      (use ok r True in \<open>auto simp: mg_ok_def table_wf_def word_le_nat_alt\<close>)
  then show ?thesis
  proof (rule returns_mono, clarsimp)
    fix res ni'
    assume post: "mgmt_range_post Q ?hi ni ba limit (info_table_size ni) (res, ni')"
    then have "tab_step Q (unat ba) ?hi ni ni'" by (auto simp: mgmt_range_post_def)
    then have t: "tab_step Q ?lo ?hi ni ni'"
      by (rule tab_step_widen) (use r(1) in \<open>auto simp: word_le_nat_alt\<close>)
    from post area_stepI [OF ok t] show "area_step Q A ni0 ni ni' \<and>
        fits ba limit res"
      by (auto simp: mgmt_range_post_def fits_def Let_def split: option.splits)
  qed
qed

lemma nmbm_erase_range_post:
  assumes ok: "mg_ok Q A ni0 ni" and r: "mgmt_start_ba ni \<le> ba" "limit \<le> mapping_blocks_top_ba ni"
  shows "returns (nmbm_erase_range ni ba limit) (area_step Q A ni0 ni)"
proof -
  have "returns (nmbm_erase_range ni ba limit)
      (tab_step Q (unat (mgmt_start_ba ni)) (unat (mapping_blocks_top_ba ni)) ni)"
    by (rule nmbm_erase_range_returns [where A = A])
      (use ok r in \<open>auto simp: mg_ok_def word_le_nat_alt\<close>)
  then show ?thesis by (rule returns_mono) (rule area_stepI [OF ok])
qed

lemma nmbm_block_walk_asc_bound:
  assumes "table_wf ni" and "unat n < 2 ^ 31"
  shows "returns (nmbm_block_walk ni True ba n limit) (\<lambda>res. case res of None \<Rightarrow> True | Some b \<Rightarrow> ba \<le> b)"
proof -
  define l where "l = (if limit \<ge> block_count ni then block_count ni - 1 else limit)"
  have bc: "0 < block_count ni" using assms(1) by (simp add: table_wf_def)
  then have "unat (block_count ni - 1) = unat (block_count ni) - 1" by (intro unat_minus_one) auto
  then have "unat l \<le> 16 * length (block_state ni)"
    using assms(1) by (auto simp: l_def word_le_nat_alt table_wf_def)
  from walk_asc_loop_eq [OF assms(2) this, of ba]
  have eq: "nmbm_block_walk ni True ba n limit = Some (map_option of_nat
      (arr_get (good_blocks (block_state ni) (unat ba) (unat l)) (unat n)))"
    by (simp add: nmbm_block_walk_def nmbm_block_walk_asc_def l_def)
  have "ba \<le> of_nat i"
    if "arr_get (good_blocks (block_state ni) (unat ba) (unat l)) (unat n) = Some i" for i
  proof -
    from that have "i \<in> set (good_blocks (block_state ni) (unat ba) (unat l))"
      by (auto simp: arr_get_def split: if_splits)
    then have i: "unat ba \<le> i" "i < unat l" by (auto simp: good_blocks_def)
    then have "unat (of_nat i :: u32) = i" using unat_u32_less [of l] by (intro unat_of_nat_small) simp
    with i show ?thesis by (simp add: word_le_nat_alt)
  qed
  with eq show ?thesis by (auto split: option.splits)
qed

lemma reserve_loop_returns:
  "table_wf ni \<Longrightarrow> 0 \<le> m \<Longrightarrow> n < 2 ^ 31 \<Longrightarrow>
   returns (reserve_loop ni ba n m limit) (\<lambda>res. case res of None \<Rightarrow> True | Some b \<Rightarrow> ba \<le> b)"
proof (induction ni ba n m limit rule: reserve_loop.induct)
  case (1 ni ba n m limit)
  show ?case
  proof (cases "m \<le> n")
    case True
    then have "unat (of_int n :: u32) = nat n"
      using "1.prems"(2,3) by (intro unat_of_int_small) auto
    then have "unat (of_int n :: u32) < 2 ^ 31" using "1.prems"(2,3) True by simp
    from nmbm_block_walk_asc_bound [OF "1.prems"(1) this, of ba limit]
    obtain res where w: "nmbm_block_walk ni True ba (of_int n) limit = Some res"
      and b: "case res of None \<Rightarrow> True | Some b \<Rightarrow> ba \<le> b"
      by (auto simp: returns_iff)
    show ?thesis
    proof (cases res)
      case None
      with w have "returns (reserve_loop ni ba (n - 1) m limit)
          (\<lambda>res. case res of None \<Rightarrow> True | Some b \<Rightarrow> ba \<le> b)"
        using "1.prems" by (intro "1.IH" [OF True]) auto
      with True w None show ?thesis by (subst reserve_loop.simps) simp
    next
      case (Some b')
      with True w b show ?thesis by (subst reserve_loop.simps) simp
    qed
  next
    case False
    then show ?thesis by (subst reserve_loop.simps) simp
  qed
qed

lemma nmbm_try_reserve_blocks_post:
  assumes "mg_ok Q A ni0 ni"
  shows "returns (nmbm_try_reserve_blocks ni ba count 0 limit)
    (\<lambda>res. case res of None \<Rightarrow> True | Some b \<Rightarrow> ba \<le> b)"
  unfolding nmbm_try_reserve_blocks_def
  by (rule reserve_loop_returns) (use assms sint_lt [of count] in \<open>auto simp: mg_ok_def\<close>)

lemma area_step_trans: "area_step Q A ni0 a b \<Longrightarrow> area_step Q A ni0 b c \<Longrightarrow> area_step Q A ni0 a c"
  by (auto simp: area_step_def)

lemma write_table_down_post:
  "mg_ok Q A ni0 ni \<Longrightarrow> 0 < low \<Longrightarrow> mgmt_start_ba ni \<le> low \<Longrightarrow>
   returns (write_table_down ni ba low) (\<lambda>(res, ni'). area_step Q A ni0 ni ni' \<and>
     fits low (mapping_blocks_top_ba ni) res)"
proof (induction "unat ba" arbitrary: ni ba rule: less_induct)
  case less
  show ?case
  proof (cases "low \<le> ba")
    case True
    then have r: "mgmt_start_ba ni \<le> ba" using less.prems(3) by simp
    from nmbm_write_info_table_post [OF less.prems(1) r order_refl]
    obtain res ni1 where w: "nmbm_write_info_table ni ba (mapping_blocks_top_ba ni) = Some (res, ni1)"
      and a: "area_step Q A ni0 ni ni1"
      and se: "fits ba (mapping_blocks_top_ba ni) res"
      by (auto simp: returns_iff)
    show ?thesis
    proof (cases res)
      case None
      have "unat (ba - 1) < unat ba" using True less.prems(2)
        by (metis less_le_trans unat_minus_one unat_gt_0 diff_less zero_less_one word_gt_0)
      then have "returns (write_table_down ni1 (ba - 1) low) (\<lambda>(res, ni'). area_step Q A ni0 ni1 ni' \<and>
          fits low (mapping_blocks_top_ba ni1) res)"
        by (rule less.hyps) (use less.prems a in \<open>auto simp: area_step_def\<close>)
      moreover have "mapping_blocks_top_ba ni1 = mapping_blocks_top_ba ni" using a by (simp add: area_step_def)
      ultimately show ?thesis
        using True w None by (subst write_table_down.simps)
          (auto intro: area_step_trans [OF a] elim!: returns_mono)
    next
      case (Some p)
      with True w a se show ?thesis
        by (cases p, subst write_table_down.simps) auto
    qed
  next
    case False
    then show ?thesis using area_stepI [OF less.prems(1)] by (subst write_table_down.simps) simp
  qed
qed

lemma write_table_from_post:
  assumes "mg_ok Q A ni0 ni" and "0 < low" and "mgmt_start_ba ni \<le> low" and "low \<le> ba"
  shows "returns (write_table_from ni ba low) (\<lambda>(res, ni'). area_step Q A ni0 ni ni' \<and>
     fits low (mapping_blocks_top_ba ni) res)"
  using write_table_down_post [OF assms(1-3)] assms(4) by (simp add: write_table_from_def)

text \<open>
  The outcome of writing the tables: on success a main table exists and the round is settled;
  the order of the tables holds in any case.
\<close>

definition table_post ::
  "('d \<Rightarrow> bool) \<Rightarrow> (u64 \<Rightarrow> bool) \<Rightarrow> 'd nmbm_instance \<Rightarrow> bool \<times> 'd nmbm_instance \<Rightarrow> bool" where
  "table_post Q A ni0 = (\<lambda>(ok, ni'). mg_ok Q A ni0 ni' \<and>
     (ok \<longrightarrow> settled ni0 ni' \<and> main_table_ba ni' \<noteq> 0))"

lemma mg_ok_bounds:
  assumes "mg_ok Q A ni0 ni"
  shows "0 < mgmt_start_ba ni" and "mgmt_start_ba ni \<le> mapping_blocks_ba ni"
    and "mapping_blocks_ba ni \<le> mapping_blocks_top_ba ni"
    and "mgmt_start_ba ni \<le> mapping_blocks_top_ba ni" and "0 < mapping_blocks_ba ni"
    and "main_table_ba ni \<noteq> 0 \<Longrightarrow> mgmt_start_ba ni \<le> main_table_ba ni"
    and "main_table_ba ni \<noteq> 0 \<Longrightarrow> main_table_ba ni < mapping_blocks_ba ni"
    and "backup_table_ba ni \<noteq> 0 \<Longrightarrow> mgmt_start_ba ni \<le> backup_table_ba ni"
    and "backup_table_ba ni \<noteq> 0 \<Longrightarrow> backup_table_ba ni < mapping_blocks_ba ni"
    and "backup_table_ba ni \<noteq> 0 \<Longrightarrow> main_table_ba ni < backup_table_ba ni"
  using assms by (auto simp: mg_ok_def order_wf_def)

lemma mg_ok_step: "mg_ok Q A ni0 ni \<Longrightarrow> mg_step Q ni0 ni"
  by (simp add: mg_ok_def)

lemma order_wf_clean [simp]: "order_wf (nmbm_mark_tables_clean ni) = order_wf ni"
  by (simp add: order_wf_def nmbm_mark_tables_clean_def)

lemma mark_tables_clean_fields [simp]:
  "mgmt_start_ba (nmbm_mark_tables_clean ni) = mgmt_start_ba ni"
  "mapping_blocks_top_ba (nmbm_mark_tables_clean ni) = mapping_blocks_top_ba ni"
  "main_table_ba (nmbm_mark_tables_clean ni) = main_table_ba ni"
  "backup_table_ba (nmbm_mark_tables_clean ni) = backup_table_ba ni"
  "mapping_blocks_ba (nmbm_mark_tables_clean ni) = mapping_blocks_ba ni"
  "protected (nmbm_mark_tables_clean ni) = protected ni"
  by (simp_all add: nmbm_mark_tables_clean_def)

lemma area_stepD:
  assumes "area_step Q A ni0 ni ni'"
  shows "mg_ok Q A ni0 ni'" and "settled ni0 ni \<Longrightarrow> settled ni0 ni'"
    and "mgmt_start_ba ni' = mgmt_start_ba ni" and "mapping_blocks_top_ba ni' = mapping_blocks_top_ba ni"
    and "main_table_ba ni' = main_table_ba ni" and "backup_table_ba ni' = backup_table_ba ni"
    and "mapping_blocks_ba ni' = mapping_blocks_ba ni" and "protected ni' = protected ni"
  using assms by (auto simp: area_step_def)

lemma rebuild_backup_post:
  assumes ok: "mg_ok Q A ni0 ni" and st: "settled ni0 ni" "main_table_ba ni \<noteq> 0"
    and e: "mapping_blocks_ba ni = e"
  shows "returns (rebuild_backup ni e) (\<lambda>r. table_post Q A ni0 r \<and> fst r)"
proof -
  note b = mg_ok_bounds [OF ok]
  from nmbm_try_reserve_blocks_post [OF ok] obtain nx
    where nx: "nmbm_try_reserve_blocks ni e (info_table_spare_blocks ni) 0
      (mapping_blocks_top_ba ni - info_table_blocks ni) = Some nx"
    and nb: "case nx of None \<Rightarrow> True | Some b \<Rightarrow> e \<le> b"
    by (rule returnsE)
  show ?thesis
  proof (cases nx)
    case None
    with nx ok st show ?thesis by (simp add: rebuild_backup_def table_post_def)
  next
    case (Some n)
    with nb b e have n: "mgmt_start_ba ni \<le> n" "e \<le> n" by auto
    from nmbm_write_info_table_post [OF ok n(1) order_refl] obtain res ni2
      where w: "nmbm_write_info_table ni n (mapping_blocks_top_ba ni) = Some (res, ni2)"
      and a2: "area_step Q A ni0 ni ni2" and f: "fits n (mapping_blocks_top_ba ni) res"
      by (auto simp: returns_iff)
    note ad2 = area_stepD [OF a2]
    show ?thesis
    proof (cases res)
      case None
      with nx Some w ad2 st show ?thesis by (simp add: rebuild_backup_def table_post_def)
    next
      case (Some p)
      with f obtain s t where p: "res = Some (s, t)" "n \<le> s" "s < t" "t \<le> mapping_blocks_top_ba ni"
        by (cases p) auto
      let ?ni3 = "ni2\<lparr>backup_table_ba := s, mapping_blocks_ba := t\<rparr>"
      have "mgmt_start_ba ni \<le> s" "main_table_ba ni < s" using p n b(6,7) [OF st(2)] e by order+
      then have ok3: "mg_ok Q A ni0 ?ni3"
        by (intro mg_ok_update [OF ad2(1)]) (use b p n ad2 in \<open>auto simp: order_wf_def\<close>)
      have "returns (nmbm_erase_range ?ni3 e s) (area_step Q A ni0 ?ni3)"
        by (rule nmbm_erase_range_post [OF ok3]) (use ad2 e p b in auto)
      then show ?thesis
        using nx \<open>nx = Some n\<close> w p ad2 st
        by (auto simp: rebuild_backup_def table_post_def area_step_def returns_simps elim!: returns_mono)
    qed
  qed
qed

lemma nmbm_rebuild_info_table_post:
  assumes ok: "mg_ok Q A ni0 ni"
  shows "returns (nmbm_rebuild_info_table ni)
    (\<lambda>r. table_post Q A ni0 r \<and> (\<not> fst r \<longrightarrow> protected (snd r)))"
proof -
  note b = mg_ok_bounds [OF ok]
  let ?ni1 = "ni\<lparr>main_table_ba := 0, backup_table_ba := 0, mapping_blocks_ba := mapping_blocks_top_ba ni\<rparr>"
  have ok1: "mg_ok Q A ni0 ?ni1" by (rule mg_ok_update [OF ok]) (use b in \<open>auto simp: order_wf_def\<close>)
  from nmbm_write_info_table_post [OF ok1, of "mgmt_start_ba ni" "mapping_blocks_top_ba ni"]
  obtain res ni2 where w: "nmbm_write_info_table ?ni1 (mgmt_start_ba ni) (mapping_blocks_top_ba ni) = Some (res, ni2)"
    and a2: "area_step Q A ni0 ?ni1 ni2" and f: "fits (mgmt_start_ba ni) (mapping_blocks_top_ba ni) res"
    by (auto simp: returns_iff)
  note ad2 = area_stepD [OF a2]
  show ?thesis
  proof (cases res)
    case None
    have "mg_ok Q A ni0 (ni2\<lparr>protected := True\<rparr>)"
      by (rule mg_ok_update [OF ad2(1)]) (use ad2(1) in \<open>auto simp: mg_ok_def order_wf_def\<close>)
    with None w show ?thesis by (simp add: nmbm_rebuild_info_table_def table_post_def Let_def)
  next
    case (Some p)
    then obtain s e where p: "res = Some (s, e)" and se: "mgmt_start_ba ni \<le> s" "s < e" "e \<le> mapping_blocks_top_ba ni"
      using f by (cases p) auto
    let ?ni3 = "nmbm_mark_tables_clean (ni2\<lparr>main_table_ba := s, mapping_blocks_ba := e\<rparr>)"
    have "mgmt_start_ba ni \<le> e" using se by order
    then have ok3: "mg_ok Q A ni0 ?ni3"
      by (intro mg_ok_update [OF ad2(1)]) (use b se ad2 in \<open>auto simp: order_wf_def\<close>)
    have "s \<noteq> 0" using b(1) se(1) by auto
    then have "returns (rebuild_backup ?ni3 e) (\<lambda>r. table_post Q A ni0 r \<and> fst r)"
      by (intro rebuild_backup_post [OF ok3]) simp_all
    then show ?thesis
      using w p by (auto simp: nmbm_rebuild_info_table_def Let_def elim!: returns_mono)
  qed
qed

lemma rescue_next_to_post:
  assumes ok: "mg_ok Q A ni0 ni" and m: "main_table_ba ni \<noteq> 0"
  shows "returns (rescue_next_to ni) (table_post Q A ni0)"
proof -
  note b = mg_ok_bounds [OF ok]
  from nmbm_try_reserve_blocks_post [OF ok] obtain nx
    where nx: "nmbm_try_reserve_blocks ni (mapping_blocks_ba ni) (info_table_spare_blocks ni) 0
      (mapping_blocks_top_ba ni - info_table_blocks ni) = Some nx"
    and nb: "case nx of None \<Rightarrow> True | Some b \<Rightarrow> mapping_blocks_ba ni \<le> b"
    by (rule returnsE)
  show ?thesis
  proof (cases nx)
    case None
    with nx ok show ?thesis by (simp add: rescue_next_to_def table_post_def)
  next
    case (Some n)
    with nb have n: "mapping_blocks_ba ni \<le> n" by simp
    from write_table_from_post [OF ok b(5,2) n] obtain res ni1
      where w: "write_table_from ni n (mapping_blocks_ba ni) = Some (res, ni1)"
      and a1: "area_step Q A ni0 ni ni1" and f: "fits (mapping_blocks_ba ni) (mapping_blocks_top_ba ni) res"
      by (auto simp: returns_iff)
    note ad1 = area_stepD [OF a1]
    show ?thesis
    proof (cases res)
      case None
      with nx Some w ad1 show ?thesis by (simp add: rescue_next_to_def table_post_def)
    next
      case (Some p)
      with f obtain s t where p: "res = Some (s, t)" "mapping_blocks_ba ni \<le> s" "s < t"
          "t \<le> mapping_blocks_top_ba ni" by (cases p) auto
      have "returns (nmbm_erase_range ni1 (mapping_blocks_ba ni1) s) (area_step Q A ni0 ni1)"
        by (rule nmbm_erase_range_post [OF ad1(1)]) (use ad1 p b in auto)
      then obtain ni2 where e: "nmbm_erase_range ni1 (mapping_blocks_ba ni1) s = Some ni2"
        and a2: "area_step Q A ni0 ni1 ni2" by (rule returnsE)
      note ad2 = area_stepD [OF a2]
      have s: "mgmt_start_ba ni \<le> s" "main_table_ba ni < s" "mgmt_start_ba ni \<le> t" "main_table_ba ni < t"
        using p b(2) b(6,7) [OF m] by order+
      have "mg_ok Q A ni0 (nmbm_mark_tables_clean (ni2\<lparr>backup_table_ba := s, mapping_blocks_ba := t\<rparr>))"
        by (rule mg_ok_update [OF ad2(1)]) (use ad1 ad2 p b s in \<open>auto simp: order_wf_def\<close>)
      then show ?thesis
        using nx \<open>nx = Some n\<close> w p e ad1 ad2 m by (simp add: rescue_next_to_def table_post_def)
    qed
  qed
qed

lemma nmbm_rescue_single_info_table_post:
  assumes ok: "mg_ok Q A ni0 ni" and m: "main_table_ba ni \<noteq> 0" and "backup_table_ba ni = 0"
  shows "returns (nmbm_rescue_single_info_table ni) (table_post Q A ni0)"
proof -
  note b = mg_ok_bounds [OF ok]
  have mt: "main_table_ba ni \<le> mapping_blocks_top_ba ni" using b(3) b(7) [OF m] by order
  from nmbm_write_info_table_post [OF ok order_refl mt] obtain res ni1
    where w: "nmbm_write_info_table ni (mgmt_start_ba ni) (main_table_ba ni) = Some (res, ni1)"
    and a1: "area_step Q A ni0 ni ni1" and f: "fits (mgmt_start_ba ni) (main_table_ba ni) res"
    by (auto simp: returns_iff)
  note ad1 = area_stepD [OF a1]
  show ?thesis
  proof (cases res)
    case None
    from ad1(1) m ad1(5) assms(3) ad1(6)
    have "returns (rescue_next_to ni1) (table_post Q A ni0)" by (intro rescue_next_to_post) simp_all
    with None w show ?thesis by (simp add: nmbm_rescue_single_info_table_def)
  next
    case (Some p)
    with f obtain s e where p: "res = Some (s, e)" "mgmt_start_ba ni \<le> s" "s < e" "e \<le> main_table_ba ni"
      by (cases p) auto
    let ?ni2 = "nmbm_mark_tables_clean (ni1\<lparr>backup_table_ba := main_table_ba ni1, main_table_ba := s\<rparr>)"
    have s: "s < main_table_ba ni" "s < mapping_blocks_ba ni" "mgmt_start_ba ni \<le> e" "s \<noteq> 0"
      using p b(1) b(7) [OF m] by order+
    then have ok2: "mg_ok Q A ni0 ?ni2"
      by (intro mg_ok_update [OF ad1(1)]) (use b p ad1 m in \<open>auto simp: order_wf_def\<close>)
    have "returns (nmbm_erase_range ?ni2 e (main_table_ba ni1)) (area_step Q A ni0 ?ni2)"
      by (rule nmbm_erase_range_post [OF ok2]) (use ad1 s mt in auto)
    then show ?thesis
      using w p s(4)
      by (auto simp: nmbm_rescue_single_info_table_def table_post_def area_step_def returns_simps Let_def
          elim!: returns_mono)
  qed
qed

lemma nmbm_update_single_info_table_post:
  assumes ok: "mg_ok Q A ni0 ni" and m: "main_table_ba ni \<noteq> 0" and k: "backup_table_ba ni \<noteq> 0"
  shows "returns (nmbm_update_single_info_table ni upd) (table_post Q A ni0)"
proof -
  note b = mg_ok_bounds [OF ok] and bk = mg_ok_bounds(8-10) [OF ok k] and bm = mg_ok_bounds(6,7) [OF ok m]
  let ?s = "if upd then main_table_ba ni else backup_table_ba ni"
  let ?l = "if upd then backup_table_ba ni else mapping_blocks_top_ba ni"
  have r: "mgmt_start_ba ni \<le> ?s" "?l \<le> mapping_blocks_top_ba ni" using b(3) bk bm by (auto intro: order_trans less_imp_le)
  from nmbm_write_info_table_post [OF ok r] obtain res ni1
    where w: "nmbm_write_info_table ni ?s ?l = Some (res, ni1)"
    and a1: "area_step Q A ni0 ni ni1" and f: "fits ?s ?l res"
    by (auto simp: returns_iff)
  note ad1 = area_stepD [OF a1]
  have eq: "nmbm_update_single_info_table ni upd =
      (case res of
         Some (table_start_ba, table_end_ba) \<Rightarrow>
           Some (True, nmbm_mark_tables_clean
             (if upd then ni1\<lparr>main_table_ba := table_start_ba\<rparr>
              else ni1\<lparr>backup_table_ba := table_start_ba, mapping_blocks_ba := table_end_ba\<rparr>))
       | None \<Rightarrow>
           if upd then nmbm_rescue_single_info_table
                  (ni1\<lparr>main_table_ba := backup_table_ba ni1, backup_table_ba := 0\<rparr>)
           else Some (False, ni1\<lparr>mapping_blocks_ba := backup_table_ba ni1, backup_table_ba := 0\<rparr>))"
    using w by (cases upd) (simp_all add: nmbm_update_single_info_table_def split: option.split)
  show ?thesis
  proof (cases res)
    case None
    have "mg_ok Q A ni0 (ni1\<lparr>main_table_ba := backup_table_ba ni1, backup_table_ba := 0\<rparr>)"
      by (rule mg_ok_update [OF ad1(1)]) (use ad1 b bk in \<open>auto simp: order_wf_def\<close>)
    then have "returns (nmbm_rescue_single_info_table (ni1\<lparr>main_table_ba := backup_table_ba ni1, backup_table_ba := 0\<rparr>))
        (table_post Q A ni0)"
      by (rule nmbm_rescue_single_info_table_post) (use ad1 k in auto)
    moreover have "mg_ok Q A ni0 (ni1\<lparr>mapping_blocks_ba := backup_table_ba ni1, backup_table_ba := 0\<rparr>)"
      by (rule mg_ok_update [OF ad1(1)]) (use ad1 b bk bm in \<open>auto simp: order_wf_def\<close>)
    ultimately show ?thesis by (simp add: eq None table_post_def)
  next
    case (Some p)
    with f obtain s e where p: "res = Some (s, e)" "?s \<le> s" "s < e" "e \<le> ?l" by (cases p) auto
    have s: "mgmt_start_ba ni \<le> s" "main_table_ba ni \<le> s" "mgmt_start_ba ni \<le> e" "s \<noteq> 0"
      using p b(1) bk bm by (auto split: if_splits)
    have "mg_ok Q A ni0 (nmbm_mark_tables_clean (if upd then ni1\<lparr>main_table_ba := s\<rparr>
        else ni1\<lparr>backup_table_ba := s, mapping_blocks_ba := e\<rparr>))"
      by (rule mg_ok_update [OF ad1(1)]) (use ad1 b bk bm p s in \<open>auto simp: order_wf_def\<close>)
    then show ?thesis using s(4) m ad1(5) by (simp add: eq p(1) table_post_def)
  qed
qed

text \<open>
  The new main table ends below the temporary one, so that the temporary table always becomes
  the backup: the code after that test in \<open>nmbm_rescue_main_info_table\<close> is never reached.
\<close>

lemma rescue_write_main_post:
  assumes ok: "mg_ok Q A ni0 ni"
    and r: "mapping_blocks_ba ni \<le> s" "s < t" "t \<le> mapping_blocks_top_ba ni"
  shows "returns (rescue_write_main ni s t) (\<lambda>r. (table_post Q A ni0 r \<and> fst r) \<and>
    mapping_blocks_ba (snd r) = t \<and>
    (main_table_ba (snd r) = s \<and> backup_table_ba (snd r) = 0 \<or> backup_table_ba (snd r) = s))"
proof -
  note b = mg_ok_bounds [OF ok]
  let ?ni1 = "ni\<lparr>mapping_blocks_ba := t\<rparr>"
  have s: "mgmt_start_ba ni \<le> s" "mgmt_start_ba ni \<le> t" "s \<le> mapping_blocks_top_ba ni" "s \<noteq> 0" "mapping_blocks_ba ni < t"
    using b r by order+
  have ok1: "mg_ok Q A ni0 ?ni1"
    by (rule mg_ok_update [OF ok]) (use b s r in \<open>auto simp: order_wf_def\<close>)
  from nmbm_write_info_table_post [OF ok1, of "mgmt_start_ba ni" s] s obtain res ni2
    where w: "nmbm_write_info_table ?ni1 (mgmt_start_ba ni) s = Some (res, ni2)"
    and a2: "area_step Q A ni0 ?ni1 ni2" and f: "fits (mgmt_start_ba ni) s res"
    by (auto simp: returns_iff)
  note ad2 = area_stepD [OF a2]
  show ?thesis
  proof (cases res)
    case None
    have "mg_ok Q A ni0 (nmbm_mark_tables_clean (ni2\<lparr>main_table_ba := s, backup_table_ba := 0\<rparr>))"
      by (rule mg_ok_update [OF ad2(1)]) (use ad2 b s r in \<open>auto simp: order_wf_def\<close>)
    with None w s(4) ad2 show ?thesis
      by (simp add: rescue_write_main_def table_post_def Let_def)
  next
    case (Some p)
    with f obtain ms me where p: "res = Some (ms, me)" "mgmt_start_ba ni \<le> ms" "ms < me" "me \<le> s"
      by (cases p) auto
    have m: "ms < s" "ms < t" "ms \<noteq> 0" using p r b(1) by order+
    have "mg_ok Q A ni0 ((nmbm_mark_tables_clean (ni2\<lparr>main_table_ba := ms\<rparr>))\<lparr>backup_table_ba := s\<rparr>)"
      by (rule mg_ok_update [OF ad2(1)]) (use ad2 b s r m p in \<open>auto simp: order_wf_def\<close>)
    with w p m(3) ad2 show ?thesis
      by (simp add: rescue_write_main_def table_post_def Let_def)
  qed
qed

lemma nmbm_rescue_main_info_table_post:
  assumes ok: "mg_ok Q A ni0 ni" and k: "backup_table_ba ni \<noteq> 0" and st: "settled ni0 ni"
  shows "returns (nmbm_rescue_main_info_table ni) (\<lambda>r. table_post Q A ni0 r \<and> fst r)"
proof -
  note b = mg_ok_bounds [OF ok] and bk = mg_ok_bounds(8-10) [OF ok k]
  have fall: "mg_ok Q A ni0 (ni1\<lparr>main_table_ba := backup_table_ba ni1, backup_table_ba := 0\<rparr>)"
    if "area_step Q A ni0 ni ni1" for ni1
    by (rule mg_ok_update [OF area_stepD(1) [OF that]])
      (use area_stepD [OF that] b bk in \<open>auto simp: order_wf_def\<close>)
  from nmbm_try_reserve_blocks_post [OF ok] obtain nx
    where nx: "nmbm_try_reserve_blocks ni (mapping_blocks_ba ni) (info_table_spare_blocks ni) 0
      (mapping_blocks_top_ba ni - info_table_blocks ni) = Some nx"
    and nb: "case nx of None \<Rightarrow> True | Some b \<Rightarrow> mapping_blocks_ba ni \<le> b"
    by (rule returnsE)
  show ?thesis
  proof (cases nx)
    case None
    with nx fall [OF area_stepI [OF ok tab_step_refl]] st k show ?thesis
      by (simp add: nmbm_rescue_main_info_table_def table_post_def)
  next
    case (Some n)
    with nb have n: "mapping_blocks_ba ni \<le> n" by simp
    from write_table_from_post [OF ok b(5,2) n] obtain res ni1
      where w: "write_table_from ni n (mapping_blocks_ba ni) = Some (res, ni1)"
      and a1: "area_step Q A ni0 ni ni1" and f: "fits (mapping_blocks_ba ni) (mapping_blocks_top_ba ni) res"
      by (auto simp: returns_iff)
    note ad1 = area_stepD [OF a1]
    show ?thesis
    proof (cases res)
      case None
      with nx Some w fall [OF a1] ad1 st k show ?thesis
        by (simp add: nmbm_rescue_main_info_table_def table_post_def)
    next
      case (Some p)
      with f obtain s t where p: "res = Some (s, t)" "mapping_blocks_ba ni \<le> s" "s < t"
          "t \<le> mapping_blocks_top_ba ni" by (cases p) auto
      have "returns (rescue_write_main ni1 s t) (\<lambda>r. table_post Q A ni0 r \<and> fst r)"
        by (rule returns_mono [OF rescue_write_main_post [OF ad1(1)]]) (use p ad1 in auto)
      with nx \<open>nx = Some n\<close> w p show ?thesis by (simp add: nmbm_rescue_main_info_table_def)
    qed
  qed
qed

lemma write_main_table_post:
  assumes ok: "mg_ok Q A ni0 ni"
    and l: "limit = (if backup_table_ba ni = 0 then mapping_blocks_top_ba ni else backup_table_ba ni)"
    and st: "backup_table_ba ni \<noteq> 0 \<Longrightarrow> settled ni0 ni"
  shows "returns (write_main_table ni limit)
    (\<lambda>r. table_post Q A ni0 r \<and> (\<not> fst r \<longrightarrow> protected (snd r)))"
proof (cases "main_table_ba ni = 0")
  case True
  then show ?thesis
    using nmbm_rebuild_info_table_post [OF ok] by (simp add: write_main_table_def)
next
  case m: False
  note b = mg_ok_bounds [OF ok]
  have lt: "limit \<le> mapping_blocks_top_ba ni" using l b(3,9) by (auto simp: le_less_trans less_imp_le)
  from nmbm_write_info_table_post [OF ok b(6) [OF m] lt] obtain res ni1
    where w: "nmbm_write_info_table ni (main_table_ba ni) limit = Some (res, ni1)"
    and a1: "area_step Q A ni0 ni ni1" and f: "fits (main_table_ba ni) limit res"
    by (auto simp: returns_iff)
  note ad1 = area_stepD [OF a1]
  show ?thesis
  proof (cases res)
    case None
    have "returns (nmbm_rescue_main_info_table ni1) (\<lambda>r. table_post Q A ni0 r \<and> fst r)" if "backup_table_ba ni1 \<noteq> 0"
      by (rule nmbm_rescue_main_info_table_post [OF ad1(1) that]) (use ad1 st that in auto)
    with None w m nmbm_rebuild_info_table_post [OF ad1(1)] show ?thesis
      by (auto simp: write_main_table_def elim!: returns_mono)
  next
    case (Some p)
    with f obtain s e where p: "res = Some (s, e)" "main_table_ba ni \<le> s" "s < e" "e \<le> limit"
      by (cases p) auto
    have s: "mgmt_start_ba ni \<le> s" "mgmt_start_ba ni \<le> e" "s \<noteq> 0" "s < limit"
      using p b(1) b(6) [OF m] by order+
    have "mg_ok Q A ni0 (nmbm_mark_tables_clean (ni1\<lparr>main_table_ba := s, mapping_blocks_ba := e\<rparr>))"
      if "backup_table_ba ni = 0"
      by (rule mg_ok_update [OF ad1(1)]) (use that ad1 b s p lt in \<open>auto simp: order_wf_def\<close>)
    moreover have "mg_ok Q A ni0 (nmbm_mark_tables_clean (ni1\<lparr>main_table_ba := s\<rparr>))"
      if "backup_table_ba ni \<noteq> 0"
      by (rule mg_ok_update [OF ad1(1)]) (use that ad1 b s p l in \<open>auto simp: order_wf_def\<close>)
    ultimately show ?thesis
      using m w p s(3) ad1(6) by (auto simp: write_main_table_def table_post_def Let_def)
  qed
qed

text \<open>The header that is serialised.\<close>

definition gen_header :: "'d nmbm_instance \<Rightarrow> nmbm_info_table_header" where
  "gen_header ni =
     (let it = (info_table ni)\<lparr>ith_header := (ith_header (info_table ni))
            \<lparr>magic := NMBM_MAGIC_INFO_TABLE, version := NMBM_VER, hdr_size := info_table_size ni\<rparr>\<rparr>
      in if clean ni then it else it\<lparr>write_count := write_count (info_table ni) + 1\<rparr>)"

lemma nmbm_update_checksum_returns:
  assumes "16 \<le> length data" and "unat (hdr_size (hdr_of_bytes data)) \<le> length data"
  shows "\<exists>c. nmbm_update_checksum crc data = Some (take 12 data @ le32 c @ drop 16 data)"
  using assms by (auto simp: nmbm_update_checksum_def mem_read_def mem_write_def hdr_of_bytes_def
      drop_take min_def)

text \<open>
  The cache before its checksum is set: header, state table and mapping table stand where the
  header says.
\<close>

lemma nmbm_generate_eq:
  assumes "table_wf ni"
  obtains pre where
    "nmbm_generate_info_table_cache crc ni =
       do { c \<leftarrow> nmbm_update_checksum crc pre;
            Some (\<not> clean ni, ni\<lparr>info_table_cache := c, info_table := gen_header ni\<rparr>) }"
    and "length pre = unat (info_table_size ni)" and "mem_read pre 0 32 = Some (ith_bytes (gen_header ni))"
    and "mem_read pre (unat (state_table_off (info_table ni))) (unat (state_table_size ni))
           = Some (words_bytes (block_state ni))"
    and "mem_read pre (unat (mapping_table_off (info_table ni))) (unat (mapping_table_size ni))
           = Some (words_bytes (block_mapping ni))"
proof -
  let ?so = "unat (state_table_off (info_table ni))" and ?ss = "unat (state_table_size ni)"
  let ?mo = "unat (mapping_table_off (info_table ni))" and ?ms = "unat (mapping_table_size ni)"
  let ?sb = "words_bytes (block_state ni)" and ?mb = "words_bytes (block_mapping ni)"
  let ?c0 = "replicate (unat (info_table_size ni)) (0xff :: u8)"
  have wf: "length (info_table_cache ni) = unat (info_table_size ni)" "length ?sb = ?ss" "length ?mb = ?ms"
      "32 \<le> ?so" "?so + ?ss \<le> ?mo" "?mo + ?ms \<le> unat (info_table_size ni)"
    using assms by (auto simp: table_wf_def)
  have c0: "mem_write (info_table_cache ni) 0 ?c0 = Some ?c0"
    using wf(1) by (simp add: mem_write_def)
  from wf obtain c1 where c1: "mem_write ?c0 ?so ?sb = Some c1"
    using mem_write_Some [of ?so ?sb ?c0] by auto
  from c1 wf obtain c2 where c2: "mem_write c1 ?mo ?mb = Some c2"
    using mem_write_Some [of ?mo ?mb c1] length_mem_write [OF c1] by auto
  from c2 wf obtain pre where pre: "mem_write c2 0 (ith_bytes (gen_header ni)) = Some pre"
    using mem_write_Some [of 0 "ith_bytes (gen_header ni)" c2] length_mem_write [OF c1] length_mem_write [OF c2]
    by auto
  have rd: "mem_read ?sb 0 ?ss = Some ?sb" "mem_read ?mb 0 ?ms = Some ?mb"
    using wf(2,3) by (simp_all add: mem_read_def)
  have ch: "block_state_changed ni \<noteq> 0 \<or> block_mapping_changed ni \<noteq> 0 \<longleftrightarrow> \<not> clean ni"
    by (auto simp: clean_def)
  show ?thesis
  proof (rule that)
    show "nmbm_generate_info_table_cache crc ni =
       do { c \<leftarrow> nmbm_update_checksum crc pre;
            Some (\<not> clean ni, ni\<lparr>info_table_cache := c, info_table := gen_header ni\<rparr>) }"
      using pre unfolding nmbm_generate_info_table_cache_def ch
      by (cases "clean ni") (simp_all add: c0 c1 c2 rd gen_header_def Let_def)
    show "length pre = unat (info_table_size ni)"
      using length_mem_write [OF pre] length_mem_write [OF c2] length_mem_write [OF c1] by simp
    show "mem_read pre 0 32 = Some (ith_bytes (gen_header ni))"
      using mem_read_write_same [OF pre] by simp
    have "mem_read pre ?so ?ss = mem_read c2 ?so ?ss"
      by (rule mem_read_write_after [OF pre]) (use wf(4) in simp)
    also have "\<dots> = mem_read c1 ?so ?ss" by (rule mem_read_write_before [OF c2 wf(5)])
    finally show "mem_read pre ?so ?ss = Some ?sb" using mem_read_write_same [OF c1] wf(2) by simp
    have "mem_read pre ?mo ?ms = mem_read c2 ?mo ?ms"
      by (rule mem_read_write_after [OF pre]) (use wf(4,5) in simp)
    then show "mem_read pre ?mo ?ms = Some ?mb" using mem_read_write_same [OF c2] wf(3) by simp
  qed
qed

lemma hdr_of_bytes_take: "16 \<le> n \<Longrightarrow> hdr_of_bytes (take n xs) = hdr_of_bytes xs"
  by (simp add: hdr_of_bytes_def drop_take min_def)

lemma hdr_of_ith_bytes: "hdr_of_bytes (ith_bytes h) = ith_header h"
  by (simp add: ith_bytes_def)

lemma gen_hdr_size:
  assumes "mem_read pre 0 32 = Some (ith_bytes (gen_header ni))"
  shows "hdr_size (hdr_of_bytes pre) = info_table_size ni" and "32 \<le> length pre"
proof -
  from assms have "take 32 pre = ith_bytes (gen_header ni)" and l: "32 \<le> length pre"
    by (auto simp: mem_read_def split: if_splits)
  then have "hdr_of_bytes pre = ith_header (gen_header ni)"
    using hdr_of_bytes_take [of 32 pre] by (simp add: hdr_of_ith_bytes)
  then show "hdr_size (hdr_of_bytes pre) = info_table_size ni" by (simp add: gen_header_def Let_def)
  show "32 \<le> length pre" by (rule l)
qed

lemma nmbm_generate_post:
  assumes ok: "mg_ok Q A ni0 ni"
  shows "returns (nmbm_generate_info_table_cache crc ni) (\<lambda>(changed, ni').
    changed = (\<not> clean ni) \<and> mg_ok Q A ni0 ni' \<and> mg_step Q ni ni')"
proof -
  from ok have wf: "table_wf ni" and ow: "order_wf ni" by (simp_all add: mg_ok_def)
  from nmbm_generate_eq [OF wf] obtain pre where g: "nmbm_generate_info_table_cache crc ni =
       do { c \<leftarrow> nmbm_update_checksum crc pre;
            Some (\<not> clean ni, ni\<lparr>info_table_cache := c, info_table := gen_header ni\<rparr>) }"
    and len: "length pre = unat (info_table_size ni)" and h: "mem_read pre 0 32 = Some (ith_bytes (gen_header ni))"
    by metis
  from nmbm_update_checksum_returns [of pre crc] gen_hdr_size [OF h] len
  obtain c where u: "nmbm_update_checksum crc pre = Some (take 12 pre @ le32 c @ drop 16 pre)" by auto
  let ?ni = "ni\<lparr>info_table_cache := take 12 pre @ le32 c @ drop 16 pre, info_table := gen_header ni\<rparr>"
  have "length (info_table_cache ni) = length pre" using wf len by (simp add: table_wf_def)
  then have "mg_step Q ni ?ni"
    using gen_hdr_size(2) [OF h] by (simp add: mg_step_def mg_restore_def gen_header_def Let_def)
  moreover from this have "mg_ok Q A ni0 ?ni"
    by (rule mg_ok_update [OF ok, rotated]) (use ow in \<open>simp add: order_wf_def\<close>)
  ultimately show ?thesis by (simp add: g u)
qed

lemma nmbm_update_info_table_once_post:
  assumes ok: "mg_ok Q A ni0 ni" and ch: "\<not> clean ni \<or> force"
  shows "returns (nmbm_update_info_table_once crc ni force)
    (\<lambda>r. table_post Q A ni0 r \<and> (\<not> fst r \<longrightarrow> protected (snd r)))"
proof -
  from nmbm_generate_post [OF ok] obtain ni1
    where g: "nmbm_generate_info_table_cache crc ni = Some (\<not> clean ni, ni1)" and ok1: "mg_ok Q A ni0 ni1"
    by (auto simp: returns_iff)
  note b = mg_ok_bounds [OF ok1]
  show ?thesis
  proof (cases "backup_table_ba ni1 = 0")
    case True
    with g ch write_main_table_post [OF ok1] show ?thesis
      by (auto simp: nmbm_update_info_table_once_def)
  next
    case k: False
    from nmbm_write_info_table_post [OF ok1 b(8) [OF k] order_refl] obtain res ni2
      where w: "nmbm_write_info_table ni1 (backup_table_ba ni1) (mapping_blocks_top_ba ni1) = Some (res, ni2)"
      and a2: "area_step Q A ni0 ni1 ni2" and f: "fits (backup_table_ba ni1) (mapping_blocks_top_ba ni1) res"
      by (auto simp: returns_iff)
    note ad2 = area_stepD [OF a2]
    show ?thesis
    proof (cases res)
      case None
      let ?ni3 = "ni2\<lparr>mapping_blocks_ba := backup_table_ba ni2, backup_table_ba := 0\<rparr>"
      have "mg_ok Q A ni0 ?ni3"
        by (rule mg_ok_update [OF ad2(1)]) (use ad2 b k in \<open>auto simp: order_wf_def\<close>)
      from write_main_table_post [OF this] None g ch k w show ?thesis
        by (auto simp: nmbm_update_info_table_once_def Let_def)
    next
      case (Some p)
      with f obtain s e where p: "res = Some (s, e)" "backup_table_ba ni1 \<le> s" "s < e" "e \<le> mapping_blocks_top_ba ni1"
        by (cases p) auto
      let ?ni3 = "nmbm_mark_tables_clean (ni2\<lparr>backup_table_ba := s, mapping_blocks_ba := e\<rparr>)"
      have s: "mgmt_start_ba ni1 \<le> s" "main_table_ba ni1 < s" "main_table_ba ni1 < e" "mgmt_start_ba ni1 \<le> e" "s \<noteq> 0"
        using p b(1) b(8-10) [OF k] by order+
      have "mg_ok Q A ni0 ?ni3"
        by (rule mg_ok_update [OF ad2(1)]) (use ad2 b k s p in \<open>auto simp: order_wf_def\<close>)
      from write_main_table_post [OF this, of s] s(5) g ch k w p show ?thesis
        by (auto simp: nmbm_update_info_table_once_def Let_def)
    qed
  qed
qed

lemma update_loop_returns:
  "mg_ok Q A ni0 ni \<Longrightarrow> returns (update_loop crc ni) (\<lambda>(ok, ni'). mg_ok Q A ni0 ni' \<and>
     (if ok then clean ni' else protected ni'))"
proof (induction "good_left ni" arbitrary: ni rule: less_induct)
  case less
  show ?case
  proof (cases "clean ni")
    case True
    with less.prems show ?thesis by (subst update_loop.simps) (simp add: clean_def)
  next
    case False
    have ok: "mg_ok Q A ni ni" using less.prems by (simp add: mg_ok_def)
    from nmbm_update_info_table_once_post [OF ok, of False crc] False
    obtain r ni1 where o: "nmbm_update_info_table_once crc ni False = Some (r, ni1)"
      and ok1: "mg_ok Q A ni ni1" and st: "r \<Longrightarrow> settled ni ni1" and pr: "\<not> r \<Longrightarrow> protected ni1"
      by (auto simp: returns_iff table_post_def)
    have ok0: "mg_ok Q A ni0 ni1"
      using mg_ok_step [OF less.prems] mg_ok_step [OF ok1] ok1 by (auto simp: mg_ok_def intro: mg_step_trans)
    have eq: "update_loop crc ni = (if r then update_loop crc ni1 else Some (False, ni1))"
      using False o by (subst update_loop.simps) (auto simp: clean_def)
    show ?thesis
    proof (cases "r \<and> \<not> clean ni1")
      case True
      then have "good_left ni1 < good_left ni" using st by (simp add: settled_def)
      from less.hyps [OF this ok0] True show ?thesis by (simp add: eq)
    next
      case False
      then consider "\<not> r" | "r" "clean ni1" by blast
      then show ?thesis
      proof cases
        case 1
        with ok0 pr show ?thesis by (simp add: eq)
      next
        case 2
        with ok0 show ?thesis by (simp add: eq update_loop.simps [of crc ni1] clean_def)
      qed
    qed
  qed
qed

lemma nmbm_update_info_table_returns:
  assumes "mg_ok Q A ni0 ni"
  shows "returns (nmbm_update_info_table crc ni) (\<lambda>(ok, ni'). mg_ok Q A ni0 ni' \<and>
     (if protected ni then ok \<and> ni' = ni else if ok then clean ni' else protected ni'))"
  using assms update_loop_returns [OF assms, of crc]
  by (auto simp: nmbm_update_info_table_def elim!: returns_mono)

end
