(* ===== verification/Nmbm_Map.thy ===== *)
theory Nmbm_Map
  imports Nmbm_Table
begin

text \<open>
  Assigning spare blocks to logic blocks, and setting up the management area on a new chip
  (\<open>nmbm-core.c\<close>, lines 1586 to 1726): \<open>nmbm_map_block\<close>, \<open>nmbm_create_info_table\<close> and
  \<open>nmbm_create_new\<close>.

  Mapping entries are the 32-bit words of the \<open>int32_t\<close> array \<open>block_mapping\<close>; an entry is
  unmapped if it is negative as a signed number.
\<close>

section \<open>Operations\<close>

definition nmbm_map_block ::
  "crc_fn \<Rightarrow> 'd nmbm_instance \<Rightarrow> u32 \<Rightarrow> (bool \<times> 'd nmbm_instance) option" where
  "nmbm_map_block crc ni lb =
     (if mapping_blocks_ba ni = mapping_blocks_top_ba ni then Some (False, ni)
      else do {
        pb \<leftarrow> nmbm_block_walk ni False (mapping_blocks_top_ba ni) 0 (mapping_blocks_ba ni);
        case pb of
          None \<Rightarrow>
            do {
              (_, ni) \<leftarrow> nmbm_update_info_table crc ni;
              Some (False, ni\<lparr>mapping_blocks_top_ba := mapping_blocks_ba ni\<rparr>)
            }
        | Some pb \<Rightarrow>
            do {
              bm \<leftarrow> arr_set (block_mapping ni) (unat lb) pb;
              Some (True, ni\<lparr>block_mapping := bm,
                             mapping_blocks_top_ba := mapping_blocks_top_ba ni - 1,
                             block_mapping_changed := block_mapping_changed ni + 1\<rparr>)
            }
      })"

text \<open>The loop that remaps the end of the data area, up to \<open>limit\<close> = \<open>mgmt_start_ba\<close>.\<close>

function map_tail_loop :: "crc_fn \<Rightarrow> 'd nmbm_instance \<Rightarrow> u32 \<Rightarrow> u32 \<Rightarrow> 'd nmbm_instance option" where
  "map_tail_loop crc ni lb limit =
     (if lb < limit then
        do {
          (success, ni) \<leftarrow> nmbm_map_block crc ni lb;
          if \<not> success then Some ni
          else map_tail_loop crc (ni\<lparr>data_block_count := data_block_count ni + 1\<rparr>) (lb + 1) limit
        }
      else Some ni)"
  by pat_completeness auto
termination
  by (relation "measure (\<lambda>(crc, ni, lb, limit). unat limit - unat lb)") (auto simp: word_less_nat_alt)

declare map_tail_loop.simps [simp del]

definition nmbm_create_info_table ::
  "crc_fn \<Rightarrow> 'd nmbm_instance \<Rightarrow> (bool \<times> 'd nmbm_instance) option" where
  "nmbm_create_info_table crc ni =
     do {
       top_ba \<leftarrow> nmbm_block_walk ni False (signature_ba ni) 1 (mgmt_start_ba ni);
       case top_ba of
         None \<Rightarrow> Some (False, ni)
       | Some top_ba \<Rightarrow>
           do {
             (_, ni) \<leftarrow> nmbm_generate_info_table_cache crc (ni\<lparr>mapping_blocks_top_ba := top_ba\<rparr>);
             (success, ni) \<leftarrow> nmbm_rebuild_info_table ni;
             if \<not> success then Some (False, ni)
             else do {
               ni \<leftarrow> map_tail_loop crc ni (data_block_count ni) (mgmt_start_ba ni);
               nmbm_update_info_table crc ni
             }
           }
     }"

text \<open>The boundary of the management area, in 32-bit arithmetic.\<close>

definition new_mgmt_start_ba :: "'d nmbm_instance \<Rightarrow> u32" where
  "new_mgmt_start_ba ni =
     (let start = block_count ni * (NMBM_MGMT_DIV - max_ratio (lower ni)) div NMBM_MGMT_DIV
      in if max_reserved_blocks (lower ni) \<noteq> 0 \<and> block_count ni - start > max_reserved_blocks (lower ni)
         then block_count ni - max_reserved_blocks (lower ni) else start)"

definition new_signature :: "crc_fn \<Rightarrow> 'd nmbm_instance \<Rightarrow> nmbm_signature option" where
  "new_signature crc ni =
     map_option sig_of_bytes (nmbm_update_checksum crc (sig_bytes
       ((signature ni)\<lparr>sig_header := (sig_header (signature ni))
            \<lparr>magic := NMBM_MAGIC_SIGNATURE, version := NMBM_VER, hdr_size := 48\<rparr>,
          nand_size := nld_size (lower ni), block_size := erasesize (lower ni),
          page_size := writesize (lower ni), spare_size := oobsize (lower ni),
          mgmt_start_pb := mgmt_start_ba ni, max_try_count := of_nat NMBM_TRY_COUNT\<rparr>)))"

definition nmbm_create_new ::
  "crc_fn \<Rightarrow> 'd nmbm_instance \<Rightarrow> (bool \<times> 'd nmbm_instance) option" where
  "nmbm_create_new crc ni =
     do {
       let ni = ni\<lparr>mgmt_start_ba := new_mgmt_start_ba ni\<rparr>;
       ni \<leftarrow> nmbm_scan_badblocks ni;
       ni \<leftarrow> nmbm_build_mapping_table ni;
       sig \<leftarrow> new_signature crc ni;
       let ni = ni\<lparr>signature := sig\<rparr>;
       if read_only ni then Some (True, ni)
       else do {
         (res, ni) \<leftarrow> nmbm_write_signature ni (mgmt_start_ba ni) (signature ni);
         case res of
           None \<Rightarrow> Some (False, ni)
         | Some ba \<Rightarrow> nmbm_create_info_table crc (ni\<lparr>signature_ba := ba\<rparr>)
       }
     }"

section \<open>Contracts\<close>

text \<open>
  From here on an operation may also touch data blocks. \<open>S\<close> is the set of physical blocks it may
  use; it contains the management area. A block of \<open>S\<close> may stop being good, no other block
  changes its state, and no block becomes good.
\<close>

definition worse :: "nat \<Rightarrow> nat set \<Rightarrow> (nat \<Rightarrow> u32) \<Rightarrow> (nat \<Rightarrow> u32) \<Rightarrow> bool" where
  "worse n S f f' \<longleftrightarrow> (\<forall>i < n. f' i = f i \<or> i \<in> S \<and> f' i \<noteq> BLOCK_ST_GOOD)"

definition api_restore :: "'d nmbm_instance \<Rightarrow> 'd nmbm_instance \<Rightarrow> 'd nmbm_instance" where
  "api_restore ni r =
     (mg_restore ni r)\<lparr>block_mapping := block_mapping ni, data_block_count := data_block_count ni,
       mapping_blocks_top_ba := mapping_blocks_top_ba ni\<rparr>"

definition api_step :: "('d \<Rightarrow> bool) \<Rightarrow> nat set \<Rightarrow> 'd nmbm_instance \<Rightarrow> 'd nmbm_instance \<Rightarrow> bool" where
  "api_step Q S ni ni' \<longleftrightarrow>
     api_restore ni ni' = ni \<and>
     length (page_cache ni') = length (page_cache ni) \<and>
     length (block_state ni') = length (block_state ni) \<and>
     length (info_table_cache ni') = length (info_table_cache ni) \<and>
     length (block_mapping ni') = length (block_mapping ni) \<and>
     state_table_off (info_table ni') = state_table_off (info_table ni) \<and>
     mapping_table_off (info_table ni') = mapping_table_off (info_table ni) \<and>
     mapping_blocks_top_ba ni' \<le> mapping_blocks_top_ba ni \<and>
     (Q (dev ni) \<longrightarrow> Q (dev ni')) \<and>
     worse (16 * length (block_state ni)) S (st_of (block_state ni)) (st_of (block_state ni'))"

definition map_wf :: "'d nmbm_instance \<Rightarrow> bool" where
  "map_wf ni \<longleftrightarrow>
     length (block_mapping ni) = unat (block_count ni) \<and> data_block_count ni \<le> block_count ni \<and>
     (\<forall>pb \<in> set (block_mapping ni). sint pb < 0 \<or> pb < block_count ni)"

definition api_ctx ::
  "('d \<Rightarrow> bool) \<Rightarrow> (u64 \<Rightarrow> bool) \<Rightarrow> nat set \<Rightarrow> 'd nmbm_instance \<Rightarrow> bool" where
  "api_ctx Q A S ni \<longleftrightarrow>
     dev_wf ni \<and> geom_wf ni \<and> table_wf ni \<and> order_wf ni \<and> map_wf ni \<and> dev_frame (lower ni) Q A \<and>
     (\<forall>b :: u32. unat b \<in> S \<longrightarrow> blk_allowed A ni b) \<and>
     {unat (mgmt_start_ba ni)..unat (mapping_blocks_top_ba ni)} \<subseteq> S"

definition api_ok ::
  "('d \<Rightarrow> bool) \<Rightarrow> (u64 \<Rightarrow> bool) \<Rightarrow> nat set \<Rightarrow> 'd nmbm_instance \<Rightarrow> 'd nmbm_instance \<Rightarrow> bool" where
  "api_ok Q A S ni0 ni \<longleftrightarrow> api_ctx Q A S ni \<and> api_step Q S ni0 ni"

lemma worse_refl [simp]: "worse n S f f"
  by (simp add: worse_def)

lemma worse_trans: "worse n S f g \<Longrightarrow> worse n S g h \<Longrightarrow> worse n S f h"
  unfolding worse_def by metis

lemma degrades_worse: "degrades n lo hi f g \<Longrightarrow> {lo..<hi} \<subseteq> S \<Longrightarrow> worse n S f g"
  unfolding degrades_def worse_def by fastforce

lemma api_step_refl [simp]: "api_step Q S ni ni"
  by (simp add: api_step_def api_restore_def mg_restore_def)

lemma api_step_same: "api_step Q S ni ni' \<Longrightarrow> (\<And>r. f (api_restore ni r) = f r) \<Longrightarrow> f ni' = f ni"
  by (metis api_step_def)

lemma api_step_fields:
  assumes "api_step Q S ni ni'"
  shows "lower ni' = lower ni" and "block_count ni' = block_count ni"
    and "erasesize_shift ni' = erasesize_shift ni" and "read_only ni' = read_only ni"
    and "ba2addr ni' = ba2addr ni" and "addr2ba ni' = addr2ba ni" and "size2blk ni' = size2blk ni"
    and "blk_allowed A ni' = blk_allowed A ni" and "info_table_size ni' = info_table_size ni"
    and "mgmt_start_ba ni' = mgmt_start_ba ni"
    and "signature_ba ni' = signature_ba ni" and "signature ni' = signature ni"
    and "geom_wf ni' = geom_wf ni" and "state_table_size ni' = state_table_size ni"
    and "mapping_table_size ni' = mapping_table_size ni" and "rawpage_size ni' = rawpage_size ni"
    and "writesize_mask ni' = writesize_mask ni" and "erasesize_mask ni' = erasesize_mask ni"
  by (rule api_step_same [OF assms], simp add: api_restore_def mg_restore_def read_only_def ba2addr_def
      addr2ba_def size2blk_def blk_allowed_def geom_wf_def fun_eq_iff)+

lemma api_step_wf:
  assumes "api_step Q S ni ni'"
  shows "length (block_state ni') = length (block_state ni)"
    and "length (block_mapping ni') = length (block_mapping ni)"
    and "length (page_cache ni') = length (page_cache ni)"
    and "dev_wf ni' = dev_wf ni" and "table_wf ni \<Longrightarrow> table_wf ni'"
    and "mapping_blocks_top_ba ni' \<le> mapping_blocks_top_ba ni"
  using assms api_step_fields [OF assms]
  by (auto simp: api_step_def dev_wf_def table_wf_def)

lemma api_restore_trans: "api_restore a b = a \<Longrightarrow> api_restore b c = b \<Longrightarrow> api_restore a c = a"
  by (cases a; cases b; cases c) (simp add: api_restore_def mg_restore_def)

lemma api_step_trans:
  assumes "api_step Q S a b" and "api_step Q S b c"
  shows "api_step Q S a c"
  using assms by (auto simp: api_step_def intro: api_restore_trans worse_trans)

lemma mg_step_api_step:
  assumes "mg_step Q ni ni'" and "{unat (mgmt_start_ba ni)..unat (mapping_blocks_top_ba ni)} \<subseteq> S"
  shows "api_step Q S ni ni'"
proof -
  have "api_restore ni ni' = ni"
    using assms(1) mg_step_fields [OF assms(1)] by (simp add: api_restore_def mg_step_def)
  moreover have "worse (16 * length (block_state ni)) S (st_of (block_state ni)) (st_of (block_state ni'))"
    using assms by (intro degrades_worse) (auto simp: mg_step_def)
  ultimately show ?thesis
    using assms(1) mg_step_fields [OF assms(1)] by (simp add: api_step_def mg_step_def)
qed

lemma api_ctx_mg_ok: "api_ctx Q A S ni \<Longrightarrow> mg_ok Q A ni ni"
  by (simp add: api_ctx_def mg_ok_def op_ctx_def table_wf_def word_less_nat_alt subset_iff)

lemma map_wf_mg_step: "mg_step Q ni ni' \<Longrightarrow> map_wf ni' = map_wf ni"
  by (simp add: map_wf_def mg_step_fields)

lemma api_ok_update:
  assumes ok: "api_ok Q A S ni0 ni" and st: "api_step Q S ni ni'" and "order_wf ni'" and "map_wf ni'"
  shows "api_ok Q A S ni0 ni'"
proof -
  note f = api_step_fields [OF st] and w = api_step_wf [OF st]
  have "{unat (mgmt_start_ba ni')..unat (mapping_blocks_top_ba ni')} \<subseteq> S"
    using ok w(6) by (auto simp: api_ok_def api_ctx_def f word_le_nat_alt)
  with assms(3,4) ok w show ?thesis
    by (auto simp: api_ok_def api_ctx_def f intro: api_step_trans [OF _ st])
qed

lemma api_ok_mg:
  assumes ok: "api_ok Q A S ni0 ni" and mg: "mg_ok Q A ni ni'"
  shows "api_ok Q A S ni0 ni'"
proof (rule api_ok_update [OF ok])
  have m: "mg_step Q ni ni'" using mg by (simp add: mg_ok_def)
  show "api_step Q S ni ni'"
    by (rule mg_step_api_step [OF m]) (use ok in \<open>simp add: api_ok_def api_ctx_def\<close>)
  show "order_wf ni'" using mg by (simp add: mg_ok_def)
  show "map_wf ni'" using ok by (simp add: map_wf_mg_step [OF m] api_ok_def api_ctx_def)
qed

lemma api_okD:
  assumes "api_ok Q A S ni0 ni"
  shows "api_ctx Q A S ni" and "dev_wf ni" and "geom_wf ni" and "table_wf ni" and "order_wf ni" and "map_wf ni"
    and "dev_frame (lower ni) Q A" and "mg_ok Q A ni ni" and "api_step Q S ni0 ni"
    and "unat b \<in> S \<Longrightarrow> blk_allowed A ni b"
  using assms api_ctx_mg_ok [of Q A S ni] by (auto simp: api_ok_def api_ctx_def)

lemma api_ok_refl: "api_ctx Q A S ni \<Longrightarrow> api_ok Q A S ni ni"
  by (simp add: api_ok_def)

lemma update_info_table_api:
  assumes "api_ok Q A S ni0 ni"
  shows "returns (nmbm_update_info_table crc ni) (\<lambda>(ok, ni'). api_ok Q A S ni0 ni' \<and> mg_step Q ni ni')"
  using nmbm_update_info_table_returns [OF api_okD(8) [OF assms], of crc]
  by (rule returns_mono) (use api_ok_mg [OF assms] in \<open>auto simp: mg_ok_def\<close>)

lemma sorted_le_last: "sorted xs \<Longrightarrow> (x :: nat) \<in> set xs \<Longrightarrow> x \<le> last xs"
  by (cases xs rule: rev_cases) (auto simp: sorted_append)

lemma block_walk_desc_0:
  assumes "unat ba < 16 * length (block_state ni)" and "limit < block_count ni"
  shows "returns (nmbm_block_walk ni False ba 0 limit) (\<lambda>res. case res of
      None \<Rightarrow> \<forall>b. limit < b \<and> b \<le> ba \<longrightarrow> \<not> good_at ni b
    | Some pb \<Rightarrow> limit < pb \<and> pb \<le> ba \<and> good_at ni pb \<and> (\<forall>b. pb < b \<and> b \<le> ba \<longrightarrow> \<not> good_at ni b))"
proof -
  let ?gs = "good_blocks (block_state ni) (Suc (unat limit)) (Suc (unat ba))"
  have mem: "i \<in> set ?gs \<longleftrightarrow> unat limit < i \<and> i \<le> unat ba \<and> st_of (block_state ni) i = BLOCK_ST_GOOD" for i
    by (auto simp: good_blocks_def)
  have eq: "nmbm_block_walk ni False ba 0 limit = Some (map_option of_nat (arr_get (rev ?gs) 0))"
    using walk_desc_loop_eq [of 0 ba ni limit] assms
    by (simp add: nmbm_block_walk_def nmbm_block_walk_desc_def not_le [symmetric])
  show ?thesis
  proof (cases "?gs = []")
    case True
    then have "\<not> good_at ni b" if "limit < b" "b \<le> ba" for b
      using mem [of "unat b"] that by (simp add: word_less_nat_alt word_le_nat_alt)
    with True eq show ?thesis by (simp add: arr_get_def)
  next
    case False
    then have l: "last ?gs \<in> set ?gs" by simp
    have max: "i \<le> last ?gs" if "i \<in> set ?gs" for i
      using that by (rule sorted_le_last [rotated]) simp
    have u: "unat (of_nat (last ?gs) :: u32) = last ?gs"
      using l [unfolded mem] unat_u32_less [of ba] by (intro unat_of_nat_small) simp
    have "\<not> good_at ni b" if "of_nat (last ?gs) < b" "b \<le> ba" for b
      using mem [of "unat b"] max [of "unat b"] that l [unfolded mem] u
      by (auto simp: word_less_nat_alt word_le_nat_alt)
    with l [unfolded mem] u show ?thesis
      using eq False by (simp add: arr_get_def rev_nth last_conv_nth word_less_nat_alt word_le_nat_alt)
  qed
qed

text \<open>
  \<open>nmbm_map_block\<close> gives a logic block the highest good block of the free area and takes one
  block off that area. When there is none it gives up the free area.
\<close>

definition map_post ::
  "('d \<Rightarrow> bool) \<Rightarrow> (u64 \<Rightarrow> bool) \<Rightarrow> nat set \<Rightarrow> 'd nmbm_instance \<Rightarrow> 'd nmbm_instance \<Rightarrow> u32
     \<Rightarrow> bool \<times> 'd nmbm_instance \<Rightarrow> bool" where
  "map_post Q A S ni0 ni lb = (\<lambda>(ok, ni'). api_ok Q A S ni0 ni' \<and>
     data_block_count ni' = data_block_count ni \<and>
     (if ok then
        mapping_blocks_top_ba ni' = mapping_blocks_top_ba ni - 1 \<and>
        mapping_blocks_top_ba ni' < mapping_blocks_top_ba ni \<and> block_state ni' = block_state ni \<and>
        (\<exists>pb. block_mapping ni' = (block_mapping ni)[unat lb := pb] \<and> good_at ni pb \<and>
           mapping_blocks_ba ni < pb \<and> pb \<le> mapping_blocks_top_ba ni \<and>
           (\<forall>b. pb < b \<and> b \<le> mapping_blocks_top_ba ni \<longrightarrow> \<not> good_at ni b))
      else block_mapping ni' = block_mapping ni \<and> mapping_blocks_top_ba ni' = mapping_blocks_ba ni'))"

lemma nmbm_map_block_post:
  assumes ok: "api_ok Q A S ni0 ni" and lb: "unat lb < length (block_mapping ni)"
  shows "returns (nmbm_map_block crc ni lb) (map_post Q A S ni0 ni lb)"
proof (cases "mapping_blocks_ba ni = mapping_blocks_top_ba ni")
  case True
  with ok show ?thesis by (simp add: nmbm_map_block_def map_post_def)
next
  case False
  have wf: "mapping_blocks_top_ba ni < block_count ni" "unat (block_count ni) \<le> 16 * length (block_state ni)"
    using api_okD(4) [OF ok] by (simp_all add: table_wf_def)
  then have b3: "unat (mapping_blocks_top_ba ni) < 16 * length (block_state ni)"
    by (simp add: word_less_nat_alt)
  have b1: "mapping_blocks_ba ni < mapping_blocks_top_ba ni"
    using mg_ok_bounds(3) [OF api_okD(8) [OF ok]] False by order
  note b = b1 wf(1) b3
  have u: "unat (mapping_blocks_top_ba ni - 1) = unat (mapping_blocks_top_ba ni) - 1"
    using b(1) by (intro unat_minus_one) auto
  have "mapping_blocks_ba ni < block_count ni" using b by order
  from block_walk_desc_0 [OF b(3) this] obtain res
    where w: "nmbm_block_walk ni False (mapping_blocks_top_ba ni) 0 (mapping_blocks_ba ni) = Some res"
    and r: "case res of None \<Rightarrow> \<forall>b. mapping_blocks_ba ni < b \<and> b \<le> mapping_blocks_top_ba ni \<longrightarrow> \<not> good_at ni b
      | Some pb \<Rightarrow> mapping_blocks_ba ni < pb \<and> pb \<le> mapping_blocks_top_ba ni \<and> good_at ni pb \<and>
          (\<forall>b. pb < b \<and> b \<le> mapping_blocks_top_ba ni \<longrightarrow> \<not> good_at ni b)"
    by (rule returnsE)
  show ?thesis
  proof (cases res)
    case None
    from update_info_table_api [OF ok, of crc] obtain r ni1
      where e: "nmbm_update_info_table crc ni = Some (r, ni1)" and ok1: "api_ok Q A S ni0 ni1" and m: "mg_step Q ni ni1"
      by (auto simp: returns_iff)
    let ?ni2 = "ni1\<lparr>mapping_blocks_top_ba := mapping_blocks_ba ni1\<rparr>"
    have "api_ok Q A S ni0 ?ni2"
      by (rule api_ok_update [OF ok1])
        (use api_okD(5,6) [OF ok1] in \<open>auto simp: api_step_def api_restore_def mg_restore_def order_wf_def map_wf_def\<close>)
    with False w None e show ?thesis
      by (simp add: nmbm_map_block_def map_post_def mg_step_fields [OF m])
  next
    case (Some pb)
    let ?ni1 = "ni\<lparr>block_mapping := (block_mapping ni)[unat lb := pb],
        mapping_blocks_top_ba := mapping_blocks_top_ba ni - 1,
        block_mapping_changed := block_mapping_changed ni + 1\<rparr>"
    have lt: "mapping_blocks_top_ba ni - 1 < mapping_blocks_top_ba ni"
      and le: "mapping_blocks_ba ni \<le> mapping_blocks_top_ba ni - 1"
      using u b(1) by (auto simp: word_less_nat_alt word_le_nat_alt)
    have "pb < block_count ni" using r Some b(2) by auto
    then have "map_wf ?ni1"
      using api_okD(6) [OF ok] set_update_subset_insert [of "block_mapping ni" "unat lb" pb]
      by (auto simp: map_wf_def)
    then have "api_ok Q A S ni0 ?ni1"
      by (intro api_ok_update [OF ok])
        (use api_okD(5) [OF ok] lt le in \<open>auto simp: api_step_def api_restore_def mg_restore_def order_wf_def\<close>)
    with False w Some r lb lt show ?thesis
      by (auto simp: nmbm_map_block_def map_post_def arr_set_def)
  qed
qed

text \<open>
  The free area shrinks by one block only, also when bad blocks were skipped. The next call then
  finds the same block again.
\<close>

lemma map_block_Some:
  assumes "nmbm_map_block crc ni lb = Some (True, ni1)"
  obtains pb where "nmbm_block_walk ni False (mapping_blocks_top_ba ni) 0 (mapping_blocks_ba ni) = Some (Some pb)"
    and "unat lb < length (block_mapping ni)"
    and "ni1 = ni\<lparr>block_mapping := (block_mapping ni)[unat lb := pb],
           mapping_blocks_top_ba := mapping_blocks_top_ba ni - 1,
           block_mapping_changed := block_mapping_changed ni + 1\<rparr>"
  using assms that
  by (auto simp: nmbm_map_block_def arr_set_def Option.bind_eq_Some_conv split: if_splits option.splits prod.splits)

lemma map_block_twice:
  assumes wf: "table_wf ni" "order_wf ni" and first: "nmbm_map_block crc ni lb = Some (True, ni1)"
    and bad: "\<not> good_at ni (mapping_blocks_top_ba ni)" and lb2: "unat lb2 < length (block_mapping ni)"
  shows "\<exists>ni2. nmbm_map_block crc ni1 lb2 = Some (True, ni2) \<and>
    block_mapping ni2 ! unat lb2 = block_mapping ni1 ! unat lb"
proof -
  let ?m = "mapping_blocks_ba ni" and ?t = "mapping_blocks_top_ba ni"
  from first obtain pb where w: "nmbm_block_walk ni False ?t 0 ?m = Some (Some pb)" and lb: "unat lb < length (block_mapping ni)"
    and n1: "ni1 = ni\<lparr>block_mapping := (block_mapping ni)[unat lb := pb], mapping_blocks_top_ba := ?t - 1,
       block_mapping_changed := block_mapping_changed ni + 1\<rparr>"
    by (rule map_block_Some)
  have len: "unat ?t < 16 * length (block_state ni)" and mb: "?m < block_count ni"
    using wf by (auto simp: table_wf_def order_wf_def word_less_nat_alt word_le_nat_alt)
  from block_walk_desc_0 [OF len mb] w have p: "?m < pb" "pb \<le> ?t" "good_at ni pb" "\<forall>b. pb < b \<and> b \<le> ?t \<longrightarrow> \<not> good_at ni b"
    by auto
  have "pb \<noteq> ?t" using p(3) bad by auto
  then have lt: "pb < ?t" using p(2) by simp
  then have u: "unat (?t - 1) = unat ?t - 1" by (intro unat_minus_one) auto
  then have le: "pb \<le> ?t - 1" "?t - 1 \<le> ?t" using lt by (auto simp: word_less_nat_alt word_le_nat_alt)
  have "unat (?t - 1) < 16 * length (block_state ni1)" using u len by (simp add: n1)
  moreover have "?m < block_count ni1" using mb by (simp add: n1)
  ultimately obtain res where w2: "nmbm_block_walk ni1 False (?t - 1) 0 ?m = Some res"
    and r: "case res of None \<Rightarrow> \<forall>b. ?m < b \<and> b \<le> ?t - 1 \<longrightarrow> \<not> good_at ni1 b
      | Some q \<Rightarrow> ?m < q \<and> q \<le> ?t - 1 \<and> good_at ni1 q \<and> (\<forall>b. q < b \<and> b \<le> ?t - 1 \<longrightarrow> \<not> good_at ni1 b)"
    by (rule returnsE [OF block_walk_desc_0])
  have "good_at ni1 pb" using p(3) by (simp add: n1)
  with r p(1) le(1) obtain q where q: "res = Some q" "q \<le> ?t - 1" "good_at ni1 q" "\<not> q < pb"
    by (cases res) auto
  have "\<not> pb < q" using p(4) q(2,3) le(2) by (auto simp: n1 dest: order_trans)
  with q have "q = pb" by simp
  moreover have "?m \<noteq> ?t - 1" using p(1) le(1) by auto
  ultimately show ?thesis
    using w2 q lb lb2 by (auto simp: nmbm_map_block_def n1 arr_set_def)
qed

end
