(* ===== verification/Nmbm_Logic.thy ===== *)
theory Nmbm_Logic
  imports Nmbm_Map
begin

text \<open>
  The operations on logic addresses that NMBM offers to the layer above (\<open>nmbm-core.c\<close>, lines
  2400 to 2934): erasing with remapping, reading and writing pages and ranges, checking and
  marking bad blocks.

  \<open>size_t\<close> is 64 bits wide. What is stored through \<open>retlen\<close> or \<open>failed_addr\<close> is part of the
  result, \<open>None\<close> if nothing is stored. The test for a \<open>NULL\<close> instance has no counterpart: an
  instance is a value here.
\<close>

section \<open>Erasing\<close>

text \<open>The part of \<open>nmbm_erase_logic_block\<close> before the label \<open>remap_logic_block\<close>.\<close>

definition erase_mapped_block ::
  "'d nmbm_instance \<Rightarrow> u32 \<Rightarrow> (bool \<times> 'd nmbm_instance) option" where
  "erase_mapped_block ni pb =
     do {
       st \<leftarrow> nmbm_get_block_state ni pb;
       if st = BLOCK_ST_BAD \<or> st = BLOCK_ST_NEED_REMAP then Some (False, ni)
       else do {
         (bad, ni) \<leftarrow> nmbm_check_bad_phys_block ni pb;
         if bad then do { (_, ni) \<leftarrow> nmbm_set_block_state ni pb BLOCK_ST_BAD; Some (False, ni) }
         else do {
           (success, ni) \<leftarrow> nmbm_erase_block_and_check ni pb;
           if success then Some (True, ni)
           else do { ni \<leftarrow> skip_bad_block ni pb; Some (False, ni) }
         }
       }
     }"

definition retire_block :: "'d nmbm_instance \<Rightarrow> u32 \<Rightarrow> 'd nmbm_instance option" where
  "retire_block ni pb =
     do {
       st \<leftarrow> nmbm_get_block_state ni pb;
       if st \<noteq> BLOCK_ST_NEED_REMAP
       then map_option snd (nmbm_set_block_state ni pb BLOCK_ST_BAD)
       else Some ni
     }"

partial_function (option) nmbm_erase_logic_block ::
  "crc_fn \<Rightarrow> 'd nmbm_instance \<Rightarrow> u32 \<Rightarrow> (int \<times> 'd nmbm_instance) option" where
  "nmbm_erase_logic_block crc ni block_addr =
     do {
       pb \<leftarrow> arr_get (block_mapping ni) (unat block_addr);
       if sint pb < 0 then Some (- EIO, ni)
       else do {
         (erased, ni) \<leftarrow> erase_mapped_block ni pb;
         if erased then Some (0, ni)
         else do {
           (success, ni) \<leftarrow> nmbm_map_block crc ni block_addr;
           if \<not> success then
             do {
               bm \<leftarrow> arr_set (block_mapping ni) (unat block_addr) (- 1);
               ni \<leftarrow> retire_block (ni\<lparr>block_mapping := bm\<rparr>) pb;
               (_, ni) \<leftarrow> nmbm_update_info_table crc ni;
               Some (- EIO, ni)
             }
           else
             do {
               ni \<leftarrow> retire_block ni pb;
               (_, ni) \<leftarrow> nmbm_update_info_table crc ni;
               nmbm_erase_logic_block crc ni block_addr
             }
         }
       }
     }"

text \<open>The loop over \<open>start_ba <= end_ba\<close>; with \<open>end_ba\<close> = \<open>UINT32_MAX\<close> it would not end.\<close>

partial_function (option) erase_blocks_loop ::
  "crc_fn \<Rightarrow> 'd nmbm_instance \<Rightarrow> u32 \<Rightarrow> u32 \<Rightarrow> (int \<times> u64 option \<times> 'd nmbm_instance) option" where
  "erase_blocks_loop crc ni start_ba end_ba =
     (if start_ba \<le> end_ba then
        do {
          (ret, ni) \<leftarrow> nmbm_erase_logic_block crc ni start_ba;
          if ret \<noteq> 0 then Some (ret, Some (ba2addr ni start_ba), ni)
          else erase_blocks_loop crc ni (start_ba + 1) end_ba
        }
      else Some (0, None, ni))"

definition nmbm_erase_block_range ::
  "crc_fn \<Rightarrow> 'd nmbm_instance \<Rightarrow> u64 \<Rightarrow> u64 \<Rightarrow> (int \<times> u64 option \<times> 'd nmbm_instance) option" where
  "nmbm_erase_block_range crc ni addr sz =
     (if protected ni \<or> read_only ni then Some (- EROFS, None, ni)
      else if addr \<ge> ba2addr ni (data_block_count ni) then Some (- EINVAL, None, ni)
      else if addr + sz > ba2addr ni (data_block_count ni) then Some (- EINVAL, None, ni)
      else if sz = 0 then Some (0, None, ni)
      else erase_blocks_loop crc ni (addr2ba ni addr) (addr2ba ni (addr + sz - 1)))"

section \<open>Reading\<close>

definition logic_offset :: "'d nmbm_instance \<Rightarrow> u64 \<Rightarrow> u32" where
  "logic_offset ni addr = ucast (addr AND ucast (erasesize_mask ni))"

definition nmbm_read_logic_page ::
  "'d nmbm_instance \<Rightarrow> u64 \<Rightarrow> bytes option \<Rightarrow> bytes option \<Rightarrow> nmbm_oob_mode
     \<Rightarrow> (int \<times> bytes option \<times> bytes option \<times> 'd nmbm_instance) option" where
  "nmbm_read_logic_page ni addr data oob mode =
     do {
       pb \<leftarrow> arr_get (block_mapping ni) (unat (addr2ba ni addr));
       if sint pb < 0 then Some (- EIO, data, oob, ni)
       else do {
         st \<leftarrow> nmbm_get_block_state ni pb;
         if st = BLOCK_ST_BAD then Some (- EIO, data, oob, ni)
         else nmbm_read_phys_page ni (ba2addr ni pb + ucast (logic_offset ni addr)) data oob mode
       }
     }"

definition nmbm_read_single_page ::
  "'d nmbm_instance \<Rightarrow> u64 \<Rightarrow> bytes option \<Rightarrow> bytes option \<Rightarrow> nmbm_oob_mode
     \<Rightarrow> (int \<times> bytes option \<times> bytes option \<times> 'd nmbm_instance) option" where
  "nmbm_read_single_page ni addr data oob mode =
     (if protected ni then Some (- EROFS, data, oob, ni)
      else if addr \<ge> ba2addr ni (data_block_count ni) then Some (- EINVAL, data, oob, ni)
      else nmbm_read_logic_page ni addr data oob mode)"

definition range_leading :: "'d nmbm_instance \<Rightarrow> u64 \<Rightarrow> u64" where
  "range_leading ni off = off AND ucast (writesize_mask ni)"

definition range_chunk :: "'d nmbm_instance \<Rightarrow> u64 \<Rightarrow> u64 \<Rightarrow> u64" where
  "range_chunk ni off sizeremain =
     (let chunksize = ucast (writesize (lower ni)) - range_leading ni off
      in if chunksize > sizeremain then sizeremain else chunksize)"

text \<open>One round: the page is read into the caller's buffer, or through the page cache.\<close>

definition read_range_page ::
  "'d nmbm_instance \<Rightarrow> bytes \<Rightarrow> nat \<Rightarrow> u64 \<Rightarrow> u64 \<Rightarrow> nmbm_oob_mode
     \<Rightarrow> (int \<times> bytes \<times> 'd nmbm_instance) option" where
  "read_range_page ni data pos off sizeremain mode =
     (let leading = range_leading ni off; chunksize = range_chunk ni off sizeremain in
      if chunksize = ucast (writesize (lower ni)) then
        do {
          buf \<leftarrow> mem_read data pos (unat (writesize (lower ni)));
          (ret, b, _, ni) \<leftarrow> nmbm_read_logic_page ni (off - leading) (Some buf) None mode;
          data \<leftarrow> mem_write data pos (case b of None \<Rightarrow> [] | Some b \<Rightarrow> b);
          Some (ret, data, ni)
        }
      else
        do {
          buf \<leftarrow> mem_read (page_cache ni) 0 (unat (writesize (lower ni)));
          (ret, b, _, ni) \<leftarrow> nmbm_read_logic_page ni (off - leading) (Some buf) None mode;
          pc \<leftarrow> mem_write (page_cache ni) 0 (case b of None \<Rightarrow> [] | Some b \<Rightarrow> b);
          let ni = ni\<lparr>page_cache := pc\<rparr>;
          if ret < 0 \<and> ret \<noteq> - EBADMSG then Some (ret, data, ni)
          else do {
            c \<leftarrow> mem_read (page_cache ni) (unat leading) (unat chunksize);
            data \<leftarrow> mem_write data pos c;
            Some (ret, data, ni)
          }
        })"

partial_function (option) read_range_loop ::
  "'d nmbm_instance \<Rightarrow> bytes \<Rightarrow> nat \<Rightarrow> u64 \<Rightarrow> u64 \<Rightarrow> nmbm_oob_mode \<Rightarrow> int \<Rightarrow> bool \<Rightarrow> int
     \<Rightarrow> (int \<times> bool \<times> int \<times> bytes \<times> u64 \<times> 'd nmbm_instance) option" where
  "read_range_loop ni data pos off sizeremain mode ret has_ecc_err max_bitflips =
     (if sizeremain = 0 then Some (ret, has_ecc_err, max_bitflips, data, sizeremain, ni)
      else let chunksize = range_chunk ni off sizeremain in
        do {
          (ret, data, ni) \<leftarrow> read_range_page ni data pos off sizeremain mode;
          if ret < 0 \<and> ret \<noteq> - EBADMSG
          then Some (ret, has_ecc_err, max_bitflips, data, sizeremain, ni)
          else read_range_loop ni data (pos + unat chunksize) (off + chunksize)
                 (sizeremain - chunksize) mode ret (has_ecc_err \<or> ret = - EBADMSG)
                 (if ret > max_bitflips then ret else max_bitflips)
        })"

definition nmbm_read_range ::
  "'d nmbm_instance \<Rightarrow> u64 \<Rightarrow> u64 \<Rightarrow> bytes \<Rightarrow> nmbm_oob_mode
     \<Rightarrow> (int \<times> u64 option \<times> bytes \<times> 'd nmbm_instance) option" where
  "nmbm_read_range ni addr sz data mode =
     (if protected ni then Some (- EROFS, None, data, ni)
      else if addr \<ge> ba2addr ni (data_block_count ni) then Some (- EINVAL, None, data, ni)
      else if addr + sz > ba2addr ni (data_block_count ni) then Some (- EINVAL, None, data, ni)
      else if sz = 0 then Some (0, None, data, ni)
      else do {
        (ret, has_ecc_err, max_bitflips, data, sizeremain, ni) \<leftarrow>
          read_range_loop ni data 0 addr sz mode 0 False 0;
        let ret = (if ret < 0 \<and> ret \<noteq> - EBADMSG then ret
                   else if has_ecc_err then - EBADMSG else max_bitflips);
        Some (ret, Some (sz - sizeremain), data, ni)
      })"

section \<open>Writing\<close>

definition nmbm_write_logic_page ::
  "crc_fn \<Rightarrow> 'd nmbm_instance \<Rightarrow> u64 \<Rightarrow> bytes option \<Rightarrow> bytes option \<Rightarrow> nmbm_oob_mode
     \<Rightarrow> (int \<times> 'd nmbm_instance) option" where
  "nmbm_write_logic_page crc ni addr data oob mode =
     do {
       pb \<leftarrow> arr_get (block_mapping ni) (unat (addr2ba ni addr));
       if sint pb < 0 then Some (- EIO, ni)
       else do {
         st \<leftarrow> nmbm_get_block_state ni pb;
         if st = BLOCK_ST_BAD then Some (- EIO, ni)
         else do {
           (success, ni) \<leftarrow> nmbm_write_phys_page ni (ba2addr ni pb + ucast (logic_offset ni addr))
                              data oob mode;
           if success then Some (0, ni)
           else do {
             (_, ni) \<leftarrow> nmbm_set_block_state ni pb BLOCK_ST_NEED_REMAP;
             (_, ni) \<leftarrow> nmbm_update_info_table crc ni;
             Some (- EIO, ni)
           }
         }
       }
     }"

definition nmbm_write_single_page ::
  "crc_fn \<Rightarrow> 'd nmbm_instance \<Rightarrow> u64 \<Rightarrow> bytes option \<Rightarrow> bytes option \<Rightarrow> nmbm_oob_mode
     \<Rightarrow> (int \<times> 'd nmbm_instance) option" where
  "nmbm_write_single_page crc ni addr data oob mode =
     (if protected ni \<or> read_only ni then Some (- EROFS, ni)
      else if addr \<ge> ba2addr ni (data_block_count ni) then Some (- EINVAL, ni)
      else nmbm_write_logic_page crc ni addr data oob mode)"

text \<open>
  One round. In the partial case only the bytes before \<open>leading\<close> are set to 0xff: what follows
  the chunk in the page cache is written as it is.
\<close>

definition write_range_page ::
  "crc_fn \<Rightarrow> 'd nmbm_instance \<Rightarrow> bytes \<Rightarrow> nat \<Rightarrow> u64 \<Rightarrow> u64 \<Rightarrow> nmbm_oob_mode
     \<Rightarrow> (int \<times> 'd nmbm_instance) option" where
  "write_range_page crc ni data pos off sizeremain mode =
     (let leading = range_leading ni off; chunksize = range_chunk ni off sizeremain in
      if chunksize = ucast (writesize (lower ni)) then
        do {
          buf \<leftarrow> mem_read data pos (unat (writesize (lower ni)));
          nmbm_write_logic_page crc ni (off - leading) (Some buf) None mode
        }
      else
        do {
          pc \<leftarrow> mem_write (page_cache ni) 0 (replicate (unat leading) 0xff);
          c \<leftarrow> mem_read data pos (unat chunksize);
          pc \<leftarrow> mem_write pc (unat leading) c;
          let ni = ni\<lparr>page_cache := pc\<rparr>;
          buf \<leftarrow> mem_read (page_cache ni) 0 (unat (writesize (lower ni)));
          nmbm_write_logic_page crc ni (off - leading) (Some buf) None mode
        })"

partial_function (option) write_range_loop ::
  "crc_fn \<Rightarrow> 'd nmbm_instance \<Rightarrow> bytes \<Rightarrow> nat \<Rightarrow> u64 \<Rightarrow> u64 \<Rightarrow> nmbm_oob_mode \<Rightarrow> int
     \<Rightarrow> (int \<times> u64 \<times> 'd nmbm_instance) option" where
  "write_range_loop crc ni data pos off sizeremain mode ret =
     (if sizeremain = 0 then Some (ret, sizeremain, ni)
      else let chunksize = range_chunk ni off sizeremain in
        do {
          (ret, ni) \<leftarrow> write_range_page crc ni data pos off sizeremain mode;
          if ret \<noteq> 0 then Some (ret, sizeremain, ni)
          else write_range_loop crc ni data (pos + unat chunksize) (off + chunksize)
                 (sizeremain - chunksize) mode ret
        })"

definition nmbm_write_range ::
  "crc_fn \<Rightarrow> 'd nmbm_instance \<Rightarrow> u64 \<Rightarrow> u64 \<Rightarrow> bytes \<Rightarrow> nmbm_oob_mode
     \<Rightarrow> (int \<times> u64 option \<times> 'd nmbm_instance) option" where
  "nmbm_write_range crc ni addr sz data mode =
     (if protected ni \<or> read_only ni then Some (- EROFS, None, ni)
      else if addr \<ge> ba2addr ni (data_block_count ni) then Some (- EINVAL, None, ni)
      else if addr + sz > ba2addr ni (data_block_count ni) then Some (- EINVAL, None, ni)
      else if sz = 0 then Some (0, None, ni)
      else do {
        (ret, sizeremain, ni) \<leftarrow> write_range_loop crc ni data 0 addr sz mode 0;
        Some (ret, Some (sz - sizeremain), ni)
      })"

section \<open>Bad blocks, size\<close>

definition nmbm_check_bad_block :: "'d nmbm_instance \<Rightarrow> u64 \<Rightarrow> int option" where
  "nmbm_check_bad_block ni addr =
     (if addr \<ge> ba2addr ni (data_block_count ni) then Some (- EINVAL)
      else do {
        pb \<leftarrow> arr_get (block_mapping ni) (unat (addr2ba ni addr));
        if sint pb < 0 then Some 1
        else do {
          st \<leftarrow> nmbm_get_block_state ni pb;
          Some (if st = BLOCK_ST_BAD then 1 else 0)
        }
      })"

definition nmbm_mark_bad_block ::
  "crc_fn \<Rightarrow> 'd nmbm_instance \<Rightarrow> u64 \<Rightarrow> (int \<times> 'd nmbm_instance) option" where
  "nmbm_mark_bad_block crc ni addr =
     (if protected ni \<or> read_only ni then Some (- EROFS, ni)
      else if addr \<ge> ba2addr ni (data_block_count ni) then Some (- EINVAL, ni)
      else do {
        let lb = addr2ba ni addr;
        pb \<leftarrow> arr_get (block_mapping ni) (unat lb);
        if sint pb < 0 then Some (0, ni)
        else do {
          bm \<leftarrow> arr_set (block_mapping ni) (unat lb) (- 1);
          ni \<leftarrow> skip_bad_block (ni\<lparr>block_mapping := bm\<rparr>) pb;
          (_, ni) \<leftarrow> nmbm_update_info_table crc ni;
          Some (0, ni)
        }
      })"

definition nmbm_get_avail_size :: "'d nmbm_instance \<Rightarrow> u64" where
  "nmbm_get_avail_size ni = push_bit (unat (erasesize_shift ni)) (ucast (data_block_count ni))"

definition nmbm_get_lower_device :: "'d nmbm_instance \<Rightarrow> 'd nmbm_lower_device" where
  "nmbm_get_lower_device ni = lower ni"

section \<open>Contracts\<close>

lemma api_ok_dev_step:
  assumes ok: "api_ok Q A S ni0 ni" and d: "dev_step Q ni ni'"
  shows "api_ok Q A S ni0 ni'"
proof -
  from d obtain dv pc where ni': "ni' = ni\<lparr>dev := dv, page_cache := pc\<rparr>"
    and "length pc = length (page_cache ni)" "Q (dev ni) \<longrightarrow> Q dv"
    by (auto simp: dev_step_def)
  then show ?thesis
    using api_okD(5,6) [OF ok]
    by (intro api_ok_update [OF ok])
      (simp_all add: api_step_def api_restore_def mg_restore_def order_wf_def map_wf_def)
qed

lemma state_masked [simp]:
  "BLOCK_ST_BAD AND BLOCK_ST_MASK \<noteq> BLOCK_ST_GOOD" "BLOCK_ST_NEED_REMAP AND BLOCK_ST_MASK \<noteq> BLOCK_ST_GOOD"
  by (simp_all add: block_st_defs)

lemma set_state_api:
  assumes ok: "api_ok Q A S ni0 ni" and "unat pb \<in> S" and pb: "unat pb < 16 * length (block_state ni)"
    and "v AND BLOCK_ST_MASK \<noteq> BLOCK_ST_GOOD"
  shows "returns (nmbm_set_block_state ni pb v) (\<lambda>(c, ni'). api_ok Q A S ni0 ni' \<and>
    block_mapping ni' = block_mapping ni \<and> mapping_blocks_top_ba ni' = mapping_blocks_top_ba ni \<and>
    protected ni' = protected ni \<and> data_block_count ni' = data_block_count ni \<and>
    block_state ni' = st_put (block_state ni) (unat pb) v)"
proof -
  have "api_ok Q A S ni0 (ni\<lparr>block_state := st_put (block_state ni) (unat pb) v, block_state_changed := ch\<rparr>)" for ch
    by (rule api_ok_update [OF ok])
      (use api_okD(5,6) [OF ok] assms in
        \<open>auto simp: api_step_def api_restore_def mg_restore_def order_wf_def map_wf_def worse_def st_of_put\<close>)
  from this [of "block_state_changed ni"] this [of "block_state_changed ni + 1"] show ?thesis
    by (auto simp: nmbm_set_block_state_eq [OF pb] Let_def)
qed

lemma map_entry_bound:
  assumes "api_ok Q A S ni0 ni" and "pb \<in> set (block_mapping ni)" and "\<not> sint pb < 0"
  shows "unat pb < 16 * length (block_state ni)"
proof -
  have "pb < block_count ni" using api_okD(6) [OF assms(1)] assms(2,3) by (auto simp: map_wf_def)
  with api_okD(4) [OF assms(1)] show ?thesis by (simp add: table_wf_def word_less_nat_alt)
qed

lemma skip_bad_api:
  assumes ok: "api_ok Q A S ni0 ni" and S: "unat pb \<in> S" and pb: "unat pb < 16 * length (block_state ni)"
  shows "returns (skip_bad_block ni pb) (\<lambda>ni'. api_ok Q A S ni0 ni' \<and>
    block_mapping ni' = block_mapping ni \<and> mapping_blocks_top_ba ni' = mapping_blocks_top_ba ni \<and>
    protected ni' = protected ni \<and> data_block_count ni' = data_block_count ni \<and>
    block_state ni' = st_put (block_state ni) (unat pb) BLOCK_ST_BAD)"
proof -
  from nmbm_mark_phys_bad_block_returns [OF api_okD(2,7) [OF ok] api_okD(10) [OF ok S]]
  obtain r ni1 where m: "nmbm_mark_phys_bad_block ni pb = Some (r, ni1)" and d: "dev_step Q ni ni1"
    by (auto simp: returns_iff)
  have e: "block_mapping ni1 = block_mapping ni" "mapping_blocks_top_ba ni1 = mapping_blocks_top_ba ni"
      "protected ni1 = protected ni" "block_state ni1 = block_state ni" "data_block_count ni1 = data_block_count ni"
    using d by (auto simp: dev_step_def)
  from set_state_api [OF api_ok_dev_step [OF ok d] S, of BLOCK_ST_BAD] pb e show ?thesis
    by (auto simp: skip_bad_block_def m returns_simps elim!: returns_mono)
qed

text \<open>A block that could not be erased is bad, or was waiting to be remapped already.\<close>

definition usable_at :: "'d nmbm_instance \<Rightarrow> u32 \<Rightarrow> bool" where
  "usable_at ni pb \<longleftrightarrow>
     st_of (block_state ni) (unat pb) \<noteq> BLOCK_ST_BAD \<and> st_of (block_state ni) (unat pb) \<noteq> BLOCK_ST_NEED_REMAP"

lemma erase_mapped_api:
  assumes ok: "api_ok Q A S ni0 ni" and S: "unat pb \<in> S" and pb: "unat pb < 16 * length (block_state ni)"
  shows "returns (erase_mapped_block ni pb) (\<lambda>(erased, ni'). api_ok Q A S ni0 ni' \<and>
    block_mapping ni' = block_mapping ni \<and> mapping_blocks_top_ba ni' = mapping_blocks_top_ba ni \<and>
    protected ni' = protected ni \<and> (erased \<longleftrightarrow> usable_at ni' pb))"
proof (cases "usable_at ni pb")
  case False
  then show ?thesis using ok pb
    by (auto simp: erase_mapped_block_def returns_simps usable_at_def)
next
  case u: True
  from nmbm_check_bad_phys_block_returns [OF api_okD(2,7) [OF ok], of pb]
  obtain bad ni1 where c: "nmbm_check_bad_phys_block ni pb = Some (bad, ni1)" and d1: "dev_step Q ni ni1"
    by (auto simp: returns_iff)
  note ok1 = api_ok_dev_step [OF ok d1]
  from nmbm_erase_block_and_check_returns [OF api_okD(2,7) [OF ok1] api_okD(10) [OF ok1 S]]
  obtain er ni2 where e: "nmbm_erase_block_and_check ni1 pb = Some (er, ni2)" and d2: "dev_step Q ni1 ni2"
    by (auto simp: returns_iff)
  note ok2 = api_ok_dev_step [OF ok1 d2]
  have s: "block_mapping ni2 = block_mapping ni" "mapping_blocks_top_ba ni2 = mapping_blocks_top_ba ni"
      "protected ni2 = protected ni" "block_state ni2 = block_state ni"
      "block_mapping ni1 = block_mapping ni" "mapping_blocks_top_ba ni1 = mapping_blocks_top_ba ni"
      "protected ni1 = protected ni" "block_state ni1 = block_state ni"
    using d1 d2 by (auto simp: dev_step_def)
  have bad: "\<not> usable_at ni' pb" if "block_state ni' = st_put (block_state ni) (unat pb) BLOCK_ST_BAD" for ni' :: "'a nmbm_instance"
    using pb that by (simp add: usable_at_def st_of_put block_st_defs)
  note set = set_state_api [OF ok1 S _ state_masked(1), unfolded s, OF pb]
    and skip = skip_bad_api [OF ok2 S, unfolded s, OF pb]
  have "usable_at ni2 pb" using u s by (simp add: usable_at_def)
  with u pb ok2 set skip bad s show ?thesis
    by (auto simp: erase_mapped_block_def returns_simps usable_at_def [of ni] c e elim!: returns_mono)
qed

lemma retire_block_api:
  assumes ok: "api_ok Q A S ni0 ni" and S: "unat pb \<in> S" and pb: "unat pb < 16 * length (block_state ni)"
  shows "returns (retire_block ni pb) (\<lambda>ni'. api_ok Q A S ni0 ni' \<and>
    block_mapping ni' = block_mapping ni \<and> mapping_blocks_top_ba ni' = mapping_blocks_top_ba ni)"
proof -
  from set_state_api [OF ok S pb state_masked(1)] obtain c ni1
    where "nmbm_set_block_state ni pb BLOCK_ST_BAD = Some (c, ni1)" "api_ok Q A S ni0 ni1"
      "block_mapping ni1 = block_mapping ni" "mapping_blocks_top_ba ni1 = mapping_blocks_top_ba ni"
    by (auto simp: returns_iff)
  with ok pb show ?thesis by (simp add: retire_block_def returns_simps)
qed

text \<open>
  A round of the erasure that does not settle it: the block is retired, and the instance is ready
  for the new block, or the logic block is given up.
\<close>

definition erase_post ::
  "('d \<Rightarrow> bool) \<Rightarrow> (u64 \<Rightarrow> bool) \<Rightarrow> nat set \<Rightarrow> 'd nmbm_instance \<Rightarrow> u32 list \<Rightarrow> u32
     \<Rightarrow> int \<times> 'd nmbm_instance \<Rightarrow> bool" where
  "erase_post Q A S ni0 bm lb = (\<lambda>(ret, ni'). api_ok Q A S ni0 ni' \<and>
     (\<exists>pb. block_mapping ni' = bm[unat lb := pb] \<and>
        (ret = 0 \<and> \<not> sint pb < 0 \<and> usable_at ni' pb \<or> ret = - EIO \<and> sint pb < 0)))"

lemma retire_and_update:
  assumes ok: "api_ok Q A S ni0 ni" and S: "unat pb \<in> S" and pb: "unat pb < 16 * length (block_state ni)"
  obtains ni1 r ni2 where "retire_block ni pb = Some ni1" and "nmbm_update_info_table crc ni1 = Some (r, ni2)"
    and "api_ok Q A S ni0 ni2" and "block_mapping ni2 = block_mapping ni"
    and "mapping_blocks_top_ba ni2 = mapping_blocks_top_ba ni"
proof -
  from retire_block_api [OF assms] obtain ni1 where r: "retire_block ni pb = Some ni1"
    and ok1: "api_ok Q A S ni0 ni1" and e: "block_mapping ni1 = block_mapping ni"
      "mapping_blocks_top_ba ni1 = mapping_blocks_top_ba ni"
    by (auto simp: returns_iff)
  from update_info_table_api [OF ok1, of crc] obtain x ni2
    where u: "nmbm_update_info_table crc ni1 = Some (x, ni2)" and ok2: "api_ok Q A S ni0 ni2" and m: "mg_step Q ni1 ni2"
    by (auto simp: returns_iff)
  from that [OF r u ok2] e mg_step_fields [OF m] show ?thesis by simp
qed

lemma give_up_block:
  assumes ok: "api_ok Q A S ni0 ni" and lb: "unat lb < length (block_mapping ni)"
    and S: "unat pb \<in> S" and pb: "unat pb < 16 * length (block_state ni)"
  shows "returns (do { bm \<leftarrow> arr_set (block_mapping ni) (unat lb) (- 1);
      ni \<leftarrow> retire_block (ni\<lparr>block_mapping := bm\<rparr>) pb;
      (_, ni) \<leftarrow> nmbm_update_info_table crc ni;
      Some (- EIO, ni) }) (erase_post Q A S ni0 (block_mapping ni) lb)"
proof -
  let ?ni1 = "ni\<lparr>block_mapping := (block_mapping ni)[unat lb := - 1]\<rparr>"
  have "map_wf ?ni1"
    using api_okD(6) [OF ok] set_update_subset_insert [of "block_mapping ni" "unat lb" "- 1"]
    by (auto simp: map_wf_def)
  then have ok1: "api_ok Q A S ni0 ?ni1"
    by (intro api_ok_update [OF ok])
      (use api_okD(5) [OF ok] in \<open>auto simp: api_step_def api_restore_def mg_restore_def order_wf_def\<close>)
  have pb1: "unat pb < 16 * length (block_state ?ni1)" using pb by simp
  obtain ni1 r ni2 where "retire_block ?ni1 pb = Some ni1" "nmbm_update_info_table crc ni1 = Some (r, ni2)"
      "api_ok Q A S ni0 ni2" "block_mapping ni2 = block_mapping ?ni1"
      "mapping_blocks_top_ba ni2 = mapping_blocks_top_ba ?ni1"
    by (rule retire_and_update [OF ok1 S pb1, of crc])
  with lb show ?thesis
    by (auto simp: arr_set_def erase_post_def returns_simps intro!: exI [of _ "- 1"])
qed

lemma erase_logic_block_post:
  "api_ok Q A S ni0 ni \<Longrightarrow> unat lb < length (block_mapping ni) \<Longrightarrow>
   sint (block_mapping ni ! unat lb) < 0 \<or> unat (block_mapping ni ! unat lb) \<in> S \<Longrightarrow>
   returns (nmbm_erase_logic_block crc ni lb) (erase_post Q A S ni0 (block_mapping ni) lb)"
proof (induction "unat (mapping_blocks_top_ba ni)" arbitrary: ni rule: less_induct)
  case less
  note ok = less.prems(1) and lb = less.prems(2)
  define pb where "pb = block_mapping ni ! unat lb"
  show ?case
  proof (cases "sint pb < 0")
    case True
    then show ?thesis
      using ok lb by (subst nmbm_erase_logic_block.simps)
        (auto simp: arr_get_def pb_def erase_post_def intro!: exI [of _ "block_mapping ni ! unat lb"])
  next
    case neg: False
    have S: "unat pb \<in> S" using less.prems(3) neg by (simp add: pb_def)
    have b: "unat pb < 16 * length (block_state ni)"
      by (rule map_entry_bound [OF ok _ neg]) (use lb in \<open>simp add: pb_def\<close>)
    from erase_mapped_api [OF ok S b] obtain er ni1
      where e: "erase_mapped_block ni pb = Some (er, ni1)" and ok1: "api_ok Q A S ni0 ni1"
      and s1: "block_mapping ni1 = block_mapping ni" "mapping_blocks_top_ba ni1 = mapping_blocks_top_ba ni"
      and u: "er \<longleftrightarrow> usable_at ni1 pb" by (auto simp: returns_iff)
    show ?thesis
    proof (cases er)
      case True
      then show ?thesis
        using ok1 lb e neg u s1 by (subst nmbm_erase_logic_block.simps)
          (auto simp: arr_get_def pb_def erase_post_def intro!: exI [of _ "block_mapping ni ! unat lb"])
    next
      case nerased: False
      have lb1: "unat lb < length (block_mapping ni1)" using lb s1 by simp
      from nmbm_map_block_post [OF ok1 lb1, of crc] obtain mok ni2
        where m: "nmbm_map_block crc ni1 lb = Some (mok, ni2)" and mp: "map_post Q A S ni0 ni1 lb (mok, ni2)"
        by (auto simp: returns_iff)
      have ok2: "api_ok Q A S ni0 ni2" using mp by (simp add: map_post_def)
      have len: "length (block_state ni2) = length (block_state ni)" "length (block_mapping ni2) = length (block_mapping ni)"
        using api_step_wf(1,2) [OF api_okD(9) [OF ok]] api_step_wf(1,2) [OF api_okD(9) [OF ok2]] by simp_all
      have unfold: "nmbm_erase_logic_block crc ni lb =
         (if \<not> mok then do { bm \<leftarrow> arr_set (block_mapping ni2) (unat lb) (- 1);
              ni \<leftarrow> retire_block (ni2\<lparr>block_mapping := bm\<rparr>) pb;
              (_, ni) \<leftarrow> nmbm_update_info_table crc ni;
              Some (- EIO, ni) }
          else do { ni \<leftarrow> retire_block ni2 pb; (_, ni) \<leftarrow> nmbm_update_info_table crc ni;
              nmbm_erase_logic_block crc ni lb })"
        using lb neg e nerased m by (subst nmbm_erase_logic_block.simps) (simp add: arr_get_def pb_def)
      have b2: "unat pb < 16 * length (block_state ni2)" using b len by simp
      show ?thesis
      proof (cases mok)
        case False
        then have "block_mapping ni2 = block_mapping ni" using mp s1 by (simp add: map_post_def)
        with give_up_block [OF ok2 _ S b2, of lb crc] False lb len show ?thesis by (simp add: unfold)
      next
        case True
        obtain ni3 r ni4 where r: "retire_block ni2 pb = Some ni3" "nmbm_update_info_table crc ni3 = Some (r, ni4)"
          and ok4: "api_ok Q A S ni0 ni4" and s4: "block_mapping ni4 = block_mapping ni2"
            "mapping_blocks_top_ba ni4 = mapping_blocks_top_ba ni2"
          by (rule retire_and_update [OF ok2 S b2, of crc])
        obtain npb where npb: "block_mapping ni2 = (block_mapping ni)[unat lb := npb]"
            "mapping_blocks_ba ni1 < npb" "npb \<le> mapping_blocks_top_ba ni1"
          using mp True s1 by (auto simp: map_post_def)
        have "mgmt_start_ba ni1 \<le> mapping_blocks_ba ni1" by (rule mg_ok_bounds(2) [OF api_okD(8) [OF ok1]])
        then have nS: "unat npb \<in> S"
          using npb api_okD(1) [OF ok1] by (auto simp: api_ctx_def word_le_nat_alt word_less_nat_alt)
        have "mapping_blocks_top_ba ni2 < mapping_blocks_top_ba ni1"
          using mp True unfolding map_post_def split_conv if_P [OF True] by blast
        then have "unat (mapping_blocks_top_ba ni4) < unat (mapping_blocks_top_ba ni)"
          using s1 s4 by (simp add: word_less_nat_alt)
        then have "returns (nmbm_erase_logic_block crc ni4 lb) (erase_post Q A S ni0 (block_mapping ni4) lb)"
          by (rule less.hyps [OF _ ok4]) (use lb s4 npb nS in auto)
        then show ?thesis
          using True r s4 npb by (simp add: unfold erase_post_def returns_simps)
      qed
    qed
  qed
qed

section \<open>Contracts of the interface\<close>

lemma addr2ba_div:
  assumes "geom_wf ni" and "unat a < unat (n :: u32) * unat (erasesize (lower ni))"
  shows "unat (addr2ba ni a) = unat a div unat (erasesize (lower ni))"
    and "unat a div unat (erasesize (lower ni)) < unat n"
proof -
  from assms(1) obtain e where e: "unat (erasesize (lower ni)) = 2 ^ e" "unat (erasesize_shift ni) = e"
    by (auto simp: geom_wf_def)
  show lt: "unat a div unat (erasesize (lower ni)) < unat n"
    using assms(2) by (simp add: less_mult_imp_div_less)
  then have "unat a div 2 ^ e < 2 ^ 32" using unat_u32_less [of n] e by simp
  then show "unat (addr2ba ni a) = unat a div unat (erasesize (lower ni))"
    using e by (simp add: addr2ba_def unat_ucast_mod unat_drop_bit_div)
qed

lemma addr2ba_less:
  assumes "geom_wf ni" and "a < ba2addr ni n"
  shows "addr2ba ni a < n" and "unat (addr2ba ni a) = unat a div unat (erasesize (lower ni))"
proof -
  have "unat a < unat n * unat (erasesize (lower ni))"
    using assms by (simp add: word_less_nat_alt unat_ba2addr)
  from addr2ba_div [OF assms(1) this] show "addr2ba ni a < n"
    and "unat (addr2ba ni a) = unat a div unat (erasesize (lower ni))"
    by (simp_all add: word_less_nat_alt)
qed

text \<open>The physical blocks behind the logic blocks \<open>lo\<close> to \<open>hi\<close> may be used.\<close>

definition mapped_in :: "nat set \<Rightarrow> 'd nmbm_instance \<Rightarrow> nat \<Rightarrow> nat \<Rightarrow> bool" where
  "mapped_in S ni lo hi \<longleftrightarrow>
     (\<forall>i. lo \<le> i \<and> i \<le> hi \<longrightarrow> sint (block_mapping ni ! i) < 0 \<or> unat (block_mapping ni ! i) \<in> S)"

definition erase_range_post ::
  "('d \<Rightarrow> bool) \<Rightarrow> (u64 \<Rightarrow> bool) \<Rightarrow> nat set \<Rightarrow> 'd nmbm_instance \<Rightarrow> u32 \<Rightarrow> u32
     \<Rightarrow> int \<times> u64 option \<times> 'd nmbm_instance \<Rightarrow> bool" where
  "erase_range_post Q A S ni0 lo hi = (\<lambda>(ret, fa, ni'). api_ok Q A S ni0 ni' \<and>
     (case fa of
        None \<Rightarrow> ret = 0
      | Some a \<Rightarrow> ret = - EIO \<and> (\<exists>lb. lo \<le> lb \<and> lb \<le> hi \<and> a = ba2addr ni' lb \<and>
                                    sint (block_mapping ni' ! unat lb) < 0)))"

lemma erase_range_post_weaken:
  assumes "erase_range_post Q A S ni0 lo' hi r" and le: "lo \<le> lo'"
  shows "erase_range_post Q A S ni0 lo hi r"
proof -
  obtain ret fa ni' where r: "r = (ret, fa, ni')" by (cases r)
  show ?thesis
  proof (cases fa)
    case None
    with assms(1) r show ?thesis by (simp add: erase_range_post_def)
  next
    case (Some a)
    with assms(1) r obtain lb where "lo' \<le> lb" "lb \<le> hi" "a = ba2addr ni' lb"
        "sint (block_mapping ni' ! unat lb) < 0" "ret = - EIO" "api_ok Q A S ni0 ni'"
      by (auto simp: erase_range_post_def)
    with Some r order_trans [OF le] show ?thesis by (auto simp: erase_range_post_def)
  qed
qed

lemma erase_blocks_loop_post:
  "api_ok Q A S ni0 ni \<Longrightarrow> unat end_ba < length (block_mapping ni) \<Longrightarrow>
   mapped_in S ni (unat start_ba) (unat end_ba) \<Longrightarrow>
   returns (erase_blocks_loop crc ni start_ba end_ba) (erase_range_post Q A S ni0 start_ba end_ba)"
proof (induction "Suc (unat end_ba) - unat start_ba" arbitrary: ni start_ba rule: less_induct)
  case less
  show ?case
  proof (cases "start_ba \<le> end_ba")
    case False
    with less.prems(1) show ?thesis
      by (subst erase_blocks_loop.simps) (simp add: erase_range_post_def)
  next
    case True
    then have le: "unat start_ba \<le> unat end_ba" by (simp add: word_le_nat_alt)
    have lb: "unat start_ba < length (block_mapping ni)" using le less.prems(2) by simp
    have "sint (block_mapping ni ! unat start_ba) < 0 \<or> unat (block_mapping ni ! unat start_ba) \<in> S"
      using less.prems(3) le by (auto simp: mapped_in_def)
    from erase_logic_block_post [OF less.prems(1) lb this, of crc] obtain ret ni1 pb
      where e: "nmbm_erase_logic_block crc ni start_ba = Some (ret, ni1)" and ok1: "api_ok Q A S ni0 ni1"
      and bm: "block_mapping ni1 = (block_mapping ni)[unat start_ba := pb]"
      and r: "ret = 0 \<or> ret = - EIO \<and> sint pb < 0"
      by (auto simp: returns_iff erase_post_def)
    show ?thesis
    proof (cases "ret = 0")
      case False
      with r have "erase_range_post Q A S ni0 start_ba end_ba (ret, Some (ba2addr ni1 start_ba), ni1)"
        using ok1 True lb bm by (auto simp: erase_range_post_def intro!: exI [of _ start_ba])
      with True e False show ?thesis by (subst erase_blocks_loop.simps) simp
    next
      case ret0: True
      have "unat end_ba < unat (block_count ni)"
        using less.prems(2) api_okD(6) [OF less.prems(1)] by (simp add: map_wf_def)
      then have "start_ba < block_count ni" using le by (simp add: word_less_nat_alt)
      note s = unat_Suc_less [OF this]
      have "returns (erase_blocks_loop crc ni1 (start_ba + 1) end_ba)
          (erase_range_post Q A S ni0 (start_ba + 1) end_ba)"
        by (rule less.hyps [OF _ ok1]) (use le s bm less.prems(2,3) in \<open>auto simp: mapped_in_def\<close>)
      moreover have le1: "start_ba \<le> start_ba + 1" using s by (simp add: word_le_nat_alt)
      ultimately have "returns (erase_blocks_loop crc ni1 (start_ba + 1) end_ba)
          (erase_range_post Q A S ni0 start_ba end_ba)"
        by (elim returns_mono) (erule erase_range_post_weaken [OF _ le1])
      with True e ret0 show ?thesis by (subst erase_blocks_loop.simps) simp
    qed
  qed
qed

lemma mapped_in_mono: "mapped_in S ni lo hi \<Longrightarrow> lo \<le> lo' \<Longrightarrow> hi' \<le> hi \<Longrightarrow> mapped_in S ni lo' hi'"
  by (auto simp: mapped_in_def)

text \<open>The last byte of a range that was checked against the end of the data area.\<close>

lemma range_end:
  fixes addr sz limit :: u64
  assumes "unat addr + unat sz < 2 ^ 64" and "\<not> addr + sz > limit" and "sz \<noteq> 0"
  shows "addr + sz - 1 < limit" and "unat (addr + sz - 1) = unat addr + unat sz - 1"
proof -
  have u: "unat (addr + sz) = unat addr + unat sz" using assms(1) by (simp add: unat_word_ariths)
  moreover have "0 < unat sz" using assms(3) by (simp add: unat_gt_0)
  ultimately have "addr + sz \<noteq> 0" by (metis add_gr_0 less_irrefl unat_0)
  then show e: "unat (addr + sz - 1) = unat addr + unat sz - 1"
    using u by (simp add: unat_minus_one)
  show "addr + sz - 1 < limit"
    using assms(2) u e \<open>0 < unat sz\<close> by (simp add: word_less_nat_alt)
qed

lemma data_block_mapped:
  assumes ok: "api_ok Q A S ni0 ni" and "a < ba2addr ni (data_block_count ni)"
  shows "addr2ba ni a < data_block_count ni" and "unat (addr2ba ni a) < length (block_mapping ni)"
proof -
  show l: "addr2ba ni a < data_block_count ni" by (rule addr2ba_less [OF api_okD(3) [OF ok] assms(2)])
  with api_okD(6) [OF ok] show "unat (addr2ba ni a) < length (block_mapping ni)"
    by (simp add: map_wf_def word_less_nat_alt word_le_nat_alt)
qed

lemma erase_block_range_post:
  assumes ok: "api_ok Q A S ni ni" and ov: "unat addr + unat sz < 2 ^ 64"
    and S: "mapped_in S ni 0 (unat (data_block_count ni))"
  shows "returns (nmbm_erase_block_range crc ni addr sz) (\<lambda>(ret, fa, ni'). api_ok Q A S ni ni' \<and>
    (ret = 0 \<or> (ret = - EROFS \<or> ret = - EINVAL) \<and> ni' = ni \<or>
     ret = - EIO \<and> (\<exists>lb. lb < data_block_count ni \<and> fa = Some (ba2addr ni lb) \<and>
                        sint (block_mapping ni' ! unat lb) < 0)))"
proof -
  let ?lim = "ba2addr ni (data_block_count ni)"
  consider "protected ni \<or> read_only ni \<or> addr \<ge> ?lim \<or> addr + sz > ?lim \<or> sz = 0"
    | "\<not> protected ni" "\<not> read_only ni" "addr < ?lim" "\<not> addr + sz > ?lim" "sz \<noteq> 0"
    by (meson not_le)
  then show ?thesis
  proof cases
    case 1
    then show ?thesis using ok by (auto simp: nmbm_erase_block_range_def)
  next
    case 2
    let ?s = "addr2ba ni addr" and ?e = "addr2ba ni (addr + sz - 1)"
    note e = data_block_mapped [OF ok range_end(1) [OF ov 2(4,5)]]
    have "mapped_in S ni (unat ?s) (unat ?e)"
      by (rule mapped_in_mono [OF S]) (use e(1) in \<open>auto simp: word_less_nat_alt\<close>)
    from erase_blocks_loop_post [OF ok e(2) this, of crc] obtain ret fa ni'
      where l: "erase_blocks_loop crc ni ?s ?e = Some (ret, fa, ni')" and p: "erase_range_post Q A S ni ?s ?e (ret, fa, ni')"
      by (auto simp: returns_iff)
    from p have ok': "api_ok Q A S ni ni'" by (simp add: erase_range_post_def)
    have "ba2addr ni' = ba2addr ni" by (rule api_step_fields [OF api_okD(9) [OF ok']])
    with p e(1) have "ret = 0 \<or> ret = - EIO \<and> (\<exists>lb. lb < data_block_count ni \<and> fa = Some (ba2addr ni lb) \<and>
        sint (block_mapping ni' ! unat lb) < 0)"
      by (auto simp: erase_range_post_def split: option.splits intro: le_less_trans)
    with 2 l ok' show ?thesis by (auto simp: nmbm_erase_block_range_def not_le [symmetric])
  qed
qed

lemma logic_offset_less:
  assumes "geom_wf ni"
  shows "(ucast (logic_offset ni addr) :: u64) < ucast (erasesize (lower ni))"
proof -
  from assms obtain e where e: "e < 32" "unat (erasesize (lower ni)) = 2 ^ e" "erasesize_mask ni = mask e"
    by (auto simp: geom_wf_def)
  have "(ucast (mask e :: u32) :: u64) = mask e"
    by (rule bit_word_eqI) (use e(1) in \<open>auto simp: bit_simps\<close>)
  then have "logic_offset ni addr = ucast (take_bit e addr)"
    by (simp add: logic_offset_def e(3) take_bit_eq_mask)
  moreover have "unat (take_bit e addr) < 2 ^ e" by (simp add: unat_take_bit_mod)
  moreover have "(2 :: nat) ^ e \<le> 2 ^ 32" using pow2_le_u32 [OF e(1)] by simp
  ultimately show ?thesis by (simp add: word_less_nat_alt unat_ucast_mod e(2))
qed

text \<open>
  A write goes to the mapped block; when it fails the block is recorded for remapping, and the
  mapping stays as it is.
\<close>

lemma write_logic_page_post:
  assumes ok: "api_ok Q A S ni0 ni" and lb: "unat (addr2ba ni addr) < length (block_mapping ni)"
    and S: "mapped_in S ni (unat (addr2ba ni addr)) (unat (addr2ba ni addr))"
  shows "returns (nmbm_write_logic_page crc ni addr data oob mode) (\<lambda>(ret, ni').
    api_ok Q A S ni0 ni' \<and> (ret = 0 \<or> ret = - EIO) \<and> block_mapping ni' = block_mapping ni)"
proof -
  define pb where "pb = block_mapping ni ! unat (addr2ba ni addr)"
  have get: "arr_get (block_mapping ni) (unat (addr2ba ni addr)) = Some pb" using lb by (simp add: arr_get_def pb_def)
  show ?thesis
  proof (cases "sint pb < 0")
    case True
    with get ok show ?thesis by (simp add: nmbm_write_logic_page_def)
  next
    case False
    have pS: "unat pb \<in> S" using S False by (auto simp: mapped_in_def pb_def)
    have b: "unat pb < 16 * length (block_state ni)"
      by (rule map_entry_bound [OF ok _ False]) (use lb in \<open>simp add: pb_def\<close>)
    let ?a = "ba2addr ni pb + ucast (logic_offset ni addr)"
    have "read_only ni \<or> A ?a"
      using api_okD(10) [OF ok pS] logic_offset_less [OF api_okD(3) [OF ok]] by (auto simp: blk_allowed_def)
    moreover have "lower_ok (lower ni)" using api_okD(2) [OF ok] by (simp add: dev_wf_def)
    ultimately obtain wok ni1 where w: "nmbm_write_phys_page ni ?a data oob mode = Some (wok, ni1)" and d: "dev_step Q ni ni1"
      using nmbm_write_phys_page_returns [OF _ api_okD(7) [OF ok], of ?a data oob mode] by (auto simp: returns_iff)
    note ok1 = api_ok_dev_step [OF ok d]
    have bm1: "block_mapping ni1 = block_mapping ni" using d by (auto simp: dev_step_def)
    have b1: "unat pb < 16 * length (block_state ni1)" using b by (simp add: dev_step_fields [OF d])
    from set_state_api [OF ok1 pS b1 state_masked(2)] obtain c ni2
      where st: "nmbm_set_block_state ni1 pb BLOCK_ST_NEED_REMAP = Some (c, ni2)" and ok2: "api_ok Q A S ni0 ni2"
      and bm2: "block_mapping ni2 = block_mapping ni1" by (auto simp: returns_iff)
    from update_info_table_api [OF ok2, of crc] obtain x ni3
      where u: "nmbm_update_info_table crc ni2 = Some (x, ni3)" and ok3: "api_ok Q A S ni0 ni3" and m: "mg_step Q ni2 ni3"
      by (auto simp: returns_iff)
    show ?thesis
      using get False b ok ok1 ok3 bm1 bm2 w st u
      by (auto simp: nmbm_write_logic_page_def returns_simps mg_step_fields [OF m])
  qed
qed

lemma range_leading_eq:
  assumes "geom_wf ni"
  shows "unat (range_leading ni off) = unat off mod unat (writesize (lower ni))"
proof -
  from assms obtain w where w: "w < 32" "unat (writesize (lower ni)) = 2 ^ w" "writesize_mask ni = mask w"
    by (auto simp: geom_wf_def)
  have "(ucast (mask w :: u32) :: u64) = mask w"
    by (rule bit_word_eqI) (use w(1) in \<open>auto simp: bit_simps\<close>)
  then show ?thesis
    by (simp add: range_leading_def w take_bit_eq_mask [symmetric] unat_take_bit_mod)
qed

lemma range_chunk_bounds:
  assumes "geom_wf ni" and "n \<noteq> 0"
  shows "0 < unat (range_chunk ni off n)" and "range_chunk ni off n \<le> n"
    and "unat (range_leading ni off) + unat (range_chunk ni off n) \<le> unat (writesize (lower ni))"
    and "range_leading ni off \<le> off"
proof -
  let ?ws = "unat (writesize (lower ni))"
  have ws: "0 < ?ws" using assms(1) by (auto simp: geom_wf_def)
  then have m: "unat off mod ?ws < ?ws" by simp
  then have "range_leading ni off \<le> ucast (writesize (lower ni))"
    by (simp add: word_le_nat_alt range_leading_eq [OF assms(1)])
  then have "unat (ucast (writesize (lower ni)) - range_leading ni off) = ?ws - unat off mod ?ws"
    by (simp add: unat_sub range_leading_eq [OF assms(1)])
  then have c: "unat (range_chunk ni off n) = min (?ws - unat off mod ?ws) (unat n)"
    by (auto simp: range_chunk_def Let_def word_less_nat_alt min_def)
  have "0 < unat n" using assms(2) by (simp add: unat_gt_0)
  with c m show "0 < unat (range_chunk ni off n)" and "range_chunk ni off n \<le> n"
    and "unat (range_leading ni off) + unat (range_chunk ni off n) \<le> unat (writesize (lower ni))"
    by (auto simp: word_le_nat_alt range_leading_eq [OF assms(1)])
  show "range_leading ni off \<le> off" by (simp add: word_le_nat_alt range_leading_eq [OF assms(1)])
qed

text \<open>The page under \<open>off\<close> belongs to a logic block below \<open>nb\<close>.\<close>

lemma range_page_block:
  assumes g: "geom_wf ni" and n: "(n :: u64) \<noteq> 0" and r: "unat off + unat n \<le> unat (nb :: u32) * unat (erasesize (lower ni))"
  shows "unat (addr2ba ni (off - range_leading ni off)) < unat nb"
proof -
  have "unat (off - range_leading ni off) \<le> unat off"
    using range_chunk_bounds(4) [OF g n, of off] by (simp add: unat_sub)
  moreover have "0 < unat n" using n by (simp add: unat_gt_0)
  ultimately have "unat (off - range_leading ni off) < unat nb * unat (erasesize (lower ni))" using r by simp
  from addr2ba_div [OF g this] show ?thesis by simp
qed

lemma api_ok_page_cache:
  "api_ok Q A S ni0 ni \<Longrightarrow> length pc = length (page_cache ni) \<Longrightarrow> api_ok Q A S ni0 (ni\<lparr>page_cache := pc\<rparr>)"
  by (rule api_ok_dev_step) (auto intro: dev_step_page_cache)

lemma write_range_page_post:
  assumes ok: "api_ok Q A S ni0 ni" and n: "n \<noteq> 0" and len: "pos + unat n \<le> length data"
    and r: "unat off + unat n \<le> unat (nb :: u32) * unat (erasesize (lower ni))"
    and nb: "unat nb \<le> length (block_mapping ni)" and S: "mapped_in S ni 0 (unat nb)"
  shows "returns (write_range_page crc ni data pos off n mode) (\<lambda>(ret, ni').
    api_ok Q A S ni0 ni' \<and> (ret = 0 \<or> ret = - EIO) \<and> block_mapping ni' = block_mapping ni)"
proof -
  note b = range_chunk_bounds [OF api_okD(3) [OF ok] n, of off]
  let ?l = "range_leading ni off" and ?c = "range_chunk ni off n" and ?ws = "unat (writesize (lower ni))"
  note lb = range_page_block [OF api_okD(3) [OF ok] n r]
  have len_c: "pos + unat ?c \<le> length data" using len b(2) by (simp add: word_le_nat_alt)
  have Sl: "mapped_in S ni (unat (addr2ba ni (off - ?l))) (unat (addr2ba ni (off - ?l)))"
    by (rule mapped_in_mono [OF S]) (use lb in simp_all)
  have pc: "?ws \<le> length (page_cache ni)" using api_okD(2) [OF ok] by (simp add: dev_wf_def)
  show ?thesis
  proof (cases "?c = ucast (writesize (lower ni))")
    case True
    then have "unat ?c = ?ws" by simp
    then show ?thesis
      using True len_c write_logic_page_post [OF ok _ Sl] lb nb
      by (simp add: write_range_page_def Let_def mem_read_def)
  next
    case False
    let ?d = "take (unat ?c) (drop pos data)" and ?p = "replicate (unat ?l) 0xff @ drop (unat ?l) (page_cache ni)"
    have lp: "length ?p = length (page_cache ni)" using b(3) pc by simp
    then obtain p where p: "mem_write ?p (unat ?l) ?d = Some p"
      using mem_write_Some [of "unat ?l" ?d ?p] len_c b(3) pc by auto
    have len_p: "length p = length (page_cache ni)" using length_mem_write [OF p] lp by simp
    let ?ni = "ni\<lparr>page_cache := p\<rparr>"
    have ok1: "api_ok Q A S ni0 ?ni" by (rule api_ok_page_cache [OF ok len_p])
    have "addr2ba ?ni = addr2ba ni" by (simp add: addr2ba_def fun_eq_iff)
    then have "returns (nmbm_write_logic_page crc ?ni (off - ?l) (Some (take ?ws p)) None mode) (\<lambda>(ret, ni').
        api_ok Q A S ni0 ni' \<and> (ret = 0 \<or> ret = - EIO) \<and> block_mapping ni' = block_mapping ni)"
      using write_logic_page_post [OF ok1, of "off - ?l" crc "Some (take ?ws p)" None mode] lb nb Sl
      by (simp add: mapped_in_def)
    then show ?thesis
      using False len_c len_p pc b(3) p
      by (simp add: write_range_page_def Let_def mem_read_def mem_write_def [of "page_cache ni"])
  qed
qed

lemma write_range_loop_post:
  "api_ok Q A S ni0 ni \<Longrightarrow> pos + unat n \<le> length data \<Longrightarrow> ret = 0 \<Longrightarrow>
   unat off + unat n \<le> unat (nb :: u32) * unat (erasesize (lower ni)) \<Longrightarrow>
   unat nb \<le> length (block_mapping ni) \<Longrightarrow> mapped_in S ni 0 (unat nb) \<Longrightarrow>
   returns (write_range_loop crc ni data pos off n mode ret) (\<lambda>(ret', rem, ni').
     api_ok Q A S ni0 ni' \<and> rem \<le> n \<and> (if rem = 0 then ret' = 0 else ret' = - EIO) \<and>
     block_mapping ni' = block_mapping ni)"
proof (induction "unat n" arbitrary: ni pos off n ret rule: less_induct)
  case less
  note ok = less.prems(1)
  show ?case
  proof (cases "n = 0")
    case True
    with less.prems show ?thesis by (subst write_range_loop.simps) simp
  next
    case False
    let ?c = "range_chunk ni off n"
    note b = range_chunk_bounds [OF api_okD(3) [OF ok] False, of off]
    have cle: "unat ?c \<le> unat n" using b(2) by (simp add: word_le_nat_alt)
    have sub: "unat (n - ?c) = unat n - unat ?c" using b(2) by (rule unat_sub)
    have "unat off + unat n < 2 ^ 64"
    proof -
      have "unat nb * unat (erasesize (lower ni)) = unat (ba2addr ni nb)"
        by (simp add: unat_ba2addr [OF api_okD(3) [OF ok]])
      then show ?thesis using less.prems(4) unat_u64_less [of "ba2addr ni nb"] by simp
    qed
    then have off: "unat (off + ?c) = unat off + unat ?c"
      using cle by (simp add: unat_word_ariths)
    from write_range_page_post [OF ok False less.prems(2,4,5,6), of crc mode] obtain r ni1
      where w: "write_range_page crc ni data pos off n mode = Some (r, ni1)" and ok1: "api_ok Q A S ni0 ni1"
      and r: "r = 0 \<or> r = - EIO" and bm: "block_mapping ni1 = block_mapping ni"
      by (auto simp: returns_iff)
    show ?thesis
    proof (cases "r = 0")
      case r0: False
      with False w r ok1 bm show ?thesis
        by (subst write_range_loop.simps) simp
    next
      case r0: True
      have low: "lower ni1 = lower ni"
        using api_step_fields(1) [OF api_okD(9) [OF ok]] api_step_fields(1) [OF api_okD(9) [OF ok1]] by simp
      have "returns (write_range_loop crc ni1 data (pos + unat ?c) (off + ?c) (n - ?c) mode r) (\<lambda>(ret', rem, ni').
          api_ok Q A S ni0 ni' \<and> rem \<le> n - ?c \<and> (if rem = 0 then ret' = 0 else ret' = - EIO) \<and>
          block_mapping ni' = block_mapping ni1)"
        by (rule less.hyps [OF _ ok1])
          (use less.prems(2,4-6) b(1) cle sub off low bm r0 in \<open>auto simp: mapped_in_def\<close>)
      moreover have "n - ?c \<le> n" using sub by (simp add: word_le_nat_alt)
      ultimately show ?thesis
        using False w r0 bm by (subst write_range_loop.simps) (auto simp: Let_def elim!: returns_mono)
    qed
  qed
qed

text \<open>The limits of a range request in terms of bytes.\<close>

lemma range_limit:
  fixes addr sz :: u64
  assumes "geom_wf ni" and "unat addr + unat sz < 2 ^ 64" and "\<not> addr + sz > ba2addr ni n"
  shows "unat addr + unat sz \<le> unat n * unat (erasesize (lower ni))"
  using assms by (simp add: word_less_nat_alt unat_word_ariths unat_ba2addr not_less)

lemma api_ok_data_blocks: "api_ok Q A S ni0 ni \<Longrightarrow> unat (data_block_count ni) \<le> length (block_mapping ni)"
  using api_okD(6) [of Q A S ni0 ni] by (simp add: map_wf_def word_le_nat_alt)

lemma write_range_post:
  assumes ok: "api_ok Q A S ni ni" and ov: "unat addr + unat sz < 2 ^ 64" and len: "unat sz \<le> length data"
    and S: "mapped_in S ni 0 (unat (data_block_count ni))"
  shows "returns (nmbm_write_range crc ni addr sz data mode) (\<lambda>(ret, retlen, ni'). api_ok Q A S ni ni' \<and>
    block_mapping ni' = block_mapping ni \<and>
    (case retlen of
       None \<Rightarrow> ni' = ni \<and> (ret = - EROFS \<or> ret = - EINVAL \<or> ret = 0 \<and> sz = 0)
     | Some n \<Rightarrow> n \<le> sz \<and> (if n = sz then ret = 0 else ret = - EIO)))"
proof -
  let ?lim = "ba2addr ni (data_block_count ni)"
  consider "protected ni \<or> read_only ni \<or> addr \<ge> ?lim \<or> addr + sz > ?lim \<or> sz = 0"
    | "\<not> protected ni" "\<not> read_only ni" "addr < ?lim" "\<not> addr + sz > ?lim" "sz \<noteq> 0"
    by (meson not_le)
  then show ?thesis
  proof cases
    case 1
    then show ?thesis using ok by (auto simp: nmbm_write_range_def)
  next
    case 2
    from write_range_loop_post [OF ok, of 0 sz data 0 addr "data_block_count ni" crc mode]
      range_limit [OF api_okD(3) [OF ok] ov 2(4)] len S api_ok_data_blocks [OF ok]
    obtain ret rem ni' where l: "write_range_loop crc ni data 0 addr sz mode 0 = Some (ret, rem, ni')"
      and p: "api_ok Q A S ni ni'" "rem \<le> sz" "if rem = 0 then ret = 0 else ret = - EIO"
        "block_mapping ni' = block_mapping ni"
      by (auto simp: returns_iff)
    have "sz - rem \<le> sz" using p(2) by (simp add: word_le_nat_alt unat_sub)
    moreover have "sz - rem = sz \<longleftrightarrow> rem = 0" by auto
    ultimately show ?thesis
      using 2 l p by (simp add: nmbm_write_range_def not_le [symmetric])
  qed
qed

lemma read_logic_page_post:
  assumes ok: "api_ok Q A S ni0 ni" and lb: "unat (addr2ba ni addr) < length (block_mapping ni)"
  shows "returns (nmbm_read_logic_page ni addr data oob mode) (\<lambda>(ret, data', oob', ni').
    dev_step Q ni ni' \<and> fills data data' \<and> fills oob oob')"
proof -
  define pb where "pb = block_mapping ni ! unat (addr2ba ni addr)"
  have get: "arr_get (block_mapping ni) (unat (addr2ba ni addr)) = Some pb" using lb by (simp add: arr_get_def pb_def)
  have "lower_ok (lower ni)" using api_okD(2) [OF ok] by (simp add: dev_wf_def)
  note rd = nmbm_read_phys_page_returns [OF this api_okD(7) [OF ok]]
  show ?thesis
  proof (cases "sint pb < 0")
    case True
    with get show ?thesis by (simp add: nmbm_read_logic_page_def)
  next
    case False
    have "unat pb < 16 * length (block_state ni)"
      by (rule map_entry_bound [OF ok _ False]) (use lb in \<open>simp add: pb_def\<close>)
    with get False rd show ?thesis by (simp add: nmbm_read_logic_page_def returns_simps)
  qed
qed

lemma read_range_page_post:
  assumes ok: "api_ok Q A S ni0 ni" and n: "n \<noteq> 0" and len: "pos + unat n \<le> length data"
    and r: "unat off + unat n \<le> unat (nb :: u32) * unat (erasesize (lower ni))"
    and nb: "unat nb \<le> length (block_mapping ni)"
  shows "returns (read_range_page ni data pos off n mode) (\<lambda>(ret, data', ni'). dev_step Q ni ni' \<and>
    length data' = length data \<and> take pos data' = take pos data \<and>
    drop (pos + unat (range_chunk ni off n)) data' = drop (pos + unat (range_chunk ni off n)) data)"
proof -
  note b = range_chunk_bounds [OF api_okD(3) [OF ok] n, of off]
  let ?l = "range_leading ni off" and ?c = "range_chunk ni off n" and ?ws = "unat (writesize (lower ni))"
  have lb: "unat (addr2ba ni (off - ?l)) < length (block_mapping ni)"
    using range_page_block [OF api_okD(3) [OF ok] n r] nb by simp
  note rd = read_logic_page_post [OF ok lb]
  have len_c: "pos + unat ?c \<le> length data" using len b(2) by (simp add: word_le_nat_alt)
  have pc: "?ws \<le> length (page_cache ni)" using api_okD(2) [OF ok] by (simp add: dev_wf_def)
  show ?thesis
  proof (cases "?c = ucast (writesize (lower ni))")
    case True
    then have c: "unat ?c = ?ws" by simp
    let ?buf = "take ?ws (drop pos data)"
    from rd [of "Some ?buf" None mode] obtain ret x ni1
      where e: "nmbm_read_logic_page ni (off - ?l) (Some ?buf) None mode = Some (ret, Some x, None, ni1)"
      and d: "dev_step Q ni ni1" and x: "length x = ?ws"
      using len_c c by (auto simp: returns_iff fills_Some)
    obtain d1 where w: "mem_write data pos x = Some d1" using mem_write_Some [of pos x data] x len_c c by auto
    show ?thesis
      using True len_c c e d x w take_mem_write [OF w] drop_mem_write [OF w] length_mem_write [OF w]
      by (simp add: read_range_page_def Let_def mem_read_def)
  next
    case False
    let ?buf = "take ?ws (page_cache ni)"
    from rd [of "Some ?buf" None mode] obtain ret x ni1
      where e: "nmbm_read_logic_page ni (off - ?l) (Some ?buf) None mode = Some (ret, Some x, None, ni1)"
      and d: "dev_step Q ni ni1" and x: "length x = ?ws"
      using pc by (auto simp: returns_iff fills_Some)
    have pc1: "length (page_cache ni1) = length (page_cache ni)" by (rule dev_step_fields(7) [OF d])
    obtain p where p: "mem_write (page_cache ni1) 0 x = Some p" and lp: "length p = length (page_cache ni)"
      using mem_write_Some [of 0 x "page_cache ni1"] x pc pc1 length_mem_write by fastforce
    have d2: "dev_step Q ni (ni1\<lparr>page_cache := p\<rparr>)"
      by (rule dev_step_trans [OF d dev_step_page_cache]) (simp add: lp pc1)
    let ?y = "take (unat ?c) (drop (unat ?l) p)"
    have y: "length ?y = unat ?c" using b(3) lp pc by simp
    obtain d1 where w: "mem_write data pos ?y = Some d1" using mem_write_Some [of pos ?y data] y len_c by auto
    show ?thesis
      using False pc e p lp b(3) w d2 y take_mem_write [OF w] drop_mem_write [OF w] length_mem_write [OF w]
      by (simp add: read_range_page_def Let_def mem_read_def)
  qed
qed

text \<open>
  The loop stops early only on an error other than \<open>EBADMSG\<close>; it touches the bytes asked for
  and nothing else of the buffer.
\<close>

definition read_loop_post ::
  "('d \<Rightarrow> bool) \<Rightarrow> 'd nmbm_instance \<Rightarrow> bytes \<Rightarrow> nat \<Rightarrow> u64
     \<Rightarrow> int \<times> bool \<times> int \<times> bytes \<times> u64 \<times> 'd nmbm_instance \<Rightarrow> bool" where
  "read_loop_post Q ni data pos n = (\<lambda>(ret, ecc, bf, data', rem, ni').
     read_data_post Q ni data pos (unat n) (0, data', ni') \<and> rem \<le> n \<and> 0 \<le> bf \<and>
     (rem = 0 \<longleftrightarrow> 0 \<le> ret \<or> ret = - EBADMSG))"

lemma read_range_loop_post:
  "api_ok Q A S ni0 ni \<Longrightarrow> pos + unat n \<le> length data \<Longrightarrow> 0 \<le> bf \<Longrightarrow> 0 \<le> ret \<or> ret = - EBADMSG \<Longrightarrow>
   unat off + unat n \<le> unat (nb :: u32) * unat (erasesize (lower ni)) \<Longrightarrow>
   unat nb \<le> length (block_mapping ni) \<Longrightarrow>
   returns (read_range_loop ni data pos off n mode ret ecc bf) (read_loop_post Q ni data pos n)"
proof (induction "unat n" arbitrary: ni data pos off n ret ecc bf rule: less_induct)
  case less
  note ok = less.prems(1)
  show ?case
  proof (cases "n = 0")
    case True
    with less.prems show ?thesis
      by (subst read_range_loop.simps) (simp add: read_loop_post_def read_data_post_def)
  next
    case False
    let ?c = "range_chunk ni off n"
    note b = range_chunk_bounds [OF api_okD(3) [OF ok] False, of off]
    have cle: "unat ?c \<le> unat n" using b(2) by (simp add: word_le_nat_alt)
    have sub: "unat (n - ?c) = unat n - unat ?c" using b(2) by (rule unat_sub)
    have "unat off + unat n \<le> unat (ba2addr ni nb)"
      using less.prems(5) by (simp add: unat_ba2addr [OF api_okD(3) [OF ok]])
    then have off: "unat (off + ?c) = unat off + unat ?c"
      using cle unat_u64_less [of "ba2addr ni nb"] by (simp add: unat_word_ariths)
    from read_range_page_post [OF ok False less.prems(2,5,6), of mode] obtain r d1 ni1
      where w: "read_range_page ni data pos off n mode = Some (r, d1, ni1)" and d: "dev_step Q ni ni1"
      and q: "length d1 = length data" "take pos d1 = take pos data"
        "drop (pos + unat ?c) d1 = drop (pos + unat ?c) data"
      by (auto simp: returns_iff)
    note cont = read_data_post_step [OF _ d cle q]
    show ?thesis
    proof (cases "r < 0 \<and> r \<noteq> - EBADMSG")
      case True
      have "read_data_post Q ni data pos (unat n) (0, d1, ni1)"
        by (rule cont) (simp add: read_data_post_def)
      with True False w less.prems(3) show ?thesis
        by (subst read_range_loop.simps) (auto simp: read_loop_post_def Let_def)
    next
      case go: False
      have e: "lower ni1 = lower ni" "block_mapping ni1 = block_mapping ni"
        using d by (auto simp: dev_step_def)
      have "returns (read_range_loop ni1 d1 (pos + unat ?c) (off + ?c) (n - ?c) mode r (ecc \<or> r = - EBADMSG)
          (if r > bf then r else bf)) (read_loop_post Q ni1 d1 (pos + unat ?c) (n - ?c))"
        by (rule less.hyps [OF _ api_ok_dev_step [OF ok d]])
          (use less.prems(2,3,5,6) b(1) cle sub off e q(1) go in auto)
      moreover have "n - ?c \<le> n" using sub by (simp add: word_le_nat_alt)
      ultimately have "returns (read_range_loop ni1 d1 (pos + unat ?c) (off + ?c) (n - ?c) mode r
          (ecc \<or> r = - EBADMSG) (if r > bf then r else bf)) (read_loop_post Q ni data pos n)"
        by (elim returns_mono) (auto simp: read_loop_post_def sub intro: cont)
      with False w go show ?thesis by (subst read_range_loop.simps) (auto simp: Let_def)
    qed
  qed
qed

lemma read_range_post:
  assumes ok: "api_ok Q A S ni ni" and ov: "unat addr + unat sz < 2 ^ 64" and len: "unat sz \<le> length data"
  shows "returns (nmbm_read_range ni addr sz data mode) (\<lambda>(ret, retlen, data', ni').
    dev_step Q ni ni' \<and> length data' = length data \<and> drop (unat sz) data' = drop (unat sz) data \<and>
    (case retlen of
       None \<Rightarrow> ni' = ni \<and> data' = data \<and> (ret = - EROFS \<or> ret = - EINVAL \<or> ret = 0 \<and> sz = 0)
     | Some n \<Rightarrow> n \<le> sz \<and> (n = sz \<longleftrightarrow> 0 \<le> ret \<or> ret = - EBADMSG)))"
proof -
  let ?lim = "ba2addr ni (data_block_count ni)"
  consider "protected ni \<or> addr \<ge> ?lim \<or> addr + sz > ?lim \<or> sz = 0"
    | "\<not> protected ni" "addr < ?lim" "\<not> addr + sz > ?lim" "sz \<noteq> 0"
    by (meson not_le)
  then show ?thesis
  proof cases
    case 1
    then show ?thesis by (auto simp: nmbm_read_range_def)
  next
    case 2
    from read_range_loop_post [OF ok, of 0 sz data 0 0 addr "data_block_count ni" mode False]
      range_limit [OF api_okD(3) [OF ok] ov 2(3)] len api_ok_data_blocks [OF ok]
    obtain ret ecc bf data' rem ni' where l: "read_range_loop ni data 0 addr sz mode 0 False 0 = Some (ret, ecc, bf, data', rem, ni')"
      and p: "read_loop_post Q ni data 0 sz (ret, ecc, bf, data', rem, ni')"
      by (auto simp: returns_iff)
    have "sz - rem \<le> sz" using p by (simp add: read_loop_post_def word_le_nat_alt unat_sub)
    moreover have "sz - rem = sz \<longleftrightarrow> rem = 0" by auto
    ultimately show ?thesis
      using 2 l p by (auto simp: nmbm_read_range_def not_le [symmetric] read_loop_post_def read_data_post_def)
  qed
qed

lemma mark_bad_block_post:
  assumes ok: "api_ok Q A S ni ni" and a: "addr < ba2addr ni (data_block_count ni)"
    and S: "mapped_in S ni (unat (addr2ba ni addr)) (unat (addr2ba ni addr))"
    and rw: "\<not> protected ni" "\<not> read_only ni"
  shows "returns (nmbm_mark_bad_block crc ni addr) (\<lambda>(ret, ni'). ret = 0 \<and> api_ok Q A S ni ni' \<and>
    data_block_count ni' = data_block_count ni \<and>
    (\<exists>v. block_mapping ni' = (block_mapping ni)[unat (addr2ba ni addr) := v] \<and> sint v < 0))"
proof -
  note lb = data_block_mapped [OF ok a]
  define pb where "pb = block_mapping ni ! unat (addr2ba ni addr)"
  have get: "arr_get (block_mapping ni) (unat (addr2ba ni addr)) = Some pb" using lb by (simp add: arr_get_def pb_def)
  show ?thesis
  proof (cases "sint pb < 0")
    case True
    with get rw a ok show ?thesis
      by (auto simp: nmbm_mark_bad_block_def not_le [symmetric] pb_def
          intro!: exI [of _ "block_mapping ni ! unat (addr2ba ni addr)"])
  next
    case False
    have pS: "unat pb \<in> S" using S False by (auto simp: mapped_in_def pb_def)
    have b: "unat pb < 16 * length (block_state ni)"
      by (rule map_entry_bound [OF ok _ False]) (use lb in \<open>simp add: pb_def\<close>)
    let ?ni1 = "ni\<lparr>block_mapping := (block_mapping ni)[unat (addr2ba ni addr) := - 1]\<rparr>"
    have "map_wf ?ni1"
      using api_okD(6) [OF ok] set_update_subset_insert [of "block_mapping ni" "unat (addr2ba ni addr)" "- 1"]
      by (auto simp: map_wf_def)
    then have ok1: "api_ok Q A S ni ?ni1"
      by (intro api_ok_update [OF ok])
        (use api_okD(5) [OF ok] in \<open>auto simp: api_step_def api_restore_def mg_restore_def order_wf_def\<close>)
    from skip_bad_api [OF ok1 pS] b obtain ni2 where s: "skip_bad_block ?ni1 pb = Some ni2"
      and ok2: "api_ok Q A S ni ni2" and bm: "block_mapping ni2 = block_mapping ?ni1"
        "data_block_count ni2 = data_block_count ni"
      by (auto simp: returns_iff)
    from update_info_table_api [OF ok2, of crc] obtain x ni3
      where u: "nmbm_update_info_table crc ni2 = Some (x, ni3)" and ok3: "api_ok Q A S ni ni3" and m: "mg_step Q ni2 ni3"
      by (auto simp: returns_iff)
    show ?thesis
      using get False rw a lb s u ok3 bm
      by (auto simp: nmbm_mark_bad_block_def not_le [symmetric] arr_set_def returns_simps Let_def
          mg_step_fields [OF m] intro!: exI [of _ "- 1"])
  qed
qed

lemma mark_then_check_bad:
  assumes ok: "api_ok Q A S ni ni" and a: "addr < ba2addr ni (data_block_count ni)"
    and S: "mapped_in S ni (unat (addr2ba ni addr)) (unat (addr2ba ni addr))"
    and rw: "\<not> protected ni" "\<not> read_only ni"
  shows "returns (nmbm_mark_bad_block crc ni addr) (\<lambda>(ret, ni').
    ret = 0 \<and> api_ok Q A S ni ni' \<and> nmbm_check_bad_block ni' addr = Some 1)"
proof (rule returns_mono [OF mark_bad_block_post [OF assms]], clarify)
  fix ni' v
  assume ok': "api_ok Q A S ni ni'" and d: "data_block_count ni' = data_block_count ni"
    and bm: "block_mapping ni' = (block_mapping ni)[unat (addr2ba ni addr) := v]" and v: "sint v < 0"
  note f = api_step_fields(5,6) [OF api_okD(9) [OF ok']]
  show "0 = (0 :: int) \<and> api_ok Q A S ni ni' \<and> nmbm_check_bad_block ni' addr = Some 1"
    using ok' a v data_block_mapped(2) [OF ok a]
    by (simp add: nmbm_check_bad_block_def f d bm arr_get_def not_le [symmetric])
qed

end
