(* ===== verification/Nmbm_Load.thy ===== *)
theory Nmbm_Load
  imports Nmbm_Map
begin

text \<open>
  Finding and loading the management data of a chip (\<open>nmbm-core.c\<close>, lines 1727 to 2156): the
  checks of an info table, the search for the two copies, the choice between them, and the
  search for the signature.

  The tables inside a loaded cache are found through offsets that come from the chip. An access
  outside the cache is undefined, hence \<open>None\<close>.
\<close>

section \<open>Checking a table\<close>

definition nmbm_check_info_table_header :: "'d nmbm_instance \<Rightarrow> nmbm_info_table_header \<Rightarrow> bool" where
  "nmbm_check_info_table_header ni ifthdr \<longleftrightarrow>
     \<not> magic (ith_header ifthdr) \<noteq> NMBM_MAGIC_INFO_TABLE \<and>
     \<not> hdr_size (ith_header ifthdr) \<noteq> info_table_size ni \<and>
     \<not> mapping_table_off ifthdr - state_table_off ifthdr < state_table_size ni \<and>
     \<not> info_table_size ni - mapping_table_off ifthdr < mapping_table_size ni"

text \<open>The array of 32-bit words that starts at a byte offset.\<close>

definition table_words :: "bytes \<Rightarrow> u32 \<Rightarrow> u32 list" where
  "table_words data off = words_of_bytes ((length data - unat off) div 4) (drop (unat off) data)"

function check_mapping_loop ::
  "u32 list \<Rightarrow> u32 \<Rightarrow> u32 \<Rightarrow> u32 \<Rightarrow> u32 \<Rightarrow> u32 \<Rightarrow> u32 option option" where
  "check_mapping_loop mapping dbc sig_ba end_ba ba min_pb =
     (if ba < dbc then
        do {
          pb \<leftarrow> arr_get mapping (unat ba);
          if pb \<ge> dbc \<and> pb < end_ba \<or> pb = sig_ba then Some None
          else check_mapping_loop mapping dbc sig_ba end_ba (ba + 1)
                 (if pb \<ge> end_ba \<and> pb < min_pb then pb else min_pb)
        }
      else Some (Some min_pb))"
  by pat_completeness auto
termination
  by (relation "measure (\<lambda>(mapping, dbc, sig_ba, end_ba, ba, min_pb). unat dbc - unat ba)")
    (auto simp: word_less_nat_alt)

function check_states_loop ::
  "'d nmbm_instance \<Rightarrow> u32 list \<Rightarrow> u32 \<Rightarrow> u32 \<Rightarrow> bool option" where
  "check_states_loop ni bs ba end_ba =
     (if ba < end_ba then
        do {
          st \<leftarrow> nmbm_get_block_state ni ba;
          if st \<noteq> BLOCK_ST_GOOD then check_states_loop ni bs (ba + 1) end_ba
          else do {
            st \<leftarrow> nmbm_get_block_state_raw bs ba;
            if st \<noteq> BLOCK_ST_GOOD then Some False else check_states_loop ni bs (ba + 1) end_ba
          }
        }
      else Some True)"
  by pat_completeness auto
termination
  by (relation "measure (\<lambda>(ni, bs, ba, end_ba). unat end_ba - unat ba)") (auto simp: word_less_nat_alt)

declare check_mapping_loop.simps [simp del] check_states_loop.simps [simp del]

text \<open>The result is \<open>mapping_blocks_top_ba\<close>, \<open>None\<close> for an invalid table.\<close>

definition nmbm_check_info_table ::
  "'d nmbm_instance \<Rightarrow> u32 \<Rightarrow> u32 \<Rightarrow> bytes \<Rightarrow> u32 option option" where
  "nmbm_check_info_table ni start_ba end_ba data =
     do {
       hb \<leftarrow> mem_read data 0 32;
       let ifthdr = ith_of_bytes hb;
       min_pb \<leftarrow> check_mapping_loop (table_words data (mapping_table_off ifthdr)) (data_block_count ni)
                   (signature_ba ni) end_ba 0 (signature_ba ni);
       case min_pb of
         None \<Rightarrow> Some None
       | Some min_pb \<Rightarrow>
           do {
             ok \<leftarrow> check_states_loop ni (table_words data (state_table_off ifthdr)) start_ba end_ba;
             Some (if ok then Some (min_pb - 1) else None)
           }
     }"

section \<open>Loading a table\<close>

text \<open>
  One block of the loop in \<open>nmbm_try_load_info_table\<close>: skip the block, stop (\<open>return false\<close>), or
  take the chunk.
\<close>

datatype load_step = LoadSkip | LoadStop | LoadTaken

definition try_load_block ::
  "'d nmbm_instance \<Rightarrow> u32 \<Rightarrow> nat \<Rightarrow> u32 \<Rightarrow> bool \<Rightarrow> (load_step \<times> 'd nmbm_instance) option" where
  "try_load_block ni ba pos chunksize checkhdr =
     do {
       st \<leftarrow> nmbm_get_block_state ni ba;
       if st \<noteq> BLOCK_ST_GOOD then Some (LoadSkip, ni)
       else do {
         (bad, ni) \<leftarrow> nmbm_check_bad_phys_block ni ba;
         if bad then do { (_, ni) \<leftarrow> nmbm_set_block_state ni ba BLOCK_ST_BAD; Some (LoadSkip, ni) }
         else do {
           (ret, cache, ni) \<leftarrow> nmbn_read_data ni (ba2addr ni ba) (info_table_cache ni) pos chunksize;
           let ni = ni\<lparr>info_table_cache := cache\<rparr>;
           if ret < 0 then do { (_, ni) \<leftarrow> nmbm_set_block_state ni ba BLOCK_ST_BAD; Some (LoadSkip, ni) }
           else if ret > 0 then Some (LoadStop, ni)
           else if checkhdr then do {
             hb \<leftarrow> mem_read (info_table_cache ni) pos 32;
             Some (if nmbm_check_info_table_header ni (ith_of_bytes hb) then LoadTaken else LoadStop, ni)
           }
           else Some (LoadTaken, ni)
         }
       }
     }"

text \<open>The result is (\<open>sizeremain\<close>, \<open>start_ba\<close>, \<open>ba\<close>), \<open>None\<close> after \<open>return false\<close>.\<close>

function try_load_loop ::
  "'d nmbm_instance \<Rightarrow> u32 \<Rightarrow> u32 \<Rightarrow> nat \<Rightarrow> u32 \<Rightarrow> u32 \<Rightarrow> bool
     \<Rightarrow> ((u32 \<times> u32 \<times> u32) option \<times> 'd nmbm_instance) option" where
  "try_load_loop ni ba limit pos sizeremain start_ba checkhdr =
     (if sizeremain \<noteq> 0 \<and> ba < limit then
        do {
          let chunksize = (if sizeremain > erasesize (lower ni) then erasesize (lower ni) else sizeremain);
          (step, ni) \<leftarrow> try_load_block ni ba pos chunksize checkhdr;
          if step = LoadStop then Some (None, ni)
          else if step = LoadTaken
          then try_load_loop ni (ba + 1) limit (pos + unat chunksize) (sizeremain - chunksize)
                 (if checkhdr then ba else start_ba) False
          else try_load_loop ni (ba + 1) limit pos sizeremain start_ba checkhdr
        }
      else Some (Some (sizeremain, start_ba, ba), ni))"
  by pat_completeness auto
termination
  by (relation "measure (\<lambda>(ni, ba, limit, pos, sizeremain, start_ba, checkhdr). unat limit - unat ba)")
    (auto simp: word_less_nat_alt)

declare try_load_loop.simps [simp del]

text \<open>Copying the table from the cache into the instance.\<close>

definition take_loaded_table :: "'d nmbm_instance \<Rightarrow> 'd nmbm_instance option" where
  "take_loaded_table ni =
     do {
       hb \<leftarrow> mem_read (info_table_cache ni) 0 32;
       let ifthdr = ith_of_bytes hb;
       sb \<leftarrow> mem_read (info_table_cache ni) (unat (state_table_off ifthdr)) (unat (state_table_size ni));
       mb \<leftarrow> mem_read (info_table_cache ni) (unat (mapping_table_off ifthdr)) (unat (mapping_table_size ni));
       Some (ni\<lparr>info_table := ifthdr,
                block_state := words_of_bytes (unat (state_table_size ni) div 4) sb,
                block_mapping := words_of_bytes (unat (mapping_table_size ni) div 4) mb\<rparr>)
     }"

text \<open>On success: (\<open>eba\<close>, \<open>write_count\<close>, \<open>mapping_blocks_top_ba\<close>).\<close>

definition nmbm_try_load_info_table ::
  "crc_fn \<Rightarrow> 'd nmbm_instance \<Rightarrow> u32 \<Rightarrow> bool \<Rightarrow> ((u32 \<times> u32 \<times> u32) option \<times> 'd nmbm_instance) option" where
  "nmbm_try_load_info_table crc ni ba table_loaded =
     do {
       let limit = ba + info_table_blocks ni;
       (res, ni) \<leftarrow> try_load_loop ni ba limit 0 (info_table_size ni) 0 True;
       case res of
         None \<Rightarrow> Some (None, ni)
       | Some (sizeremain, start_ba, ba) \<Rightarrow>
           if sizeremain \<noteq> 0 then Some (None, ni)
           else do {
             ok \<leftarrow> nmbm_check_header crc (info_table_cache ni) (info_table_size ni);
             if \<not> ok then Some (None, ni)
             else do {
               hb \<leftarrow> mem_read (info_table_cache ni) 0 32;
               let wc = write_count (ith_of_bytes hb);
               top_ba \<leftarrow> nmbm_check_info_table ni start_ba ba (info_table_cache ni);
               case top_ba of
                 None \<Rightarrow> Some (None, ni)
               | Some top_ba \<Rightarrow>
                   do {
                     ni \<leftarrow> (if \<not> table_loaded \<or> wc > write_count (info_table ni)
                            then take_loaded_table ni else Some ni);
                     Some (Some (ba, wc, top_ba), ni)
                   }
             }
           }
     }"

text \<open>
  \<open>last_ba\<close> is \<open>limit - size2blk(ni, ni->info_table_size)\<close>, which no round changes. On success:
  (\<open>table_start_ba\<close>, \<open>table_end_ba\<close>, \<open>write_count\<close>, \<open>mapping_blocks_top_ba\<close>).
\<close>

function search_loop ::
  "crc_fn \<Rightarrow> 'd nmbm_instance \<Rightarrow> u32 \<Rightarrow> u32 \<Rightarrow> bool
     \<Rightarrow> ((u32 \<times> u32 \<times> u32 \<times> u32) option \<times> 'd nmbm_instance) option" where
  "search_loop crc ni ba last_ba table_loaded =
     (if ba < last_ba then
        do {
          (res, ni) \<leftarrow> nmbm_try_load_info_table crc ni ba table_loaded;
          case res of
            Some (eba, wc, top_ba) \<Rightarrow> Some (Some (ba, eba, wc, top_ba), ni)
          | None \<Rightarrow> search_loop crc ni (ba + 1) last_ba table_loaded
        }
      else Some (None, ni))"
  by pat_completeness auto
termination
  by (relation "measure (\<lambda>(crc, ni, ba, last_ba, table_loaded). unat last_ba - unat ba)")
    (auto simp: word_less_nat_alt)

declare search_loop.simps [simp del]

definition nmbm_search_info_table ::
  "crc_fn \<Rightarrow> 'd nmbm_instance \<Rightarrow> u32 \<Rightarrow> u32 \<Rightarrow> bool
     \<Rightarrow> ((u32 \<times> u32 \<times> u32 \<times> u32) option \<times> 'd nmbm_instance) option" where
  "nmbm_search_info_table crc ni ba limit table_loaded =
     search_loop crc ni ba (limit - info_table_blocks ni) table_loaded"

function data_count_loop :: "u32 list \<Rightarrow> u32 \<Rightarrow> u32 \<Rightarrow> u32 option" where
  "data_count_loop bm i dbc =
     (if i > 0 then
        do {
          v \<leftarrow> arr_get bm (unat (i - 1));
          if sint v \<ge> 0 then Some i else data_count_loop bm (i - 1) dbc
        }
      else Some dbc)"
  by pat_completeness auto
termination
  by (relation "measure (\<lambda>(bm, i, dbc). unat i)") (auto simp: unat_gt_0)

declare data_count_loop.simps [simp del]

text \<open>The end of \<open>nmbm_load_info_table\<close>: write the missing or older copy, protect the chip.\<close>

definition load_sync ::
  "'d nmbm_instance \<Rightarrow> u32 \<Rightarrow> u32 \<Rightarrow> (bool \<times> 'd nmbm_instance) option" where
  "load_sync ni main_wc backup_wc =
     do {
       (success, ni) \<leftarrow>
         (if backup_table_ba ni = 0 then nmbm_rescue_single_info_table ni
          else if main_wc \<noteq> backup_wc
          then nmbm_update_single_info_table (ni\<lparr>block_state_changed := 1, block_mapping_changed := 1\<rparr>)
                 (main_wc < backup_wc)
          else Some (True, ni));
       Some (True, if mapping_blocks_ba ni = mapping_blocks_top_ba ni \<or> \<not> success
                   then ni\<lparr>protected := True\<rparr> else ni)
     }"

definition nmbm_load_info_table ::
  "crc_fn \<Rightarrow> 'd nmbm_instance \<Rightarrow> u32 \<Rightarrow> u32 \<Rightarrow> (bool \<times> 'd nmbm_instance) option" where
  "nmbm_load_info_table crc ni ba limit =
     do {
       let ni = ni\<lparr>main_table_ba := 0, backup_table_ba := 0,
                   info_table := (info_table ni)\<lparr>write_count := 0\<rparr>,
                   mapping_blocks_top_ba := signature_ba ni - 1,
                   data_block_count := mgmt_start_pb (signature ni)\<rparr>;
       (main, ni) \<leftarrow> nmbm_search_info_table crc ni ba limit False;
       case main of
         None \<Rightarrow> Some (False, ni)
       | Some (main_ba, main_end_ba, main_wc, main_top_ba) \<Rightarrow>
           do {
             (backup, ni) \<leftarrow> nmbm_search_info_table crc (ni\<lparr>main_table_ba := main_ba\<rparr>) main_end_ba limit True;
             let (backup_ba, end_ba, backup_wc, backup_top_ba) =
               (case backup of None \<Rightarrow> (0, main_end_ba, 0, 0) | Some b \<Rightarrow> b);
             let ni = ni\<lparr>backup_table_ba := backup_ba,
                         mapping_blocks_top_ba :=
                           (if backup_ba = 0 \<or> main_wc \<ge> backup_wc then main_top_ba else backup_top_ba),
                         mapping_blocks_ba := end_ba\<rparr>;
             dbc \<leftarrow> data_count_loop (block_mapping ni) (mgmt_start_pb (signature ni)) (data_block_count ni);
             (_, ni) \<leftarrow> nmbm_generate_info_table_cache crc (ni\<lparr>data_block_count := dbc\<rparr>);
             if read_only ni then Some (True, ni) else load_sync ni main_wc backup_wc
           }
     }"

definition nmbm_load_existing ::
  "crc_fn \<Rightarrow> 'd nmbm_instance \<Rightarrow> (bool \<times> 'd nmbm_instance) option" where
  "nmbm_load_existing crc ni =
     do {
       let ni = ni\<lparr>mgmt_start_ba := mgmt_start_pb (signature ni)\<rparr>;
       (success, ni) \<leftarrow> nmbm_load_info_table crc ni (mgmt_start_ba ni) (signature_ba ni);
       if success then Some (True, ni)
       else if flags (lower ni) AND NMBM_F_CREATE = 0 then Some (False, ni)
       else do {
         ni \<leftarrow> nmbm_scan_badblocks ni;
         ni \<leftarrow> nmbm_build_mapping_table ni;
         if read_only ni then Some (True, ni) else nmbm_create_info_table crc ni
       }
     }"

section \<open>Finding the signature\<close>

text \<open>The pages of one block; \<open>sig\<close> is the 48-byte local buffer.\<close>

fun find_in_pages ::
  "crc_fn \<Rightarrow> 'd nmbm_instance \<Rightarrow> u64 \<Rightarrow> u64 list \<Rightarrow> bytes \<Rightarrow> (bool \<times> bytes \<times> 'd nmbm_instance) option" where
  "find_in_pages crc ni addr [] sig = Some (False, sig, ni)"
| "find_in_pages crc ni addr (off # offs) sig =
     do {
       (ret, sig, ni) \<leftarrow> nmbn_read_data ni (addr + off) sig 0 48;
       if ret \<noteq> 0 then find_in_pages crc ni addr offs sig
       else do {
         ok \<leftarrow> nmbm_check_header crc sig 48;
         if ok \<and> magic (hdr_of_bytes sig) = NMBM_MAGIC_SIGNATURE then Some (True, sig, ni)
         else find_in_pages crc ni addr offs sig
       }
     }"

text \<open>With \<open>limit\<close> = 0 the loop \<open>while (ba >= limit)\<close> does not end.\<close>

partial_function (option) find_loop ::
  "crc_fn \<Rightarrow> 'd nmbm_instance \<Rightarrow> u32 \<Rightarrow> u32 \<Rightarrow> bytes \<Rightarrow> ((u32 \<times> bytes) option \<times> 'd nmbm_instance) option" where
  "find_loop crc ni ba limit sig =
     (if ba \<ge> limit then
        do {
          (bad, ni) \<leftarrow> nmbm_check_bad_phys_block ni (ba - 1);
          if bad then find_loop crc ni (ba - 1) limit sig
          else do {
            (found, sig, ni) \<leftarrow> find_in_pages crc ni (ba2addr ni (ba - 1))
                                  (page_offsets (erasesize (lower ni)) (writesize (lower ni))) sig;
            if found then Some (Some (ba - 1, sig), ni) else find_loop crc ni (ba - 1) limit sig
          }
        }
      else Some (None, ni))"

definition find_limit :: "'d nmbm_instance \<Rightarrow> u32 \<Rightarrow> u32" where
  "find_limit ni bc =
     (let limit = bc div NMBM_MGMT_DIV * (NMBM_MGMT_DIV - max_ratio (lower ni))
      in if max_reserved_blocks (lower ni) \<noteq> 0 \<and> bc - limit > max_reserved_blocks (lower ni)
         then bc - max_reserved_blocks (lower ni) else limit)"

definition nmbm_find_signature ::
  "crc_fn \<Rightarrow> 'd nmbm_instance \<Rightarrow> bytes \<Rightarrow> ((u32 \<times> nmbm_signature) option \<times> 'd nmbm_instance) option" where
  "nmbm_find_signature crc ni sig =
     do {
       let bc = ucast (drop_bit (unat (erasesize_shift ni)) (nld_size (lower ni)));
       (res, ni) \<leftarrow> find_loop crc ni bc (find_limit ni bc) sig;
       Some (map_option (\<lambda>(ba, sig). (ba, sig_of_bytes sig)) res, ni)
     }"

end
