(* ===== verification/Nmbm_Attach.thy ===== *)
theory Nmbm_Attach
  imports Nmbm_Load
begin

text \<open>
  Attaching to a chip (\<open>nmbm-core.c\<close>, lines 2158 to 2398): the checks of the lower device, the
  layout of the instance in memory, \<open>nmbm_attach\<close> and \<open>nmbm_detach\<close>.

  \<open>mem\<close> is the memory behind the instance structure, which the caller allocates with the size
  \<open>nmbm_calc_structure_size\<close> computes; its initial contents are arbitrary.
\<close>

definition is_power_of_2_u64 :: "u64 \<Rightarrow> bool" where
  "is_power_of_2_u64 n \<longleftrightarrow> n \<noteq> 0 \<and> n AND (n - 1) = 0"

text \<open>The kernel's \<open>ffs\<close>.\<close>

definition ffs :: "u32 \<Rightarrow> nat" where
  "ffs x = (case find (bit x) [0..<32] of None \<Rightarrow> 0 | Some i \<Rightarrow> Suc i)"

text \<open>The result is the device with its defaults filled in.\<close>

definition nmbm_check_lower_members :: "'d nmbm_lower_device \<Rightarrow> 'd nmbm_lower_device option" where
  "nmbm_check_lower_members nld =
     (if nld_size nld = 0 \<or> \<not> is_power_of_2_u64 (nld_size nld) then None
      else if erasesize nld = 0 \<or> \<not> is_power_of_2 (erasesize nld) then None
      else if writesize nld = 0 \<or> \<not> is_power_of_2 (writesize nld) then None
      else if oobsize nld = 0 then None
      else if read_page nld = None then None
      else if flags nld AND NMBM_F_READ_ONLY = 0 \<and> (write_page nld = None \<or> erase_block nld = None) then None
      else let nld = (if max_ratio nld = 0 then nld\<lparr>max_ratio := 1\<rparr> else nld) in
        if max_ratio nld \<ge> NMBM_MGMT_DIV - 1 then None
        else if max_reserved_blocks nld \<noteq> 0 \<and> max_reserved_blocks nld < NMBM_MGMT_BLOCKS_MIN then None
        else Some nld)"

definition nmbm_align :: "u32 \<Rightarrow> u32 \<Rightarrow> u32" where
  "nmbm_align v a = (v + a - 1) AND NOT (a - 1)"

definition nmbm_lldiv :: "u64 \<Rightarrow> u32 \<Rightarrow> u32" where
  "nmbm_lldiv dividend divisor = ucast (dividend div ucast divisor)"

definition state_bytes :: "u32 \<Rightarrow> u32" where
  "state_bytes bc = (bc + NMBM_BITMAP_BLOCKS_PER_UNIT - 1) div NMBM_BITMAP_BLOCKS_PER_UNIT * NMBM_BITMAP_UNIT_SIZE"

text \<open>The size without \<open>sizeof(struct nmbm_instance)\<close>: what the caller allocates for \<open>mem\<close>.\<close>

definition nmbm_calc_structure_size :: "'d nmbm_lower_device \<Rightarrow> u32" where
  "nmbm_calc_structure_size nld =
     (let block_count = nmbm_lldiv (nld_size nld) (erasesize nld);
          state_table_size = state_bytes block_count;
          mapping_table_size = block_count * 4;
          info_table_size = nmbm_align 32 (writesize nld);
          info_table_size = info_table_size + nmbm_align state_table_size (writesize nld);
          info_table_size = info_table_size + nmbm_align mapping_table_size (writesize nld)
      in info_table_size + state_table_size + mapping_table_size + writesize nld + oobsize nld)"

definition nmbm_init_structure :: "'d nmbm_instance \<Rightarrow> bytes \<Rightarrow> 'd nmbm_instance option" where
  "nmbm_init_structure ni mem =
     (let l = lower ni;
          pages_per_block = erasesize l div writesize l;
          blocks_per_chip = nmbm_lldiv (nld_size l) (erasesize l);
          ni = ni\<lparr>rawpage_size := writesize l + oobsize l\<rparr>;
          ni = ni\<lparr>rawblock_size := pages_per_block * rawpage_size ni\<rparr>;
          ni = ni\<lparr>rawchip_size := blocks_per_chip * rawblock_size ni,
                  writesize_mask := writesize l - 1, erasesize_mask := erasesize l - 1,
                  writesize_shift := of_nat (ffs (writesize l) - 1),
                  erasesize_shift := of_nat (ffs (erasesize l) - 1)\<rparr>;
          ni = ni\<lparr>block_count := ucast (drop_bit (unat (erasesize_shift ni)) (nld_size l))\<rparr>;
          ni = ni\<lparr>state_table_size := state_bytes (block_count ni),
                  mapping_table_size := block_count ni * 4\<rparr>;
          state_off = nmbm_align 32 (writesize l);
          map_off = state_off + nmbm_align (state_table_size ni) (writesize l);
          ni = ni\<lparr>info_table := (info_table ni)\<lparr>state_table_off := state_off, mapping_table_off := map_off\<rparr>,
                  info_table_size := map_off + nmbm_align (mapping_table_size ni) (writesize l)\<rparr>;
          ni = ni\<lparr>info_table_spare_blocks := nmbm_get_spare_block_count (info_table_blocks ni)\<rparr>;
          its = unat (info_table_size ni); sts = unat (state_table_size ni); mts = unat (mapping_table_size ni)
      in do {
        cache \<leftarrow> mem_read mem 0 its;
        _ \<leftarrow> mem_read mem its sts;
        bm \<leftarrow> mem_read mem (its + sts) mts;
        pc \<leftarrow> mem_read mem (its + sts + mts) (unat (rawpage_size ni));
        Some (ni\<lparr>info_table_cache := cache, block_state := replicate (sts div 4) (- 1),
                 block_mapping := words_of_bytes (mts div 4) bm, page_cache := pc,
                 block_state_changed := 0, block_mapping_changed := 0\<rparr>)
      })"

text \<open>
  \<open>raw\<close> is the structure before it is initialised, \<open>sig\<close> the stack buffer of
  \<open>nmbm_find_signature\<close>; the results are the error code, the device with its defaults, and the
  instance (\<open>None\<close> for undefined behaviour).
\<close>

definition nmbm_attach ::
  "crc_fn \<Rightarrow> 'd nmbm_lower_device \<Rightarrow> 'd nmbm_instance \<Rightarrow> bytes \<Rightarrow> bytes
     \<Rightarrow> (int \<times> 'd nmbm_instance) option" where
  "nmbm_attach crc nld raw mem sig =
     do {
       let ni = raw\<lparr>log_display_level := NMBM_LOG_INFO\<rparr>;
       case nmbm_check_lower_members nld of
         None \<Rightarrow> Some (- EINVAL, ni)
       | Some nld \<Rightarrow>
           do {
             ni \<leftarrow> nmbm_init_structure (ni\<lparr>lower := nld\<rparr>) mem;
             (found, ni) \<leftarrow> nmbm_find_signature crc ni sig;
             case found of
               None \<Rightarrow>
                 if flags nld AND NMBM_F_CREATE = 0 then Some (- ENODEV, ni)
                 else do {
                   (success, ni) \<leftarrow> nmbm_create_new crc ni;
                   Some (if success then 0 else - ENODEV, ni)
                 }
             | Some (ba, s) \<Rightarrow>
                 do {
                   let ni = ni\<lparr>signature := s, signature_ba := ba\<rparr>;
                   if version (sig_header s) \<noteq> NMBM_VER then Some (- EINVAL, ni)
                   else if nand_size s \<noteq> nld_size nld \<or> block_size s \<noteq> erasesize nld \<or>
                           page_size s \<noteq> writesize nld \<or> spare_size s \<noteq> oobsize nld
                   then Some (- EINVAL, ni)
                   else do {
                     (success, ni) \<leftarrow> nmbm_load_existing crc ni;
                     Some (if success then 0 else - ENODEV, ni)
                   }
                 }
           }
     }"

definition nmbm_detach :: "crc_fn \<Rightarrow> 'd nmbm_instance \<Rightarrow> (int \<times> 'd nmbm_instance) option" where
  "nmbm_detach crc ni =
     do {
       ni \<leftarrow> (if \<not> read_only ni then map_option snd (nmbm_update_info_table crc ni) else Some ni);
       Some (0, ni)
     }"

section \<open>Geometry\<close>

lemma nat_and_pred:
  "n AND (n - 1) = 0 \<Longrightarrow> 0 < (n :: nat) \<Longrightarrow> \<exists>k. n = 2 ^ k"
proof (induction n rule: less_induct)
  case (less n)
  show ?case
  proof (cases "even n")
    case True
    then obtain m where m: "n = 2 * m" by (rule evenE)
    with less.prems(2) have m0: "0 < m" by simp
    then have "n - 1 = 2 * (m - 1) + 1" using m by simp
    then have "n AND (n - 1) = 2 * (m AND (m - 1))" by (simp add: m and_nat_rec [of "2 * m"])
    with less.prems(1) have "m AND (m - 1) = 0" by simp
    from less.IH [OF _ this m0] m m0 obtain k where "m = 2 ^ k" by auto
    with m have "n = 2 ^ Suc k" by simp
    then show ?thesis ..
  next
    case False
    then obtain m where m: "n = 2 * m + 1" by (rule oddE)
    then have "n AND (n - 1) = 2 * m" by (simp add: and_nat_rec [of "Suc (2 * m)"])
    with less.prems(1) m have "n = 2 ^ 0" by simp
    then show ?thesis ..
  qed
qed

lemma word_power_of_2:
  fixes n :: "'a::len word"
  assumes "n \<noteq> 0" and "n AND (n - 1) = 0"
  obtains k where "k < LENGTH('a)" and "unat n = 2 ^ k"
proof -
  have n0: "0 < unat n" using assms(1) by (simp add: unat_gt_0)
  have "unat n AND (unat n - 1) = unat (n AND (n - 1))"
    using assms(1) by (simp add: unsigned_and_eq unat_minus_one)
  with assms(2) obtain k where k: "unat n = 2 ^ k" using nat_and_pred [OF _ n0] by auto
  then have "(2 :: nat) ^ k < 2 ^ LENGTH('a)" by (metis unsigned_less)
  then have "k < LENGTH('a)" by simp
  with k show ?thesis by (rule that [rotated])
qed

lemma word_of_unat_power:
  assumes "unat n = 2 ^ k"
  shows "n = 2 ^ k"
proof -
  have "n = of_nat (unat n)" by simp
  then show ?thesis unfolding assms by simp
qed

lemma ffs_power:
  assumes "k < 32" and "unat n = 2 ^ k"
  shows "ffs n = Suc k"
proof -
  note n = word_of_unat_power [OF assms(2)]
  have "find (bit n) [0..<32] = Some k"
    unfolding find_Some_iff using assms(1)
    by (intro exI [of _ k]) (auto simp: n bit_exp_iff)
  then show ?thesis by (simp add: ffs_def)
qed

lemma mask_pred:
  assumes "k < 32" and "unat (n :: u32) = 2 ^ k"
  shows "n - 1 = mask k"
  by (simp add: word_of_unat_power [OF assms(2)] mask_eq_exp_minus_1)

lemma nmbm_align_eq:
  assumes "k < 32" and a: "unat a = 2 ^ k" and "unat v + 2 ^ k \<le> 2 ^ 32"
  shows "unat (nmbm_align v a) = (unat v + 2 ^ k - 1) div 2 ^ k * 2 ^ k"
proof -
  have "nmbm_align v a = push_bit k (drop_bit k (v + a - 1))"
    unfolding nmbm_align_def mask_pred [OF assms(1,2)]
    by (rule bit_word_eqI) (auto simp: bit_simps)
  moreover have u: "unat (v + a - 1) = unat v + 2 ^ k - 1"
  proof -
    have "a \<noteq> 0" using a by auto
    then have "unat (a - 1) = 2 ^ k - 1" using unat_minus_one [of a] a by simp
    then have "unat (v + (a - 1)) = unat v + (2 ^ k - 1)"
      using assms(3) by (simp add: unat_word_ariths less_le_trans)
    then show ?thesis by (simp add: add_diff_eq)
  qed
  moreover have "(unat v + 2 ^ k - 1) div 2 ^ k * 2 ^ k < 2 ^ 32"
    using assms(3) by (metis div_times_less_eq_dividend le_less_trans add_gr_0 diff_less less_le_trans
        zero_less_numeral zero_less_one zero_less_power)
  ultimately show ?thesis
    by (simp add: unat_push_bit_mult unat_drop_bit_div)
qed

text \<open>
  What the initialisation relies on beyond the checks: a page fits a block, a block fits the
  chip, and the chip is small enough for the 32-bit table sizes.
\<close>

definition chip_fits :: "'d nmbm_lower_device \<Rightarrow> bool" where
  "chip_fits l \<longleftrightarrow>
     unat (writesize l) \<le> unat (erasesize l) \<and> unat (erasesize l) \<le> unat (nld_size l) \<and>
     unat (nld_size l) div unat (erasesize l) \<le> 2 ^ 26 \<and>
     unat (writesize l) \<le> 2 ^ 24 \<and> unat (oobsize l) \<le> 2 ^ 24"

definition sizes_wf :: "'d nmbm_instance \<Rightarrow> bool" where
  "sizes_wf ni \<longleftrightarrow>
     length (info_table_cache ni) = unat (info_table_size ni) \<and>
     unat (state_table_size ni) = 4 * length (block_state ni) \<and>
     unat (mapping_table_size ni) = 4 * length (block_mapping ni) \<and>
     32 \<le> unat (state_table_off (info_table ni)) \<and>
     unat (state_table_off (info_table ni)) + unat (state_table_size ni)
       \<le> unat (mapping_table_off (info_table ni)) \<and>
     unat (mapping_table_off (info_table ni)) + unat (mapping_table_size ni) \<le> unat (info_table_size ni) \<and>
     0 < block_count ni \<and> unat (block_count ni) \<le> 16 * length (block_state ni) \<and>
     length (block_mapping ni) = unat (block_count ni)"

lemma table_wf_sizes: "sizes_wf ni \<Longrightarrow> table_wf ni \<longleftrightarrow> mapping_blocks_top_ba ni < block_count ni"
  by (auto simp: sizes_wf_def table_wf_def)

lemma check_lower_members_Some:
  assumes "nmbm_check_lower_members l0 = Some l"
  obtains w e where "w < 32" and "e < 32" and "unat (writesize l) = 2 ^ w" and "unat (erasesize l) = 2 ^ e"
    and "0 < oobsize l" and "read_page l \<noteq> None"
    and "flags l AND NMBM_F_READ_ONLY \<noteq> 0 \<or> write_page l \<noteq> None \<and> erase_block l \<noteq> None"
    and "0 < max_ratio l" and "max_ratio l < 15"
    and "max_reserved_blocks l = 0 \<or> 32 \<le> max_reserved_blocks l"
proof -
  have l: "l = (if max_ratio l0 = 0 then l0\<lparr>max_ratio := 1\<rparr> else l0)"
    and c: "is_power_of_2 (erasesize l)" "is_power_of_2 (writesize l)" "oobsize l \<noteq> 0" "read_page l \<noteq> None"
      "flags l AND NMBM_F_READ_ONLY \<noteq> 0 \<or> write_page l \<noteq> None \<and> erase_block l \<noteq> None"
      "\<not> max_ratio l \<ge> NMBM_MGMT_DIV - 1"
      "\<not> (max_reserved_blocks l \<noteq> 0 \<and> max_reserved_blocks l < NMBM_MGMT_BLOCKS_MIN)"
    using assms by (auto simp: nmbm_check_lower_members_def Let_def split: if_splits)
  from c(1) obtain e where "e < 32" "unat (erasesize l) = 2 ^ e"
    using word_power_of_2 [of "erasesize l"] by (auto simp: is_power_of_2_def)
  moreover from c(2) obtain w where "w < 32" "unat (writesize l) = 2 ^ w"
    using word_power_of_2 [of "writesize l"] by (auto simp: is_power_of_2_def)
  moreover have "max_ratio l \<noteq> 0" by (subst l) simp
  ultimately show ?thesis
    using c(3-7) by (intro that) (auto simp: word_gt_0 NMBM_MGMT_DIV_def NMBM_MGMT_BLOCKS_MIN_def)
qed

lemma unat_mult_small: "unat (a :: u32) * unat b < 2 ^ 32 \<Longrightarrow> unat (a * b) = unat a * unat b"
  by (simp add: unat_word_ariths)

lemma unat_add_small: "unat (a :: u32) + unat b < 2 ^ 32 \<Longrightarrow> unat (a + b) = unat a + unat b"
  by (simp add: unat_word_ariths)

lemma align_bounds:
  fixes v a :: nat
  assumes "0 < a"
  shows "v \<le> (v + a - 1) div a * a" and "(v + a - 1) div a * a \<le> v + a - 1"
proof -
  show "(v + a - 1) div a * a \<le> v + a - 1" by simp
  have "v + a - 1 < (v + a - 1) div a * a + a"
    using mod_less_divisor [OF assms, of "v + a - 1"] div_mult_mod_eq [of "v + a - 1" a] by linarith
  then show "v \<le> (v + a - 1) div a * a" using assms by simp
qed

lemma state_bytes_eq:
  assumes "unat bc \<le> 2 ^ 26"
  shows "unat (state_bytes bc) = 4 * ((unat bc + 15) div 16)"
proof -
  have "unat (bc + NMBM_BITMAP_BLOCKS_PER_UNIT - 1) = unat bc + 15"
    using assms by (simp add: NMBM_BITMAP_BLOCKS_PER_UNIT_def unat_word_ariths)
  then have d: "unat ((bc + NMBM_BITMAP_BLOCKS_PER_UNIT - 1) div NMBM_BITMAP_BLOCKS_PER_UNIT) = (unat bc + 15) div 16"
    by (simp add: NMBM_BITMAP_BLOCKS_PER_UNIT_def unat_div)
  have "(unat bc + 15) div 16 \<le> 2 ^ 23" using assms by simp
  then show ?thesis
    unfolding state_bytes_def NMBM_BITMAP_UNIT_SIZE_def by (subst unat_mult_small) (simp_all add: d)
qed

lemma align_range:
  assumes "k \<le> 24" and "unat a = 2 ^ k" and "unat v \<le> 2 ^ 28"
  shows "unat v \<le> unat (nmbm_align v a)" and "unat (nmbm_align v a) \<le> unat v + 2 ^ 24"
proof -
  have p: "0 < (2 :: nat) ^ k" by simp
  have k: "(2 :: nat) ^ k \<le> 2 ^ 24" using assms(1) by (intro power_increasing) auto
  then have "unat (nmbm_align v a) = (unat v + 2 ^ k - 1) div 2 ^ k * 2 ^ k"
    using assms by (intro nmbm_align_eq) auto
  then show "unat v \<le> unat (nmbm_align v a)" and "unat (nmbm_align v a) \<le> unat v + 2 ^ 24"
    using align_bounds [OF p, of "unat v"] k by linarith+
qed

definition chip_blocks :: "'d nmbm_lower_device \<Rightarrow> nat" where
  "chip_blocks l = unat (nld_size l) div unat (erasesize l)"

lemma unat_lldiv:
  assumes "unat (erasesize l) = 2 ^ e" and "chip_blocks l \<le> 2 ^ 26"
  shows "unat (nmbm_lldiv (nld_size l) (erasesize l)) = chip_blocks l"
    and "e < 32 \<Longrightarrow> (ucast (drop_bit e (nld_size l)) :: u32) = nmbm_lldiv (nld_size l) (erasesize l)"
proof -
  have u: "unat (nld_size l div ucast (erasesize l)) = chip_blocks l"
    by (simp add: unat_div chip_blocks_def)
  then show "unat (nmbm_lldiv (nld_size l) (erasesize l)) = chip_blocks l"
    using assms(2) by (simp add: nmbm_lldiv_def unat_ucast_mod)
  have "drop_bit e (nld_size l) = nld_size l div ucast (erasesize l)" if "e < 32"
    by (rule word_unat_eq_iff [THEN iffD2]) (simp add: u unat_drop_bit_div chip_blocks_def assms(1))
  then show "(ucast (drop_bit e (nld_size l)) :: u32) = nmbm_lldiv (nld_size l) (erasesize l)" if "e < 32"
    using that by (simp add: nmbm_lldiv_def)
qed

text \<open>The sizes and offsets the initialisation computes do not overflow.\<close>

lemma table_layout:
  assumes "unat ws = 2 ^ w" and "w \<le> 24" and "unat bc \<le> 2 ^ 26"
  defines "a \<equiv> nmbm_align 32 ws" and "s \<equiv> nmbm_align (state_bytes bc) ws" and "m \<equiv> nmbm_align (bc * 4) ws"
  shows "32 \<le> unat a" and "unat (a + s) = unat a + unat s" and "unat (a + s + m) = unat a + unat s + unat m"
    and "unat (state_bytes bc) \<le> unat s" and "unat (bc * 4) = 4 * unat bc" and "unat (bc * 4) \<le> unat m"
    and "unat a + unat s + unat m + unat (state_bytes bc) + unat (bc * 4) \<le> 2 ^ 30"
proof -
  have st: "unat (state_bytes bc) \<le> 2 ^ 25" using assms(3) by (simp add: state_bytes_eq)
  show m4: "unat (bc * 4) = 4 * unat bc" using assms(3) by (subst unat_mult_small) simp_all
  then have mt: "unat (bc * 4) \<le> 2 ^ 28" using assms(3) by simp
  note b = align_range [OF assms(2,1), of 32] align_range [OF assms(2,1), of "state_bytes bc"]
    align_range [OF assms(2,1) mt]
  show "32 \<le> unat a" using b(1) by (simp add: a_def)
  show "unat (state_bytes bc) \<le> unat s" using b(3) st by (simp add: s_def)
  show "unat (bc * 4) \<le> unat m" using b(5) by (simp add: m_def)
  have u: "unat a \<le> 2 ^ 24 + 32" "unat s \<le> 2 ^ 24 + 2 ^ 25" "unat m \<le> 2 ^ 24 + 2 ^ 28"
    using b(2,4,6) st mt by (simp_all add: a_def s_def m_def)
  then show as: "unat (a + s) = unat a + unat s" by (intro unat_add_small) simp
  show "unat (a + s + m) = unat a + unat s + unat m" using u by (subst unat_add_small) (simp_all add: as)
  show "unat a + unat s + unat m + unat (state_bytes bc) + unat (bc * 4) \<le> 2 ^ 30"
    using u st mt by simp
qed

text \<open>
  An accepted device that fits gives a well-formed instance with every block good, in the memory
  the caller was told to allocate.
\<close>

definition init_post :: "'d nmbm_instance \<Rightarrow> 'd nmbm_instance \<Rightarrow> bool" where
  "init_post ni ni' \<longleftrightarrow>
     lower ni' = lower ni \<and> dev ni' = dev ni \<and> (lower_ok (lower ni) \<longrightarrow> dev_wf ni') \<and>
     geom_wf ni' \<and> sizes_wf ni' \<and> unat (block_count ni') = chip_blocks (lower ni) \<and>
     (\<forall>i < 16 * length (block_state ni'). st_of (block_state ni') i = BLOCK_ST_GOOD) \<and>
     block_state_changed ni' = 0 \<and> block_mapping_changed ni' = 0"

lemma st_of_ones: "i < 16 * n \<Longrightarrow> st_of (replicate n (- 1)) i = BLOCK_ST_GOOD"
proof -
  have "(3 :: u32) = mask 2" by (simp add: mask_eq_exp_minus_1)
  moreover have "mask (32 - 2 * (i mod 16)) AND mask 2 = (mask 2 :: u32)"
    by (rule bit_word_eqI) (auto simp: bit_simps)
  ultimately show "i < 16 * n \<Longrightarrow> ?thesis" by (simp add: st_of_def BLOCK_ST_GOOD_def BLOCK_ST_MASK_def)
qed

lemma structure_size_eq:
  fixes l :: "'d nmbm_lower_device"
  defines "bc \<equiv> nmbm_lldiv (nld_size l) (erasesize l)"
  assumes ws: "unat (writesize l) = 2 ^ w" and es: "unat (erasesize l) = 2 ^ e" and w: "w \<le> 24"
    and bn: "chip_blocks l \<le> 2 ^ 26" and os: "unat (oobsize l) \<le> 2 ^ 24"
  shows "unat (nmbm_calc_structure_size l) =
      unat (nmbm_align 32 (writesize l)) + unat (nmbm_align (state_bytes bc) (writesize l)) +
      unat (nmbm_align (bc * 4) (writesize l)) + unat (state_bytes bc) + 4 * chip_blocks l +
      (2 ^ w + unat (oobsize l))"
proof -
  define a s m where "a = nmbm_align 32 (writesize l)"
    and "s = nmbm_align (state_bytes bc) (writesize l)" and "m = nmbm_align (bc * 4) (writesize l)"
  have bc: "unat bc = chip_blocks l" using unat_lldiv [OF es bn] by (simp add: bc_def)
  note lay = table_layout [OF ws w, of bc, unfolded bc, OF bn, folded a_def s_def m_def]
  have le: "(2 :: nat) ^ w \<le> 2 ^ 24" using w by (intro power_increasing) simp_all
  then have rp: "unat (writesize l + oobsize l) = 2 ^ w + unat (oobsize l)"
    using os by (subst unat_add_small) (simp_all add: ws)
  have "unat (a + s + m + state_bytes bc) = unat a + unat s + unat m + unat (state_bytes bc)"
    using lay(3,7) by (subst unat_add_small) simp_all
  then have "unat (a + s + m + state_bytes bc + bc * 4) =
      unat a + unat s + unat m + unat (state_bytes bc) + 4 * chip_blocks l"
    using lay(5,7) by (subst unat_add_small) simp_all
  then have "unat (a + s + m + state_bytes bc + bc * 4 + (writesize l + oobsize l)) =
      unat a + unat s + unat m + unat (state_bytes bc) + 4 * chip_blocks l + (2 ^ w + unat (oobsize l))"
    using lay(5,7) le os by (subst unat_add_small) (simp_all add: rp)
  then show ?thesis
    by (simp add: nmbm_calc_structure_size_def Let_def add.assoc a_def s_def m_def flip: bc_def)
qed

lemma nmbm_init_structure_returns:
  assumes acc: "nmbm_check_lower_members l0 = Some (lower ni)" and fit: "chip_fits (lower ni)"
    and mem: "unat (nmbm_calc_structure_size (lower ni)) \<le> length mem"
  shows "returns (nmbm_init_structure ni mem) (init_post ni)"
proof -
  from check_lower_members_Some [OF acc] obtain w e where we: "w < 32" "e < 32"
    and ws: "unat (writesize (lower ni)) = 2 ^ w" and es: "unat (erasesize (lower ni)) = 2 ^ e"
    and oob: "0 < oobsize (lower ni)" by metis
  define bc where "bc = nmbm_lldiv (nld_size (lower ni)) (erasesize (lower ni))"
  have bn: "chip_blocks (lower ni) \<le> 2 ^ 26" and "w \<le> e" and le: "2 ^ w \<le> (2 :: nat) ^ 24"
    and os: "unat (oobsize (lower ni)) \<le> 2 ^ 24"
    using fit by (auto simp: chip_fits_def chip_blocks_def ws es)
  then have "w \<le> 24" by (intro power_le_imp_le_exp [OF _ le]) simp
  have bc: "unat bc = chip_blocks (lower ni)" "ucast (drop_bit e (nld_size (lower ni))) = bc"
    using unat_lldiv [OF es bn] we(2) by (simp_all add: bc_def)
  have bp: "0 < chip_blocks (lower ni)"
    using fit by (simp add: chip_fits_def chip_blocks_def div_greater_zero_iff es)
  define a s m where "a = nmbm_align 32 (writesize (lower ni))"
    and "s = nmbm_align (state_bytes bc) (writesize (lower ni))" and "m = nmbm_align (bc * 4) (writesize (lower ni))"
  note lay = table_layout [OF ws \<open>w \<le> 24\<close>, of bc, unfolded bc(1), OF bn, folded a_def s_def m_def]
  have rp: "unat (writesize (lower ni) + oobsize (lower ni)) = 2 ^ w + unat (oobsize (lower ni))"
    using le os by (subst unat_add_small) (simp_all add: ws)
  note ff = ffs_power [OF we(2) es]
  have e16: "unat (of_nat e :: u16) = e" using we(2) by (simp add: unat_of_nat)
  note total = structure_size_eq [OF ws es \<open>w \<le> 24\<close> bn os, folded bc_def, folded a_def s_def m_def]
  have sb: "unat (state_bytes bc) = 4 * ((chip_blocks (lower ni) + 15) div 16)"
    using bn by (simp add: state_bytes_eq bc)
  have fits: "unat a + unat s + unat m + unat (state_bytes bc) + 4 * chip_blocks (lower ni) +
      (2 ^ w + unat (oobsize (lower ni))) \<le> length mem"
    using mem unfolding total .
  have geom: "\<exists>w' e'. w' \<le> e' \<and> e' < 32 \<and> (2 :: nat) ^ w = 2 ^ w' \<and> (2 :: nat) ^ e = 2 ^ e' \<and>
      mask w = (mask w' :: u32) \<and> mask e = (mask e' :: u32) \<and> e = e'"
    using \<open>w \<le> e\<close> we(2) by blast
  show ?thesis
    unfolding nmbm_init_structure_def Let_def
    apply (simp add: bc ff e16 mask_pred [OF we(1) ws] mask_pred [OF we(2) es] flip: a_def)
    apply (simp flip: s_def)
    apply (simp flip: m_def add: lay rp returns_simps bc)
    using fits lay sb bp oob geom
    by (simp add: init_post_def dev_wf_def geom_wf_def sizes_wf_def rp ws es bc e16 st_of_ones word_less_nat_alt)
qed

end
