(* ===== verification/Nmbm_Create.thy ===== *)
theory Nmbm_Create
  imports Nmbm_Attach
begin

text \<open>
  Creating the management area on a new chip: \<open>nmbm_create_info_table\<close> and \<open>nmbm_create_new\<close> give
  a well-formed instance on which the contracts of the other operations hold, and leave the data
  area of the chip alone. With \<open>nmbm_init_structure\<close> and the search for a signature this covers
  \<open>nmbm_attach\<close> on a chip without signature.
\<close>

section \<open>The info tables\<close>

lemma block_walk_desc:
  assumes "unat count < 2 ^ 31" and "unat ba < 16 * length (block_state ni)" and "limit < block_count ni"
  shows "returns (nmbm_block_walk ni False ba count limit) (\<lambda>res. case res of
      None \<Rightarrow> True | Some pb \<Rightarrow> limit < pb \<and> pb \<le> ba \<and> good_at ni pb)"
proof -
  let ?gs = "good_blocks (block_state ni) (Suc (unat limit)) (Suc (unat ba))"
  have mem: "i \<in> set ?gs \<longleftrightarrow> unat limit < i \<and> i \<le> unat ba \<and> st_of (block_state ni) i = BLOCK_ST_GOOD" for i
    by (auto simp: good_blocks_def)
  have eq: "nmbm_block_walk ni False ba count limit = Some (map_option of_nat (arr_get (rev ?gs) (unat count)))"
    using walk_desc_loop_eq [of count ba ni limit] assms
    by (simp add: nmbm_block_walk_def nmbm_block_walk_desc_def not_le [symmetric])
  show ?thesis
  proof (cases "unat count < length ?gs")
    case False
    with eq show ?thesis by (simp add: arr_get_def)
  next
    case True
    let ?pb = "rev ?gs ! unat count"
    have "?pb \<in> set ?gs" using True nth_mem [of "unat count" "rev ?gs"] by simp
    then have m: "unat limit < ?pb \<and> ?pb \<le> unat ba \<and> st_of (block_state ni) ?pb = BLOCK_ST_GOOD"
      unfolding mem .
    then have "unat (of_nat ?pb :: u32) = ?pb"
      using unat_u32_less [of ba] by (intro unat_of_nat_small) simp
    with True eq m show ?thesis by (simp add: arr_get_def word_less_nat_alt word_le_nat_alt)
  qed
qed

text \<open>
  What the creation of the tables starts from: the sizes fit, the mapping table is built, and
  the management area \<open>[mgmt_start_ba, block_count)\<close> is allowed.
\<close>

definition create_ctx :: "('d \<Rightarrow> bool) \<Rightarrow> (u64 \<Rightarrow> bool) \<Rightarrow> 'd nmbm_instance \<Rightarrow> bool" where
  "create_ctx Q A ni \<longleftrightarrow>
     dev_wf ni \<and> geom_wf ni \<and> sizes_wf ni \<and> map_wf ni \<and> dev_frame (lower ni) Q A \<and>
     0 < mgmt_start_ba ni \<and> mgmt_start_ba ni < block_count ni \<and>
     data_block_count ni \<le> mgmt_start_ba ni \<and>
     (\<forall>b. mgmt_start_ba ni \<le> b \<and> b < block_count ni \<longrightarrow> blk_allowed A ni b)"

abbreviation mgmt_area :: "'d nmbm_instance \<Rightarrow> nat set" where
  "mgmt_area ni \<equiv> {unat (mgmt_start_ba ni)..<unat (block_count ni)}"

text \<open>Rebuilding ignores where the tables were.\<close>

definition forget_tables :: "'d nmbm_instance \<Rightarrow> 'd nmbm_instance" where
  "forget_tables ni = ni\<lparr>main_table_ba := 0, backup_table_ba := 0, mapping_blocks_ba := mapping_blocks_top_ba ni\<rparr>"

lemma rebuild_forget: "nmbm_rebuild_info_table ni = nmbm_rebuild_info_table (forget_tables ni)"
  by (simp add: nmbm_rebuild_info_table_def forget_tables_def)

lemma forget_tables_ctx:
  assumes c: "create_ctx Q A ni" and "mgmt_start_ba ni \<le> mapping_blocks_top_ba ni"
    and "mapping_blocks_top_ba ni < block_count ni"
  shows "api_ctx Q A (mgmt_area ni) (forget_tables ni)"
proof -
  have t: "table_wf ni" using c assms(3) by (simp add: create_ctx_def table_wf_sizes)
  have "dev_wf (forget_tables ni) = dev_wf ni" "geom_wf (forget_tables ni) = geom_wf ni"
    "map_wf (forget_tables ni) = map_wf ni" "table_wf (forget_tables ni) = table_wf ni"
    "blk_allowed A (forget_tables ni) = blk_allowed A ni"
    by (simp_all add: forget_tables_def dev_wf_def geom_wf_def map_wf_def table_wf_def blk_allowed_def
        ba2addr_def read_only_def fun_eq_iff)
  with c t show ?thesis
    using assms(2,3)
    by (auto simp: api_ctx_def create_ctx_def order_wf_def forget_tables_def word_less_nat_alt word_le_nat_alt)
qed

text \<open>
  Remapping the end of the data area: logic blocks up to \<open>data_block_count\<close> stay mapped, and the
  number of data blocks does not pass \<open>mgmt_start_ba\<close>.
\<close>

definition mapped_upto :: "'d nmbm_instance \<Rightarrow> bool" where
  "mapped_upto ni \<longleftrightarrow> (\<forall>lb < unat (data_block_count ni). block_mapping ni ! lb < block_count ni)"

lemma map_tail_loop_post:
  "api_ok Q A S ni0 ni \<Longrightarrow> lb = data_block_count ni \<Longrightarrow> limit = mgmt_start_ba ni \<Longrightarrow> lb \<le> limit \<Longrightarrow>
   mapped_upto ni \<Longrightarrow>
   returns (map_tail_loop crc ni lb limit) (\<lambda>ni'. api_ok Q A S ni0 ni' \<and> mapped_upto ni' \<and>
     data_block_count ni \<le> data_block_count ni' \<and> data_block_count ni' \<le> mgmt_start_ba ni')"
proof (induction crc ni lb limit rule: map_tail_loop.induct)
  case (1 crc ni lb limit)
  show ?case
  proof (cases "lb < limit")
    case False
    with "1.prems" show ?thesis by (subst map_tail_loop.simps) simp
  next
    case True
    note ok = "1.prems"(1)
    have wf: "mapping_blocks_top_ba ni < block_count ni" "mgmt_start_ba ni \<le> mapping_blocks_top_ba ni"
      "length (block_mapping ni) = unat (block_count ni)"
      using api_okD(4,5,6) [OF ok] by (auto simp: table_wf_def order_wf_def map_wf_def)
    then have lt: "lb < block_count ni" using True "1.prems"(3) by order
    with wf have len: "unat lb < length (block_mapping ni)" by (simp add: word_less_nat_alt)
    from nmbm_map_block_post [OF ok len, of crc] obtain r ni1
      where m: "nmbm_map_block crc ni lb = Some (r, ni1)" and p: "map_post Q A S ni0 ni lb (r, ni1)"
      by (auto simp: returns_iff)
    from p have ok1: "api_ok Q A S ni0 ni1" and d1: "data_block_count ni1 = data_block_count ni"
      by (auto simp: map_post_def)
    have same: "mgmt_start_ba ni1 = mgmt_start_ba ni" "block_count ni1 = block_count ni"
      using api_step_fields(2,10) [OF api_okD(9) [OF ok1]] api_step_fields(2,10) [OF api_okD(9) [OF ok]] by simp_all
    show ?thesis
    proof (cases r)
      case False
      then have "mapped_upto ni1" using p "1.prems"(5) by (simp add: map_post_def mapped_upto_def d1 same)
      with False ok1 m True "1.prems" d1 same show ?thesis by (subst map_tail_loop.simps) simp
    next
      case True
      let ?ni2 = "ni1\<lparr>data_block_count := data_block_count ni1 + 1\<rparr>"
      from True p obtain pb where bm: "block_mapping ni1 = (block_mapping ni)[unat lb := pb]"
        and pb: "pb \<le> mapping_blocks_top_ba ni" by (auto simp: map_post_def)
      have pl: "pb < block_count ni" using pb wf(1) by order
      have s: "unat (lb + 1) = Suc (unat lb)" by (rule unat_Suc_less [OF lt])
      have "api_ok Q A S ni0 ?ni2"
        by (rule api_ok_update [OF ok1])
          (use api_okD(5,6) [OF ok1] lt s d1 same "1.prems"(2) in
            \<open>auto simp: api_step_def api_restore_def mg_restore_def order_wf_def map_wf_def word_less_nat_alt word_le_nat_alt\<close>)
      moreover have "mapped_upto ?ni2"
        using "1.prems"(2,5) len pl s by (auto simp: mapped_upto_def d1 same bm nth_list_update less_Suc_eq)
      moreover have "lb + 1 \<le> limit" using \<open>lb < limit\<close> s by (simp add: word_less_nat_alt word_le_nat_alt)
      ultimately have "returns (map_tail_loop crc ?ni2 (lb + 1) limit) (\<lambda>ni'. api_ok Q A S ni0 ni' \<and>
          mapped_upto ni' \<and> data_block_count ?ni2 \<le> data_block_count ni' \<and> data_block_count ni' \<le> mgmt_start_ba ni')"
        using True "1.IH" [OF \<open>lb < limit\<close> m refl] "1.prems"(2,3) d1 same by simp
      moreover have "data_block_count ni \<le> data_block_count ?ni2"
        using d1 s "1.prems"(2) by (simp add: word_le_nat_alt)
      ultimately show ?thesis
        using True m \<open>lb < limit\<close> by (subst map_tail_loop.simps) (auto elim!: returns_mono)
    qed
  qed
qed

text \<open>
  The outcome of a creation: \<open>Q\<close> is kept, and on success the instance is ready for the
  operations of the interface, with its tables written (or the chip protected).
\<close>

definition create_post :: "('d \<Rightarrow> bool) \<Rightarrow> (u64 \<Rightarrow> bool) \<Rightarrow> 'd nmbm_instance \<Rightarrow> bool \<times> 'd nmbm_instance \<Rightarrow> bool" where
  "create_post Q A ni = (\<lambda>(ok, ni'). (Q (dev ni) \<longrightarrow> Q (dev ni')) \<and> lower ni' = lower ni \<and>
     (ok \<longrightarrow> api_ctx Q A (mgmt_area ni) ni' \<and> (clean ni' \<or> protected ni') \<and> mapped_upto ni' \<and>
        block_count ni' = block_count ni \<and> mgmt_start_ba ni' = mgmt_start_ba ni \<and>
        data_block_count ni \<le> data_block_count ni' \<and> data_block_count ni' \<le> mgmt_start_ba ni'))"

lemma generate_forget:
  "nmbm_generate_info_table_cache crc (forget_tables ni) =
     map_option (map_prod id forget_tables) (nmbm_generate_info_table_cache crc ni)"
  by (auto simp: nmbm_generate_info_table_cache_def forget_tables_def Let_def split: Option.bind_splits)

lemma create_ctx_top: "create_ctx Q A (ni\<lparr>mapping_blocks_top_ba := t\<rparr>) = create_ctx Q A ni"
  by (simp add: create_ctx_def dev_wf_def geom_wf_def sizes_wf_def map_wf_def blk_allowed_def ba2addr_def read_only_def)

lemma rebuild_after_generate:
  assumes c: "create_ctx Q A ni" and t: "mgmt_start_ba ni \<le> mapping_blocks_top_ba ni"
    "mapping_blocks_top_ba ni < block_count ni"
  shows "returns (do { (_, ni) \<leftarrow> nmbm_generate_info_table_cache crc ni; nmbm_rebuild_info_table ni })
    (\<lambda>(ok, ni'). api_ok Q A (mgmt_area ni) (forget_tables ni) ni' \<and> mg_step Q (forget_tables ni) ni')"
proof -
  let ?S = "mgmt_area ni"
  note ctx = forget_tables_ctx [OF c t]
  from nmbm_generate_post [OF api_ctx_mg_ok [OF ctx], of crc] obtain ch ni1
    where "nmbm_generate_info_table_cache crc (forget_tables ni) = Some (ch, ni1)"
      and ok1: "mg_ok Q A (forget_tables ni) ni1"
    by (auto simp: returns_iff)
  then obtain ni2 where g: "nmbm_generate_info_table_cache crc ni = Some (ch, ni2)" and f: "ni1 = forget_tables ni2"
    by (auto simp: generate_forget)
  from nmbm_rebuild_info_table_post [OF ok1] obtain ok ni3
    where r: "nmbm_rebuild_info_table ni2 = Some (ok, ni3)" and ok3: "mg_ok Q A (forget_tables ni) ni3"
    by (auto simp: returns_iff table_post_def f simp flip: rebuild_forget)
  have "api_ok Q A ?S (forget_tables ni) ni3" by (rule api_ok_mg [OF api_ok_refl [OF ctx] ok3])
  with g r ok3 show ?thesis by (simp add: mg_ok_def)
qed

lemma create_tail:
  assumes ok: "api_ok Q A S ni0 ni" and mu: "mapped_upto ni" and le: "data_block_count ni \<le> mgmt_start_ba ni"
  shows "returns (do { ni \<leftarrow> map_tail_loop crc ni (data_block_count ni) (mgmt_start_ba ni);
                       nmbm_update_info_table crc ni })
    (\<lambda>(ok, ni'). (Q (dev ni0) \<longrightarrow> Q (dev ni')) \<and> lower ni' = lower ni0 \<and> api_ctx Q A S ni' \<and>
       (ok \<longrightarrow> clean ni' \<or> protected ni') \<and> mapped_upto ni' \<and> block_count ni' = block_count ni0 \<and>
       mgmt_start_ba ni' = mgmt_start_ba ni0 \<and>
       data_block_count ni \<le> data_block_count ni' \<and> data_block_count ni' \<le> mgmt_start_ba ni')"
proof -
  from map_tail_loop_post [OF ok refl refl le mu, of crc] obtain ni3
    where l: "map_tail_loop crc ni (data_block_count ni) (mgmt_start_ba ni) = Some ni3"
      and ok3: "api_ok Q A S ni0 ni3" and mu3: "mapped_upto ni3"
      and d3: "data_block_count ni \<le> data_block_count ni3" "data_block_count ni3 \<le> mgmt_start_ba ni3"
    by (auto simp: returns_iff)
  from nmbm_update_info_table_returns [OF api_okD(8) [OF ok3], of crc] obtain r ni4
    where u: "nmbm_update_info_table crc ni3 = Some (r, ni4)" and m4: "mg_ok Q A ni3 ni4"
      and p4: "if protected ni3 then r \<and> ni4 = ni3 else if r then clean ni4 else protected ni4"
    by (auto simp: returns_iff)
  have ok4: "api_ok Q A S ni0 ni4" by (rule api_ok_mg [OF ok3 m4])
  have "mg_step Q ni3 ni4" using m4 by (simp add: mg_ok_def)
  note m34 = mg_step_fields [OF this]
  have "r \<longrightarrow> clean ni4 \<or> protected ni4" using p4 by (auto split: if_splits)
  moreover have "Q (dev ni0) \<longrightarrow> Q (dev ni4)" using api_okD(9) [OF ok4] by (simp add: api_step_def)
  moreover have "mapped_upto ni4" using mu3 by (simp add: mapped_upto_def m34)
  ultimately show ?thesis
    using l u api_okD(1) [OF ok4] d3 api_step_fields(1,2,10) [OF api_okD(9) [OF ok4]]
    by (simp add: m34)
qed

lemma nmbm_create_info_table_post:
  assumes c: "create_ctx Q A ni" and sg: "signature_ba ni < block_count ni" and mu: "mapped_upto ni"
  shows "returns (nmbm_create_info_table crc ni) (create_post Q A ni)"
proof -
  have wf: "mgmt_start_ba ni < block_count ni" "unat (block_count ni) \<le> 16 * length (block_state ni)"
    using c by (auto simp: create_ctx_def sizes_wf_def)
  with sg have "unat (signature_ba ni) < 16 * length (block_state ni)" by (simp add: word_less_nat_alt)
  from block_walk_desc [OF _ this wf(1), of 1] obtain res
    where w: "nmbm_block_walk ni False (signature_ba ni) 1 (mgmt_start_ba ni) = Some res"
      and t: "case res of None \<Rightarrow> True | Some pb \<Rightarrow> mgmt_start_ba ni < pb \<and> pb \<le> signature_ba ni \<and> good_at ni pb"
    by (auto simp: returns_iff)
  show ?thesis
  proof (cases res)
    case None
    with w show ?thesis by (simp add: nmbm_create_info_table_def create_post_def)
  next
    case (Some pb)
    let ?ni = "ni\<lparr>mapping_blocks_top_ba := pb\<rparr>"
    from t Some sg have "mgmt_start_ba ?ni \<le> mapping_blocks_top_ba ?ni" "mapping_blocks_top_ba ?ni < block_count ?ni"
      by (auto intro: less_imp_le)
    moreover have "create_ctx Q A ?ni" using c by (simp add: create_ctx_top)
    ultimately obtain ch ni1 ok ni2
      where g: "nmbm_generate_info_table_cache crc ?ni = Some (ch, ni1)"
        and r: "nmbm_rebuild_info_table ni1 = Some (ok, ni2)"
        and ok2: "api_ok Q A (mgmt_area ni) (forget_tables ?ni) ni2" and m2: "mg_step Q (forget_tables ?ni) ni2"
      using rebuild_after_generate [of Q A ?ni crc] by (auto simp: returns_iff Option.bind_eq_Some_conv)
    note f2 = mg_step_fields [OF m2, unfolded forget_tables_def, simplified]
    have q2: "Q (dev ni) \<longrightarrow> Q (dev ni2)" using m2 by (simp add: mg_step_def forget_tables_def)
    show ?thesis
    proof (cases ok)
      case False
      with w Some g r q2 f2 show ?thesis by (simp add: nmbm_create_info_table_def create_post_def)
    next
      case True
      have "mapped_upto ni2" using mu by (simp add: mapped_upto_def f2)
      moreover have "data_block_count ni2 \<le> mgmt_start_ba ni2" using c by (simp add: f2 create_ctx_def)
      ultimately show ?thesis
        using create_tail [OF ok2, of crc] w Some g r True f2
        by (auto simp: nmbm_create_info_table_def create_post_def forget_tables_def elim!: returns_mono)
    qed
  qed
qed

section \<open>A new chip\<close>

lemma new_mgmt_start_bounds:
  assumes "0 < max_ratio (lower ni)" and "max_ratio (lower ni) < 15"
    and "16 \<le> unat (block_count ni)" and "unat (block_count ni) \<le> 2 ^ 26"
  shows "0 < new_mgmt_start_ba ni" and "new_mgmt_start_ba ni < block_count ni"
proof -
  let ?r = "unat (max_ratio (lower ni))" and ?n = "unat (block_count ni)"
  let ?s = "block_count ni * (NMBM_MGMT_DIV - max_ratio (lower ni)) div NMBM_MGMT_DIV"
  have r: "0 < ?r" "?r < 15" using assms(1,2) by (simp_all add: word_less_nat_alt)
  have d: "unat (NMBM_MGMT_DIV - max_ratio (lower ni)) = 16 - ?r"
    using r by (simp add: NMBM_MGMT_DIV_def unat_sub word_le_nat_alt)
  have m: "?n * (16 - ?r) \<le> 2 ^ 26 * 16" using assms(4) by (intro mult_mono) auto
  have s: "unat ?s = ?n * (16 - ?r) div 16"
    unfolding unat_div by (subst unat_mult_small) (use m d in \<open>simp_all add: NMBM_MGMT_DIV_def\<close>)
  have "16 * 1 \<le> ?n * (16 - ?r)" using r assms(3) by (intro mult_mono) auto
  then have s0: "0 < unat ?s" using s by (simp add: div_greater_zero_iff)
  have "?n * (16 - ?r) < ?n * 16" using r assms(3) by (intro mult_strict_left_mono) auto
  then have sn: "unat ?s < ?n" using s by (simp add: div_less_iff_less_mult)
  then have b: "unat (block_count ni - ?s) = ?n - unat ?s" by (simp add: unat_sub word_le_nat_alt)
  have res: "unat (block_count ni - max_reserved_blocks (lower ni)) = ?n - unat (max_reserved_blocks (lower ni))"
    if "block_count ni - ?s > max_reserved_blocks (lower ni)"
    using that b by (intro unat_sub) (simp add: word_less_nat_alt word_le_nat_alt)
  show "0 < new_mgmt_start_ba ni"
    using s0 sn b res by (auto simp: new_mgmt_start_ba_def Let_def word_less_nat_alt)
  show "new_mgmt_start_ba ni < block_count ni"
    using s0 sn b res by (auto simp: new_mgmt_start_ba_def Let_def word_less_nat_alt word_neq_0_conv)
qed

lemma create_ctx_tab_step:
  assumes "create_ctx Q A ni" and "tab_step Q' lo hi ni ni'"
  shows "create_ctx Q A ni'"
  using assms(2) by (rule tab_stepE)
    (use assms(1) in \<open>simp add: create_ctx_def dev_wf_def geom_wf_def sizes_wf_def map_wf_def blk_allowed_def ba2addr_def read_only_def\<close>)

text \<open>What \<open>nmbm_create_new\<close> relies on: the outcome of \<open>nmbm_init_structure\<close> on a chip of at least 16 blocks.\<close>

definition fresh_ctx :: "('d \<Rightarrow> bool) \<Rightarrow> (u64 \<Rightarrow> bool) \<Rightarrow> 'd nmbm_instance \<Rightarrow> bool" where
  "fresh_ctx Q A ni \<longleftrightarrow>
     dev_wf ni \<and> geom_wf ni \<and> sizes_wf ni \<and> dev_frame (lower ni) Q A \<and>
     0 < max_ratio (lower ni) \<and> max_ratio (lower ni) < 15 \<and>
     16 \<le> unat (block_count ni) \<and> unat (block_count ni) \<le> 2 ^ 26 \<and>
     length (sig_padding (signature ni)) = 7 \<and>
     (\<forall>b. new_mgmt_start_ba ni \<le> b \<and> b < block_count ni \<longrightarrow> blk_allowed A ni b)"

lemma build_mapping_create_ctx:
  assumes f: "dev_wf ni" "geom_wf ni" "sizes_wf ni" "dev_frame (lower ni) Q A"
    and m: "0 < mgmt_start_ba ni" "mgmt_start_ba ni < block_count ni"
    and a: "\<forall>b. mgmt_start_ba ni \<le> b \<and> b < block_count ni \<longrightarrow> blk_allowed A ni b"
  shows "returns (nmbm_build_mapping_table ni) (\<lambda>ni'. create_ctx Q A ni' \<and> mapped_upto ni' \<and>
    (\<exists>bm n. ni' = ni\<lparr>data_block_count := n, block_mapping := bm\<rparr>))"
proof -
  let ?us = "usable_blocks (block_state ni) 0 (unat (mgmt_start_ba ni))"
  let ?n = "of_nat (length ?us) :: u32"
    and ?bm = "map of_nat ?us @ replicate (unat (block_count ni) - length ?us) (- 1) :: u32 list"
  have len: "length ?us \<le> unat (mgmt_start_ba ni)"
    using length_usable_blocks [of "block_state ni" 0 "unat (mgmt_start_ba ni)"] by simp
  have lt: "unat (mgmt_start_ba ni) < unat (block_count ni)" using m(2) by (simp add: word_less_nat_alt)
  have n: "unat ?n = length ?us" using len unat_u32_less [of "mgmt_start_ba ni"] by (intro unat_of_nat_small) simp
  have us: "of_nat i < block_count ni" if "i \<in> set ?us" for i
  proof -
    have "i < unat (mgmt_start_ba ni)" using that by (auto simp: usable_blocks_def)
    moreover from this have "unat (of_nat i :: u32) = i"
      using unat_u32_less [of "mgmt_start_ba ni"] by (intro unat_of_nat_small) simp
    ultimately show ?thesis using lt by (simp add: word_less_nat_alt)
  qed
  have eq: "nmbm_build_mapping_table ni = Some (ni\<lparr>data_block_count := ?n, block_mapping := ?bm\<rparr>)"
    using f(3) m(2) by (subst nmbm_build_mapping_table_eq) (auto simp: sizes_wf_def Let_def less_imp_le)
  have "map_wf (ni\<lparr>data_block_count := ?n, block_mapping := ?bm\<rparr>)"
    using len lt n us by (auto simp: map_wf_def word_le_nat_alt)
  then have "create_ctx Q A (ni\<lparr>data_block_count := ?n, block_mapping := ?bm\<rparr>)"
    using f m a len lt n
    by (simp add: create_ctx_def dev_wf_def geom_wf_def sizes_wf_def blk_allowed_def ba2addr_def read_only_def
        word_le_nat_alt)
  moreover have "mapped_upto (ni\<lparr>data_block_count := ?n, block_mapping := ?bm\<rparr>)"
    using us n by (auto simp: mapped_upto_def nth_append)
  ultimately show ?thesis using eq by auto
qed

lemma new_signature_Some:
  assumes "length (sig_padding (signature ni)) = 7"
  shows "\<exists>s. new_signature crc ni = Some s"
proof -
  let ?b = "sig_bytes ((signature ni)\<lparr>sig_header := (sig_header (signature ni))
      \<lparr>magic := NMBM_MAGIC_SIGNATURE, version := NMBM_VER, hdr_size := 48\<rparr>,
      nand_size := nld_size (lower ni), block_size := erasesize (lower ni),
      page_size := writesize (lower ni), spare_size := oobsize (lower ni),
      mgmt_start_pb := mgmt_start_ba ni, max_try_count := of_nat NMBM_TRY_COUNT\<rparr>)"
  have "length ?b = 48" using assms by simp
  moreover have "hdr_size (hdr_of_bytes ?b) = 48" by (simp add: sig_bytes_def)
  ultimately show ?thesis
    using nmbm_update_checksum_returns [of ?b crc] by (auto simp: new_signature_def)
qed

lemma create_ctx_signature [simp]:
  "create_ctx Q A (ni\<lparr>signature := sg\<rparr>) = create_ctx Q A ni"
  "create_ctx Q A (ni\<lparr>signature_ba := ba\<rparr>) = create_ctx Q A ni"
  "mapped_upto (ni\<lparr>signature := sg\<rparr>) = mapped_upto ni"
  "mapped_upto (ni\<lparr>signature_ba := ba\<rparr>) = mapped_upto ni"
  by (simp_all add: create_ctx_def mapped_upto_def dev_wf_def geom_wf_def sizes_wf_def map_wf_def
      blk_allowed_def ba2addr_def read_only_def)

definition create_new_post :: "('d \<Rightarrow> bool) \<Rightarrow> (u64 \<Rightarrow> bool) \<Rightarrow> 'd nmbm_instance \<Rightarrow> bool \<times> 'd nmbm_instance \<Rightarrow> bool" where
  "create_new_post Q A ni = (\<lambda>(ok, ni'). (Q (dev ni) \<longrightarrow> Q (dev ni')) \<and> lower ni' = lower ni \<and>
     (if read_only ni then ok \<and> create_ctx Q A ni' \<and> mapped_upto ni'
      else ok \<longrightarrow> api_ctx Q A {unat (new_mgmt_start_ba ni)..<unat (block_count ni)} ni' \<and>
             (clean ni' \<or> protected ni') \<and> mapped_upto ni' \<and> block_count ni' = block_count ni \<and>
             mgmt_start_ba ni' = new_mgmt_start_ba ni \<and> data_block_count ni' \<le> mgmt_start_ba ni'))"

lemma write_signature_create:
  assumes c: "create_ctx Q A ni" and mu: "mapped_upto ni"
  shows "returns (nmbm_write_signature ni (mgmt_start_ba ni) sg) (\<lambda>(res, ni').
     create_ctx Q A ni' \<and> mapped_upto ni' \<and> tab_step Q (unat (mgmt_start_ba ni)) (unat (block_count ni)) ni ni' \<and>
     (case res of None \<Rightarrow> True | Some s \<Rightarrow> s < block_count ni'))"
proof -
  have op: "op_ctx Q A (unat (mgmt_start_ba ni)) (unat (block_count ni)) ni"
    using c by (auto simp: op_ctx_def create_ctx_def sizes_wf_def word_le_nat_alt word_less_nat_alt)
  have "0 < block_count ni" using c by (simp add: create_ctx_def sizes_wf_def)
  from nmbm_write_signature_returns [OF op _ order_refl this, of "mgmt_start_ba ni" sg]
  obtain res ni' where w: "nmbm_write_signature ni (mgmt_start_ba ni) sg = Some (res, ni')"
    and t: "tab_step Q (unat (mgmt_start_ba ni)) (unat (block_count ni)) ni ni'"
    and r: "case res of Some s \<Rightarrow> s < block_count ni | None \<Rightarrow> True"
    by (auto simp: returns_iff split: option.splits)
  have "block_count ni' = block_count ni \<and> mapped_upto ni' = mapped_upto ni"
    using t by (rule tab_stepE) (simp add: mapped_upto_def)
  with w t r mu create_ctx_tab_step [OF c t] show ?thesis by (auto split: option.splits)
qed

lemma nmbm_create_new_post:
  assumes f: "fresh_ctx Q A ni"
  shows "returns (nmbm_create_new crc ni) (create_new_post Q A ni)"
proof -
  let ?ni = "ni\<lparr>mgmt_start_ba := new_mgmt_start_ba ni\<rparr>"
  have m: "0 < new_mgmt_start_ba ni" "new_mgmt_start_ba ni < block_count ni"
    using f new_mgmt_start_bounds [of ni] by (auto simp: fresh_ctx_def)
  have "returns (nmbm_scan_badblocks ?ni) (scan_step Q ?ni)"
    using f by (intro nmbm_scan_badblocks_returns [where A = A]) (auto simp: fresh_ctx_def sizes_wf_def dev_wf_def)
  then obtain ni1 where s: "nmbm_scan_badblocks ?ni = Some ni1" and st: "scan_step Q ?ni ni1"
    by (auto simp: returns_iff)
  from st obtain d pc bs ch where n1: "ni1 = ?ni\<lparr>dev := d, page_cache := pc, block_state := bs, block_state_changed := ch\<rparr>"
    and l1: "length pc = length (page_cache ni)" "length bs = length (block_state ni)" "Q (dev ni) \<longrightarrow> Q d"
    by (auto simp: scan_step_def)
  from f m have "returns (nmbm_build_mapping_table ni1) (\<lambda>ni'. create_ctx Q A ni' \<and> mapped_upto ni' \<and>
      (\<exists>bm n. ni' = ni1\<lparr>data_block_count := n, block_mapping := bm\<rparr>))"
    by (intro build_mapping_create_ctx)
      (auto simp: n1 l1 fresh_ctx_def dev_wf_def geom_wf_def sizes_wf_def blk_allowed_def ba2addr_def read_only_def)
  then obtain n bm where b: "nmbm_build_mapping_table ni1 = Some (ni1\<lparr>data_block_count := n, block_mapping := bm\<rparr>)"
    and c2: "create_ctx Q A (ni1\<lparr>data_block_count := n, block_mapping := bm\<rparr>)"
    and mu2: "mapped_upto (ni1\<lparr>data_block_count := n, block_mapping := bm\<rparr>)" by (auto simp: returns_iff)
  let ?ni2 = "ni1\<lparr>data_block_count := n, block_mapping := bm\<rparr>"
  obtain sg where sg: "new_signature crc ?ni2 = Some sg" 
    using f new_signature_Some [of ?ni2 crc] by (auto simp: n1 fresh_ctx_def)
  let ?ni3 = "?ni2\<lparr>signature := sg\<rparr>"
  have c3: "create_ctx Q A ?ni3" and mu3: "mapped_upto ?ni3" using c2 mu2 by simp_all
  have ro: "read_only ?ni3 = read_only ni" by (simp add: read_only_def n1)
  from write_signature_create [OF c3 mu3, of sg] obtain res ni4
    where w: "nmbm_write_signature ?ni3 (mgmt_start_ba ?ni3) sg = Some (res, ni4)"
      and c4: "create_ctx Q A ni4" "mapped_upto ni4" "tab_step Q (unat (mgmt_start_ba ?ni3)) (unat (block_count ?ni3)) ?ni3 ni4"
      and r: "case res of None \<Rightarrow> True | Some s \<Rightarrow> s < block_count ni4"
    by (auto simp: returns_iff)
  have q4: "Q (dev ni) \<longrightarrow> Q (dev ni4)" "lower ni4 = lower ni" "mgmt_start_ba ni4 = new_mgmt_start_ba ni"
      "block_count ni4 = block_count ni"
    using c4(3) by (rule tab_stepE, simp add: n1 l1)+
  show ?thesis
  proof (cases "read_only ni \<or> res = None")
    case True
    with s b sg w ro q4 c3 mu3 l1 show ?thesis
      by (cases "read_only ni") (simp_all add: nmbm_create_new_def create_new_post_def n1)
  next
    case False
    then obtain sb where sb: "res = Some sb" by auto
    let ?ni5 = "ni4\<lparr>signature_ba := sb\<rparr>"
    have "returns (nmbm_create_info_table crc ?ni5) (create_post Q A ?ni5)"
      using c4 r sb by (intro nmbm_create_info_table_post) simp_all
    then have "returns (nmbm_create_info_table crc ?ni5) (create_new_post Q A ni)"
      by (rule returns_mono) (use False q4 in \<open>auto simp: create_post_def create_new_post_def\<close>)
    with False s b sg w ro sb show ?thesis by (simp add: nmbm_create_new_def)
  qed
qed

section \<open>The search for the signature\<close>

text \<open>
  If the lowest block is not 0, the search ends. It only reads, and what it finds passes the checks.
\<close>

definition valid_signature :: "crc_fn \<Rightarrow> bytes \<Rightarrow> bool" where
  "valid_signature crc b \<longleftrightarrow>
     length b = 48 \<and> nmbm_check_header crc b 48 = Some True \<and> magic (hdr_of_bytes b) = NMBM_MAGIC_SIGNATURE"

lemma nmbm_check_header_Some:
  assumes "16 \<le> length data" and "unat sz \<le> length data"
  shows "\<exists>ok. nmbm_check_header crc data sz = Some ok"
  using assms by (auto simp: nmbm_check_header_def Let_def mem_read_def not_less word_less_nat_alt unat_sub word_le_nat_alt)

lemma find_in_pages_returns:
  "dev_wf ni \<Longrightarrow> geom_wf ni \<Longrightarrow> dev_frame (lower ni) Q A \<Longrightarrow> length sig = 48 \<Longrightarrow>
   returns (find_in_pages crc ni addr offs sig) (\<lambda>(found, sig', ni').
     dev_step Q ni ni' \<and> length sig' = 48 \<and> (found \<longrightarrow> valid_signature crc sig'))"
proof (induction offs arbitrary: ni sig)
  case Nil
  then show ?case by simp
next
  case (Cons off offs)
  from nmbn_read_data_returns [OF Cons.prems(1-3), of 0 48 sig "addr + off"] Cons.prems(4)
  obtain ret sig1 ni1 where r: "nmbn_read_data ni (addr + off) sig 0 48 = Some (ret, sig1, ni1)"
    and d: "dev_step Q ni ni1" and l: "length sig1 = 48"
    by (auto simp: returns_iff read_data_post_def)
  have "returns (find_in_pages crc ni1 addr offs sig1) (\<lambda>(found, sig', ni').
      dev_step Q ni1 ni' \<and> length sig' = 48 \<and> (found \<longrightarrow> valid_signature crc sig'))"
    by (rule Cons.IH) (use Cons.prems l in \<open>auto simp: dev_step_fields [OF d] dev_step_wf [OF d] dev_step_geom [OF d]\<close>)
  then have next_page: "returns (find_in_pages crc ni1 addr offs sig1) (\<lambda>(found, sig', ni').
      dev_step Q ni ni' \<and> length sig' = 48 \<and> (found \<longrightarrow> valid_signature crc sig'))"
    by (rule returns_mono) (auto intro: dev_step_trans [OF d])
  obtain ok where "nmbm_check_header crc sig1 48 = Some ok" using nmbm_check_header_Some [of sig1 48 crc] l by auto
  with r d l next_page show ?case by (auto simp: valid_signature_def)
qed

lemma find_loop_returns:
  assumes "0 < limit"
  shows "dev_wf ni \<Longrightarrow> geom_wf ni \<Longrightarrow> dev_frame (lower ni) Q A \<Longrightarrow> length sig = 48 \<Longrightarrow>
   returns (find_loop crc ni ba limit sig) (\<lambda>(res, ni'). dev_step Q ni ni' \<and>
     (case res of None \<Rightarrow> True
      | Some (b, s) \<Rightarrow> b < ba \<and> limit \<le> b + 1 \<and> valid_signature crc s))"
proof (induction "unat ba" arbitrary: ni sig ba)
  case 0
  then have "\<not> limit \<le> ba" using assms by (simp add: unat_eq_0 not_le)
  then show ?case by (subst find_loop.simps) simp
next
  case (Suc n)
  show ?case
  proof (cases "limit \<le> ba")
    case False
    then show ?thesis by (subst find_loop.simps) simp
  next
    case True
    have b0: "ba \<noteq> 0" using True assms by auto
    have n: "n = unat (ba - 1)" using Suc.hyps(2) b0 by (simp add: unat_minus_one)
    have lt: "ba - 1 < ba" using Suc.hyps(2) n by (simp add: word_less_nat_alt)
    have next_block: "returns (find_loop crc ni1 (ba - 1) limit sig1) (\<lambda>(res, ni'). dev_step Q ni ni' \<and>
        (case res of None \<Rightarrow> True | Some (b, s) \<Rightarrow> b < ba \<and> limit \<le> b + 1 \<and> valid_signature crc s))"
      if d: "dev_step Q ni ni1" and l: "length sig1 = 48" for ni1 sig1
      by (rule returns_mono [OF Suc.hyps(1) [OF n, of ni1 sig1]])
        (use Suc.prems l lt in \<open>auto simp: dev_step_fields [OF d] dev_step_wf [OF d] dev_step_geom [OF d]
            intro: dev_step_trans [OF d] split: option.splits\<close>)
    from nmbm_check_bad_phys_block_returns [OF Suc.prems(1,3), of "ba - 1"] obtain bad ni1
      where c: "nmbm_check_bad_phys_block ni (ba - 1) = Some (bad, ni1)" and d1: "dev_step Q ni ni1"
      by (auto simp: returns_iff)
    show ?thesis
    proof (cases bad)
      case True
      with c next_block [OF d1 Suc.prems(4)] \<open>limit \<le> ba\<close> show ?thesis by (subst find_loop.simps) simp
    next
      case False
      have "dev_wf ni1" "geom_wf ni1" "dev_frame (lower ni1) Q A"
        using Suc.prems(1-3) by (auto simp: dev_step_fields [OF d1] dev_step_wf [OF d1] dev_step_geom [OF d1])
      from find_in_pages_returns [OF this Suc.prems(4), of crc "ba2addr ni1 (ba - 1)"] obtain found sig2 ni2
        where p: "find_in_pages crc ni1 (ba2addr ni1 (ba - 1))
            (page_offsets (erasesize (lower ni1)) (writesize (lower ni1))) sig = Some (found, sig2, ni2)"
          and d2: "dev_step Q ni1 ni2" and l2: "length sig2 = 48" and v: "found \<longrightarrow> valid_signature crc sig2"
        by (rule returnsE) auto
      show ?thesis
        using c p v False \<open>limit \<le> ba\<close> lt next_block [OF dev_step_trans [OF d1 d2] l2] dev_step_trans [OF d1 d2]
        by (subst find_loop.simps) simp
    qed
  qed
qed

lemma nmbm_find_signature_returns:
  assumes "dev_wf ni" and "geom_wf ni" and "dev_frame (lower ni) Q A" and "length sig = 48"
    and "0 < find_limit ni (ucast (drop_bit (unat (erasesize_shift ni)) (nld_size (lower ni))))"
  shows "returns (nmbm_find_signature crc ni sig) (\<lambda>(res, ni'). dev_step Q ni ni' \<and>
     (case res of None \<Rightarrow> True | Some (b, s) \<Rightarrow> \<exists>raw. valid_signature crc raw \<and> s = sig_of_bytes raw))"
proof -
  let ?bc = "ucast (drop_bit (unat (erasesize_shift ni)) (nld_size (lower ni)))"
  from find_loop_returns [OF assms(5,1-4), of crc ?bc] obtain res ni'
    where "find_loop crc ni ?bc (find_limit ni ?bc) sig = Some (res, ni')" and "dev_step Q ni ni'"
      and "case res of None \<Rightarrow> True | Some (b, s) \<Rightarrow> valid_signature crc s"
    by (auto simp: returns_iff split: option.splits)
  then show ?thesis by (cases res) (auto simp: nmbm_find_signature_def)
qed

lemma find_limit_pos:
  assumes "0 < max_ratio (lower ni)" and "max_ratio (lower ni) < 15" and "16 \<le> unat bc" and "unat bc \<le> 2 ^ 26"
  shows "0 < find_limit ni bc"
proof -
  let ?r = "unat (max_ratio (lower ni))" and ?l = "bc div NMBM_MGMT_DIV * (NMBM_MGMT_DIV - max_ratio (lower ni))"
  have r: "0 < ?r" "?r < 15" using assms(1,2) by (simp_all add: word_less_nat_alt)
  have d: "unat (NMBM_MGMT_DIV - max_ratio (lower ni)) = 16 - ?r"
    using r by (simp add: NMBM_MGMT_DIV_def unat_sub word_le_nat_alt)
  have q: "unat (bc div NMBM_MGMT_DIV) = unat bc div 16" by (simp add: NMBM_MGMT_DIV_def unat_div)
  have m: "unat bc div 16 * (16 - ?r) \<le> unat bc div 16 * 16" by (intro mult_left_mono) auto
  then have mb: "unat bc div 16 * (16 - ?r) \<le> unat bc"
    using div_times_less_eq_dividend [of "unat bc" 16] by linarith
  with assms(4) have "unat bc div 16 * (16 - ?r) < 2 ^ 32" by simp
  then have l: "unat ?l = unat bc div 16 * (16 - ?r)" by (subst unat_mult_small) (simp_all add: d q)
  have "0 < unat bc div 16 * (16 - ?r)" using assms(3) r by (simp add: div_greater_zero_iff)
  then have l0: "0 < unat ?l" and ll: "unat ?l \<le> unat bc" using l mb by simp_all
  then have "unat (bc - ?l) < unat bc" using unat_sub [of ?l bc] by (simp add: word_le_nat_alt)
  then show ?thesis using l0 by (auto simp: find_limit_def Let_def word_less_nat_alt unat_sub word_le_nat_alt)
qed

section \<open>Attaching to a chip without signature\<close>

text \<open>
  \<open>attach_ctx\<close>: the lower device is accepted and fits, the caller provides the memory asked for,
  and \<open>A\<close> allows every block of the chip from \<open>new_mgmt_start_ba\<close> on.
\<close>

definition attach_ctx ::
  "('d \<Rightarrow> bool) \<Rightarrow> (u64 \<Rightarrow> bool) \<Rightarrow> 'd nmbm_lower_device \<Rightarrow> 'd nmbm_lower_device \<Rightarrow> 'd nmbm_instance \<Rightarrow> bytes \<Rightarrow> bytes \<Rightarrow> bool" where
  "attach_ctx Q A nld l raw mem sig \<longleftrightarrow>
     nmbm_check_lower_members nld = Some l \<and> chip_fits l \<and> 16 \<le> chip_blocks l \<and> lower_ok l \<and>
     unat (nmbm_calc_structure_size l) \<le> length mem \<and> length sig = 48 \<and>
     length (sig_padding (signature raw)) = 7 \<and> dev_frame l Q A \<and>
     (\<forall>ni b. lower ni = l \<and> unat (block_count ni) = chip_blocks l \<and> geom_wf ni \<and>
             new_mgmt_start_ba ni \<le> b \<and> b < block_count ni \<longrightarrow> blk_allowed A ni b)"

lemma init_structure_keeps:
  "nmbm_init_structure ni mem = Some ni' \<Longrightarrow> signature ni' = signature ni"
  by (auto simp: nmbm_init_structure_def Let_def Option.bind_eq_Some_conv)

lemma attach_fresh:
  assumes a: "attach_ctx Q A nld l raw mem sig" and low: "lower ni = l" and sg: "signature ni = signature raw"
  obtains ni0 found ni1 where "nmbm_init_structure ni mem = Some ni0" and "init_post ni ni0"
    and "nmbm_find_signature crc ni0 sig = Some (found, ni1)" and "dev_step Q ni0 ni1" and "fresh_ctx Q A ni1"
proof -
  have acc: "nmbm_check_lower_members nld = Some (lower ni)" and fit: "chip_fits (lower ni)"
    using a low by (auto simp: attach_ctx_def)
  from nmbm_init_structure_returns [OF acc fit, of mem] a low obtain ni0
    where i: "nmbm_init_structure ni mem = Some ni0" and p: "init_post ni ni0"
    by (auto simp: returns_iff attach_ctx_def)
  have r: "0 < max_ratio l" "max_ratio l < 15" using check_lower_members_Some [OF acc] low by metis+
  have bc: "unat (block_count ni0) = chip_blocks l" "16 \<le> chip_blocks l" "chip_blocks l \<le> 2 ^ 26"
    using a low p fit by (auto simp: attach_ctx_def init_post_def chip_fits_def chip_blocks_def)
  have w: "dev_wf ni0" "geom_wf ni0" "sizes_wf ni0" "lower ni0 = l" "dev_frame (lower ni0) Q A"
    using a low p by (auto simp: attach_ctx_def init_post_def)
  have b2: "ucast (drop_bit (unat (erasesize_shift ni0)) (nld_size (lower ni0))) = block_count ni0"
    using i by (auto simp: nmbm_init_structure_def Let_def Option.bind_eq_Some_conv)
  have "0 < find_limit ni0 (block_count ni0)" using r bc w(4) by (intro find_limit_pos) simp_all
  then have "returns (nmbm_find_signature crc ni0 sig) (\<lambda>(res, ni'). dev_step Q ni0 ni' \<and>
      (case res of None \<Rightarrow> True | Some (b, s) \<Rightarrow> \<exists>raw. valid_signature crc raw \<and> s = sig_of_bytes raw))"
    using a w b2 by (intro nmbm_find_signature_returns [where A = A]) (simp_all add: attach_ctx_def)
  then obtain found ni1 where f: "nmbm_find_signature crc ni0 sig = Some (found, ni1)" and d: "dev_step Q ni0 ni1"
    by (auto simp: returns_iff)
  note df = dev_step_fields [OF d]
  have "signature ni1 = signature ni0" and "sizes_wf ni1 = sizes_wf ni0"
    using d by (auto simp: dev_step_def sizes_wf_def)
  then have "fresh_ctx Q A ni1"
    using a r bc w low sg init_structure_keeps [OF i]
    by (simp add: fresh_ctx_def attach_ctx_def df dev_step_wf [OF d] dev_step_geom [OF d])
  with i p f d show ?thesis by (rule that)
qed

lemma nmbm_attach_new:
  assumes a: "attach_ctx Q A nld l raw mem sig"
  obtains ni0 found ni1 where "nmbm_init_structure (raw\<lparr>log_display_level := NMBM_LOG_INFO, lower := l\<rparr>) mem = Some ni0"
    and "nmbm_find_signature crc ni0 sig = Some (found, ni1)"
    and "found = None \<Longrightarrow> returns (nmbm_attach crc nld raw mem sig) (\<lambda>(rc, ni').
      (Q (dev raw) \<longrightarrow> Q (dev ni')) \<and>
      (if flags l AND NMBM_F_CREATE = 0 then rc = - ENODEV \<and> ni' = ni1
       else \<exists>ok. rc = (if ok then 0 else - ENODEV) \<and> create_new_post Q A ni1 (ok, ni')))"
proof -
  let ?ni = "raw\<lparr>log_display_level := NMBM_LOG_INFO, lower := l\<rparr>"
  from attach_fresh [OF a, of ?ni crc] obtain ni0 found ni1
    where i: "nmbm_init_structure ?ni mem = Some ni0" and p: "init_post ?ni ni0"
      and f: "nmbm_find_signature crc ni0 sig = Some (found, ni1)" and d: "dev_step Q ni0 ni1" and c: "fresh_ctx Q A ni1"
    by auto
  have acc: "nmbm_check_lower_members nld = Some l" using a by (simp add: attach_ctx_def)
  have q: "Q (dev raw) \<longrightarrow> Q (dev ni1)" using p dev_step_Q [OF d] by (simp add: init_post_def)
  show ?thesis
  proof (rule that [OF i f])
    assume none: "found = None"
    from nmbm_create_new_post [OF c, of crc] obtain ok ni2
      where n: "nmbm_create_new crc ni1 = Some (ok, ni2)" and p2: "create_new_post Q A ni1 (ok, ni2)"
      by (auto simp: returns_iff)
    have q2: "Q (dev raw) \<longrightarrow> Q (dev ni2)" using p2 q by (simp add: create_new_post_def)
    have "\<exists>ok'. (if ok then 0 else - ENODEV) = (if ok' then 0 else - ENODEV) \<and> create_new_post Q A ni1 (ok', ni2)"
      using p2 by blast
    with acc i f q n q2 none
    show "returns (nmbm_attach crc nld raw mem sig) (\<lambda>(rc, ni').
      (Q (dev raw) \<longrightarrow> Q (dev ni')) \<and>
      (if flags l AND NMBM_F_CREATE = 0 then rc = - ENODEV \<and> ni' = ni1
       else \<exists>ok. rc = (if ok then 0 else - ENODEV) \<and> create_new_post Q A ni1 (ok, ni')))"
      by (simp add: nmbm_attach_def Let_def)
  qed
qed

end
