(* ===== verification/Nmbm_Example.thy ===== *)
theory Nmbm_Example
  imports Nmbm_Logic Nmbm_Create
begin

text \<open>
  A small chip and an instance on it, on which the hypotheses of the contracts hold: 32 blocks of
  four 512-byte pages with 16 spare bytes, kept as a function from page addresses to contents.
  The info tables are in blocks 20 and 23, the signature in block 31.
\<close>

type_synonym chip = "u64 \<Rightarrow> bytes"

definition fit :: "nat \<Rightarrow> bytes \<Rightarrow> bytes" where
  "fit n bs = take n (bs @ replicate n 0xff)"

definition ex_read_page ::
  "chip \<Rightarrow> u64 \<Rightarrow> bytes option \<Rightarrow> bytes option \<Rightarrow> nmbm_oob_mode
     \<Rightarrow> int \<times> bytes option \<times> bytes option \<times> chip" where
  "ex_read_page d addr data oob mode = (0, map_option (\<lambda>b. fit (length b) (d addr)) data, oob, d)"

definition ex_write_page ::
  "chip \<Rightarrow> u64 \<Rightarrow> bytes option \<Rightarrow> bytes option \<Rightarrow> nmbm_oob_mode \<Rightarrow> int \<times> chip" where
  "ex_write_page d addr data oob mode = (0, case data of None \<Rightarrow> d | Some b \<Rightarrow> d(addr := b))"

definition ex_erase_block :: "chip \<Rightarrow> u64 \<Rightarrow> int \<times> chip" where
  "ex_erase_block d addr = (0, \<lambda>a. if drop_bit 11 a = drop_bit 11 addr then [] else d a)"

definition ex_lower :: "chip nmbm_lower_device" where
  "ex_lower = \<lparr>max_ratio = 1, max_reserved_blocks = 0, flags = NMBM_F_CREATE, nld_size = 65536,
     erasesize = 2048, writesize = 512, oobsize = 16, oobavail = 16, reset_chip = None, read_page = Some ex_read_page,
     write_page = Some ex_write_page, erase_block = Some ex_erase_block, is_bad_block = Some (\<lambda>d a. (0, d)),
     mark_bad_block = Some (\<lambda>d a. (0, d))\<rparr>"

definition ex_header :: nmbm_header where
  "ex_header = \<lparr>magic = 0, version = 0, hdr_size = 0, checksum = 0\<rparr>"

definition ex_signature :: nmbm_signature where
  "ex_signature = \<lparr>sig_header = ex_header, nand_size = 65536, block_size = 2048, page_size = 512,
     spare_size = 16, mgmt_start_pb = 20, max_try_count = 3, sig_padding = replicate 7 0\<rparr>"

definition ex_info_table :: nmbm_info_table_header where
  "ex_info_table = \<lparr>ith_header = ex_header, write_count = 1, state_table_off = 512,
     mapping_table_off = 1024, ith_padding = 0\<rparr>"

text \<open>Logic blocks 0 to 18 are mapped to themselves, block 19 to block 30.\<close>

definition ex_ni :: "chip nmbm_instance" where
  "ex_ni = \<lparr>lower = ex_lower, dev = (\<lambda>_. []), rawpage_size = 528, rawblock_size = 2112, rawchip_size = 67584,
     writesize_mask = 511, erasesize_mask = 2047, writesize_shift = 9, erasesize_shift = 11,
     signature = ex_signature, info_table_cache = replicate 1536 0xff, info_table_size = 1536,
     info_table_spare_blocks = 2, info_table = ex_info_table, block_state = [- 1, - 1],
     block_state_changed = 1, state_table_size = 8,
     block_mapping = map of_nat [0..<19] @ [30] @ replicate 12 (- 1), block_mapping_changed = 0,
     mapping_table_size = 128, page_cache = replicate 528 0xff, protected = False, block_count = 32,
     data_block_count = 20, mgmt_start_ba = 20, main_table_ba = 20, backup_table_ba = 23,
     mapping_blocks_ba = 24, mapping_blocks_top_ba = 29, signature_ba = 31,
     log_display_level = NMBM_LOG_INFO\<rparr>"

text \<open>The frame: page 0 of the chip is kept, addresses from block 20 on may change.\<close>

definition ex_Q :: "chip \<Rightarrow> bool" where "ex_Q d \<longleftrightarrow> d 0 = []"
definition ex_A :: "u64 \<Rightarrow> bool" where "ex_A a \<longleftrightarrow> 40960 \<le> a"

lemma length_fit [simp]: "length (fit n bs) = n"
  by (simp add: fit_def)

lemma ex_lower_ok: "lower_ok ex_lower"
  by (simp add: lower_ok_def ex_lower_def ex_read_page_def fills_def option.map_comp comp_def)

lemma ex_frame: "dev_frame ex_lower ex_Q ex_A"
proof -
  have "a \<noteq> 0 \<and> drop_bit 11 a \<noteq> 0" if "ex_A a" for a :: u64
  proof -
    have "40960 \<le> unat a" using that by (simp add: ex_A_def word_le_nat_alt)
    then have "unat (drop_bit 11 a) \<noteq> 0" by (simp add: unat_drop_bit_div)
    then show ?thesis by auto
  qed
  then show ?thesis
    by (auto simp: dev_frame_def ex_lower_def ex_Q_def ex_read_page_def ex_write_page_def ex_erase_block_def
        split: option.split)
qed

lemma ex_dev_wf: "dev_wf ex_ni"
  using ex_lower_ok by (simp add: dev_wf_def ex_ni_def) (simp add: ex_lower_def)

lemma ex_geom_wf: "geom_wf ex_ni"
  unfolding geom_wf_def
  by (rule exI [of _ 9], rule exI [of _ 11]) (simp add: ex_ni_def ex_lower_def mask_eq_exp_minus_1)

lemma ex_table_wf: "table_wf ex_ni"
  by (simp add: table_wf_def ex_ni_def ex_info_table_def)

lemma ex_order_wf: "order_wf ex_ni"
  by (simp add: order_wf_def ex_ni_def)

lemma ex_map_wf: "map_wf ex_ni"
  by (auto simp: map_wf_def ex_ni_def word_less_nat_alt unat_of_nat)

lemma ex_allowed:
  assumes "20 \<le> unat b"
  shows "blk_allowed ex_A ex_ni b"
proof -
  have b: "unat (push_bit 11 (ucast b) :: u64) = unat b * 2048"
    using unat_u32_less [of b] by (simp add: unat_push_bit_mult)
  have "40960 \<le> push_bit 11 (ucast b) + off" if "off < 2048" for off :: u64
  proof -
    have "unat (push_bit 11 (ucast b) + off) = unat b * 2048 + unat off"
      using that unat_u32_less [of b] by (simp add: unat_word_ariths b word_less_nat_alt)
    then show ?thesis using assms by (simp add: word_le_nat_alt)
  qed
  from this [of 0] this show ?thesis
    by (simp add: blk_allowed_def ex_A_def ba2addr_def ex_ni_def) (simp add: ex_lower_def)
qed

lemma ex_api_ctx: "api_ctx ex_Q ex_A (mgmt_area ex_ni) ex_ni"
  using ex_dev_wf ex_geom_wf ex_table_wf ex_order_wf ex_map_wf ex_frame ex_allowed
  by (auto simp: api_ctx_def) (simp_all add: ex_ni_def)

lemma ex_mg_ok: "mg_ok ex_Q ex_A ex_ni ex_ni"
  by (rule api_ctx_mg_ok [OF ex_api_ctx])

text \<open>With every block allowed, the operations on logic blocks apply too.\<close>

lemma ex_api_ctx_all: "api_ctx (\<lambda>_. True) (\<lambda>_. True) UNIV ex_ni"
  using ex_dev_wf ex_geom_wf ex_table_wf ex_order_wf ex_map_wf
  by (simp add: api_ctx_def dev_frame_def blk_allowed_def)

lemma ex_api_ok_all: "api_ok (\<lambda>_. True) (\<lambda>_. True) UNIV ex_ni ex_ni"
  by (rule api_ok_refl [OF ex_api_ctx_all])

text \<open>The same instance with block 29, the top of the free area, marked bad.\<close>

definition ex_bad_top :: "chip nmbm_instance" where
  "ex_bad_top = ex_ni\<lparr>block_state := [- 1, 0xf3ffffff]\<rparr>"

lemma ex_bad_top_good: "good_blocks [- 1, 0xf3ffffff] 25 30 = [25, 26, 27, 28]"
  by code_simp

lemma ex_bad_top_wf: "table_wf ex_bad_top" "order_wf ex_bad_top" "\<not> good_at ex_bad_top 29"
proof -
  show "table_wf ex_bad_top" "order_wf ex_bad_top"
    using ex_table_wf ex_order_wf by (simp_all add: ex_bad_top_def table_wf_def order_wf_def ex_ni_def)
  have "st_of [- 1, 0xf3ffffff] 29 \<noteq> BLOCK_ST_GOOD" by code_simp
  then show "\<not> good_at ex_bad_top 29" by (simp add: ex_bad_top_def)
qed

lemma ex_bad_top_map: "\<exists>ni1. nmbm_map_block crc ex_bad_top 0 = Some (True, ni1)"
proof -
  have "walk_desc_loop ex_bad_top 29 0 24 = Some (Some 28)"
    by (subst walk_desc_loop_eq) (simp_all add: ex_bad_top_def ex_bad_top_good arr_get_def)
  then show ?thesis
    by (simp add: nmbm_map_block_def nmbm_block_walk_def nmbm_block_walk_desc_def arr_set_def)
      (simp add: ex_bad_top_def ex_ni_def arr_set_def)
qed

text \<open>The page at address 1024 of the data area is page 2 of physical block 0.\<close>

definition ex_on :: "chip \<Rightarrow> chip nmbm_instance" where
  "ex_on d = ex_ni\<lparr>dev := d\<rparr>"

lemma ex_on_dev [simp]: "dev (ex_on d) = d" "(ex_on d)\<lparr>dev := e\<rparr> = ex_on e"
  by (simp_all add: ex_on_def)

lemma ex_on_simps [simp]:
  "protected (ex_on d) = False" "lower (ex_on d) = ex_lower"
  "data_block_count (ex_on d) = 20" "ba2addr (ex_on d) 20 = 40960"
  "addr2ba (ex_on d) 1024 = 0" "logic_offset (ex_on d) 1024 = 1024" "ba2addr (ex_on d) 0 = 0"
  "arr_get (block_mapping (ex_on d)) 0 = Some 0"
  by (simp_all add: ex_on_def ex_ni_def ba2addr_def addr2ba_def logic_offset_def arr_get_def nth_append)

lemma ex_lower_simps [simp]:
  "write_page ex_lower = Some ex_write_page" "read_page ex_lower = Some ex_read_page"
  by (simp_all add: ex_lower_def)

lemma ex_on_state [simp]: "nmbm_get_block_state (ex_on d) 0 = Some BLOCK_ST_GOOD"
  by (simp add: nmbm_get_block_state_def nmbm_get_block_state_raw_eq ex_on_def ex_ni_def st_of_def block_st_defs)

lemma ex_on_rw [simp]: "\<not> read_only (ex_on d)"
  by (simp add: read_only_def) (simp add: ex_lower_def NMBM_F_CREATE_def NMBM_F_READ_ONLY_def)

text \<open>The instance in read-only mode: no address needs to be allowed.\<close>

definition ex_ro :: "chip nmbm_instance" where
  "ex_ro = ex_ni\<lparr>lower := ex_lower\<lparr>flags := NMBM_F_READ_ONLY\<rparr>\<rparr>"

lemma ex_ro_read_only: "read_only ex_ro"
  by (simp add: read_only_def ex_ro_def NMBM_F_READ_ONLY_def)

lemma ex_ro_ctx:
  assumes "dev_frame (lower ex_ro) Q A"
  shows "api_ctx Q A UNIV ex_ro"
proof -
  have "dev_wf ex_ro" "geom_wf ex_ro" "table_wf ex_ro" "order_wf ex_ro" "map_wf ex_ro"
    using ex_dev_wf ex_geom_wf ex_table_wf ex_order_wf ex_map_wf
    by (auto simp: ex_ro_def dev_wf_def geom_wf_def table_wf_def order_wf_def map_wf_def lower_ok_def ex_ni_def)
  then show ?thesis using assms ex_ro_read_only by (simp add: api_ctx_def blk_allowed_def)
qed

text \<open>The lower device is accepted and fits; the boundary of its management area is block 30.\<close>

lemma ex_accepted: "nmbm_check_lower_members ex_lower = Some ex_lower"
  by (simp add: nmbm_check_lower_members_def ex_lower_def is_power_of_2_def is_power_of_2_u64_def
      NMBM_F_CREATE_def NMBM_F_READ_ONLY_def NMBM_MGMT_DIV_def NMBM_MGMT_BLOCKS_MIN_def Let_def word_le_nat_alt)

lemma ex_fits: "chip_fits ex_lower" "chip_blocks ex_lower = 32"
  by (simp_all add: chip_fits_def chip_blocks_def ex_lower_def)

lemma ex_struct_size: "unat (nmbm_calc_structure_size ex_lower) \<le> 3000"
  by (simp add: nmbm_calc_structure_size_def Let_def ex_lower_def nmbm_lldiv_def state_bytes_def nmbm_align_def
      NMBM_BITMAP_BLOCKS_PER_UNIT_def NMBM_BITMAP_UNIT_SIZE_def)

lemma ex_new_mgmt_start:
  assumes "lower ni = ex_lower" and "block_count ni = 32"
  shows "new_mgmt_start_ba ni = 30"
  using assms by (simp add: new_mgmt_start_ba_def ex_lower_def NMBM_MGMT_DIV_def Let_def)

lemma ex_fresh_ctx: "fresh_ctx ex_Q ex_A ex_ni"
proof -
  have "lower ex_ni = ex_lower" "block_count ex_ni = 32" by (simp_all add: ex_ni_def)
  moreover have "sizes_wf ex_ni" using ex_table_wf by (simp add: sizes_wf_def table_wf_def) (simp add: ex_ni_def)
  moreover have "length (sig_padding (signature ex_ni)) = 7" by (simp add: ex_ni_def ex_signature_def)
  ultimately show ?thesis
    using ex_dev_wf ex_geom_wf ex_frame ex_allowed ex_new_mgmt_start [of ex_ni]
    by (auto simp: fresh_ctx_def word_le_nat_alt) (simp_all add: ex_lower_def)
qed

lemma ex_attach_ctx: "attach_ctx ex_Q ex_A ex_lower ex_lower ex_ni (replicate 3000 0) (replicate 48 0)"
proof -
  have "blk_allowed ex_A ni b"
    if "lower ni = ex_lower" "unat (block_count ni) = 32" "geom_wf ni" "new_mgmt_start_ba ni \<le> b" for ni :: "chip nmbm_instance" and b
  proof -
    have "block_count ni = 32" using that(2) by (simp add: word_unat_eq_iff)
    then have "20 \<le> unat b" using ex_new_mgmt_start [OF that(1)] that(4) by (simp add: word_le_nat_alt)
    moreover have "unat (erasesize_shift ni) = 11"
      using that(1,3) power_inject_exp [of "2 :: nat" _ 11] by (auto simp: geom_wf_def ex_lower_def)
    ultimately show ?thesis
      using ex_allowed [of b] that(1) by (simp add: blk_allowed_def ba2addr_def read_only_def ex_ni_def)
  qed
  then show ?thesis
    using ex_accepted ex_fits ex_lower_ok ex_struct_size ex_frame
    by (auto simp: attach_ctx_def) (simp add: ex_ni_def ex_signature_def)
qed

end
