(* ===== verification/Nmbm_Image.thy ===== *)
theory Nmbm_Image
  imports Nmbm_Load Mtd_Crc
begin

text \<open>
  The serialised info table: what \<open>nmbm_generate_info_table_cache\<close> writes passes every check of
  the loading side, and \<open>take_loaded_table\<close> reads the tables back.
\<close>

section \<open>Reading an image whose checksum was stored\<close>

lemma mem_read_with_checksum:
  assumes "16 \<le> length pre" and "16 \<le> off"
  shows "mem_read (take 12 pre @ le32 c @ drop 16 pre) off n = mem_read pre off n"
proof -
  have "drop off (take 12 pre @ le32 c @ drop 16 pre) = drop off pre" using assms by simp
  then show ?thesis using assms(1) by (simp add: mem_read_def)
qed

lemma ith_with_checksum:
  assumes "32 \<le> length pre" and "take 32 pre = ith_bytes h"
  shows "ith_of_bytes (take 32 (take 12 pre @ le32 c @ drop 16 pre))
    = h\<lparr>ith_header := (ith_header h)\<lparr>checksum := c\<rparr>\<rparr>"
proof -
  obtain r where r: "pre = ith_bytes h @ r"
    using assms(2) append_take_drop_id [of 32 pre] by metis
  show ?thesis
    unfolding r by (simp add: ith_of_bytes_def hdr_of_bytes_def ith_bytes_def hdr_bytes_def)
qed

section \<open>Round trip\<close>

text \<open>The image is accepted, and gives back the state table, the mapping table and the write count.\<close>

definition image_of :: "crc_fn \<Rightarrow> 'd nmbm_instance \<Rightarrow> 'd nmbm_instance \<Rightarrow> bool" where
  "image_of crc ni ni' \<longleftrightarrow>
     nmbm_check_header crc (info_table_cache ni') (info_table_size ni) = Some True \<and>
     nmbm_check_info_table_header ni' (ith_of_bytes (take 32 (info_table_cache ni'))) \<and>
     returns (take_loaded_table ni') (\<lambda>ni2.
       block_state ni2 = block_state ni \<and> block_mapping ni2 = block_mapping ni \<and>
       write_count (info_table ni2) = write_count (info_table ni) + (if clean ni then 0 else 1))"

context crc_incremental
begin

lemma generate_image:
  assumes wf: "table_wf ni"
  shows "returns (nmbm_generate_info_table_cache crc ni) (\<lambda>(changed, ni').
    changed = (\<not> clean ni) \<and> image_of crc ni ni')"
proof -
  let ?so = "unat (state_table_off (info_table ni))" and ?mo = "unat (mapping_table_off (info_table ni))"
  from nmbm_generate_eq [OF wf] obtain pre where g: "nmbm_generate_info_table_cache crc ni =
       do { c \<leftarrow> nmbm_update_checksum crc pre;
            Some (\<not> clean ni, ni\<lparr>info_table_cache := c, info_table := gen_header ni\<rparr>) }"
    and len: "length pre = unat (info_table_size ni)" and h: "mem_read pre 0 32 = Some (ith_bytes (gen_header ni))"
    and sb: "mem_read pre ?so (unat (state_table_size ni)) = Some (words_bytes (block_state ni))"
    and mb: "mem_read pre ?mo (unat (mapping_table_size ni)) = Some (words_bytes (block_mapping ni))"
    by metis
  note hs = gen_hdr_size [OF h]
  from h have t: "take 32 pre = ith_bytes (gen_header ni)" by (auto simp: mem_read_def split: if_splits)
  have "returns (nmbm_update_checksum crc pre) (\<lambda>d. (\<exists>c. d = take 12 pre @ le32 c @ drop 16 pre) \<and>
      nmbm_check_header crc d (info_table_size ni) = Some True)"
    using hs len by (intro update_then_check) simp_all
  then obtain c where u: "nmbm_update_checksum crc pre = Some (take 12 pre @ le32 c @ drop 16 pre)"
    and chk: "nmbm_check_header crc (take 12 pre @ le32 c @ drop 16 pre) (info_table_size ni) = Some True"
    by (auto simp: returns_iff)
  define d where "d = take 12 pre @ le32 c @ drop 16 pre"
  let ?h = "gen_header ni"
  have w: "32 \<le> ?so" "?so + unat (state_table_size ni) \<le> ?mo" "?mo + unat (mapping_table_size ni) \<le> unat (info_table_size ni)"
    "unat (state_table_size ni) = 4 * length (block_state ni)" "unat (mapping_table_size ni) = 4 * length (block_mapping ni)"
    using wf by (auto simp: table_wf_def)
  have hd: "ith_of_bytes (take 32 d) = ?h\<lparr>ith_header := (ith_header ?h)\<lparr>checksum := c\<rparr>\<rparr>"
    unfolding d_def by (rule ith_with_checksum [OF hs(2) t])
  have off: "state_table_off ?h = state_table_off (info_table ni)" "mapping_table_off ?h = mapping_table_off (info_table ni)"
    "magic (ith_header ?h) = NMBM_MAGIC_INFO_TABLE" "hdr_size (ith_header ?h) = info_table_size ni"
    "write_count ?h = write_count (info_table ni) + (if clean ni then 0 else 1)"
    by (simp_all add: gen_header_def Let_def)
  have sub: "unat (mapping_table_off (info_table ni) - state_table_off (info_table ni)) = ?mo - ?so"
    "unat (info_table_size ni - mapping_table_off (info_table ni)) = unat (info_table_size ni) - ?mo"
    using w by (simp_all add: unat_sub word_le_nat_alt)
  have rd: "mem_read d 0 32 = Some (take 32 d)" using hs(2) by (simp add: mem_read_def d_def)
  have "mem_read d ?so (unat (state_table_size ni)) = Some (words_bytes (block_state ni))"
    "mem_read d ?mo (unat (mapping_table_size ni)) = Some (words_bytes (block_mapping ni))"
    using hs(2) w sb mb by (simp_all add: mem_read_with_checksum d_def)
  then have "image_of crc ni (ni\<lparr>info_table_cache := d, info_table := ?h\<rparr>)"
    using chk [folded d_def] rd hd off sub w words_of_bytes_bytes [of "block_state ni" "[]"] words_of_bytes_bytes [of "block_mapping ni" "[]"]
    by (auto simp: image_of_def nmbm_check_info_table_header_def take_loaded_table_def word_less_nat_alt Let_def)
  then show ?thesis by (simp add: g u flip: d_def)
qed

end

end
