(* ===== verification/Nmbm_Store.thy ===== *)
theory Nmbm_Store
  imports Nmbm_Logic
begin

text \<open>
  Reading back what was written. \<open>st d a\<close> is what page \<open>a\<close> of the chip \<open>d\<close> holds; \<open>page_store\<close>
  states what the lower device documents of it: a successful write stores the data, a successful
  read returns what is stored, reading and resetting store nothing.
\<close>

definition page_store :: "'d nmbm_lower_device \<Rightarrow> ('d \<Rightarrow> u64 \<Rightarrow> bytes) \<Rightarrow> bool" where
  "page_store l st \<longleftrightarrow>
     (\<forall>f d. reset_chip l = Some f \<longrightarrow> st (snd (f d)) = st d) \<and>
     (\<forall>f d a data oob mode ret data' oob' d'.
        read_page l = Some f \<longrightarrow> f d a data oob mode = (ret, data', oob', d') \<longrightarrow>
        st d' = st d \<and> (0 \<le> ret \<longrightarrow> (\<forall>b. data' = Some b \<longrightarrow> length b = length (st d a) \<longrightarrow> b = st d a))) \<and>
     (\<forall>f d a b oob mode d'.
        write_page l = Some f \<longrightarrow> f d a (Some b) oob mode = (0, d') \<longrightarrow> st d' a = b)"

lemma reset_store:
  "page_store (lower ni) st \<Longrightarrow> st (dev (nmbm_reset_chip ni)) = st (dev ni)"
  "lower (nmbm_reset_chip ni) = lower ni"
  by (auto simp: nmbm_reset_chip_def page_store_def split: option.split)

lemma reset_eq: "\<exists>d. nmbm_reset_chip ni = ni\<lparr>dev := d\<rparr>"
  by (rule exI [of _ "dev (nmbm_reset_chip ni)"]) (simp add: nmbm_reset_chip_def split: option.split)

lemma write_tries_store:
  "page_store (lower ni) st \<Longrightarrow> write_tries n ni a (Some b) oob mode = Some (True, ni') \<Longrightarrow>
   st (dev ni') a = b \<and> (\<exists>d. ni' = ni\<lparr>dev := d\<rparr>)"
proof (induction n arbitrary: ni)
  case 0
  then show ?case by simp
next
  case (Suc n)
  from Suc.prems(2) obtain wp ret d where wp: "write_page (lower ni) = Some wp" "wp (dev ni) a (Some b) oob mode = (ret, d)"
    by (cases "write_page (lower ni)") (auto split: prod.splits)
  show ?case
  proof (cases "ret = 0")
    case True
    with Suc.prems wp show ?thesis by (auto simp: page_store_def)
  next
    case False
    let ?ni = "nmbm_reset_chip (ni\<lparr>dev := d\<rparr>)"
    have "page_store (lower ?ni) st" using Suc.prems(1) by (simp add: reset_store)
    moreover have "write_tries n ?ni a (Some b) oob mode = Some (True, ni')" using Suc.prems(2) wp False by simp
    ultimately have "st (dev ni') a = b \<and> (\<exists>d. ni' = ?ni\<lparr>dev := d\<rparr>)" by (rule Suc.IH)
    then show ?thesis using reset_eq [of "ni\<lparr>dev := d\<rparr>"] by auto
  qed
qed

lemma read_tries_store:
  "page_store (lower ni) st \<Longrightarrow> lower_ok (lower ni) \<Longrightarrow> length buf = length (st (dev ni) a) \<Longrightarrow> 0 \<le> ret \<Longrightarrow> 0 < n \<Longrightarrow>
   read_tries n ni a (Some buf) oob mode ret0 = Some (ret, data, oob', ni') \<Longrightarrow>
   data = Some (st (dev ni) a)"
proof (induction n arbitrary: ni buf oob ret0)
  case 0
  then show ?case by simp
next
  case (Suc n)
  from Suc.prems(2) obtain rp where rp: "read_page (lower ni) = Some rp" by (auto simp: lower_ok_def)
  obtain r b o2 d where c: "rp (dev ni) a (Some buf) oob mode = (r, b, o2, d)" by (cases "rp (dev ni) a (Some buf) oob mode")
  have "case rp (dev ni) a (Some buf) oob mode of (ret, data', oob', d') \<Rightarrow> fills (Some buf) data' \<and> fills oob oob'"
    using Suc.prems(2) rp unfolding lower_ok_def by auto
  then have "fills (Some buf) b" using c by simp
  then obtain bb where b: "b = Some bb" "length bb = length buf" by (auto simp: fills_def)
  have s: "st d = st (dev ni)" "0 \<le> r \<longrightarrow> bb = st (dev ni) a"
    using Suc.prems(1,3) rp c b by (auto simp: page_store_def)
  show ?case
  proof (cases "0 \<le> r")
    case True
    with Suc.prems(6) rp c b s show ?thesis by simp
  next
    case False
    let ?ni = "nmbm_reset_chip (ni\<lparr>dev := d\<rparr>)"
    have e: "read_tries n ?ni a (Some bb) o2 mode r = Some (ret, data, oob', ni')"
      using Suc.prems(6) rp c b False by simp
    then have "0 < n" using Suc.prems(4) False by (cases n) auto
    have ps: "page_store (lower (ni\<lparr>dev := d\<rparr>)) st" using Suc.prems(1) by simp
    have "data = Some (st (dev ?ni) a)"
      by (rule Suc.IH [OF _ _ _ Suc.prems(4) \<open>0 < n\<close> e])
        (use Suc.prems ps b s in \<open>simp_all add: reset_store(1) [OF ps] reset_store(2)\<close>)
    then show ?thesis by (simp add: reset_store(1) [OF ps] s)
  qed
qed

lemma page_write_read:
  assumes st: "page_store (lower ni) st" and ok: "lower_ok (lower ni)"
    and w: "nmbm_write_single_page crc ni addr (Some data) oob mode = Some (0, ni1)"
    and r: "nmbm_read_single_page ni1 addr (Some buf) oob2 mode2 = Some (ret, data', oob2', ni2)"
    and "0 \<le> ret" and len: "length buf = length data"
  shows "data' = Some data"
proof -
  from w obtain pb s1 where pb: "arr_get (block_mapping ni) (unat (addr2ba ni addr)) = Some pb" "\<not> sint pb < 0"
      "nmbm_get_block_state ni pb = Some s1" "s1 \<noteq> BLOCK_ST_BAD"
    and wp: "nmbm_write_phys_page ni (ba2addr ni pb + ucast (logic_offset ni addr)) (Some data) oob mode = Some (True, ni1)"
    and pr: "\<not> protected ni" "\<not> addr \<ge> ba2addr ni (data_block_count ni)"
    by (auto simp: nmbm_write_single_page_def nmbm_write_logic_page_def EROFS_def EINVAL_def EIO_def
        Option.bind_eq_Some_conv split: if_splits)
  let ?a = "ba2addr ni pb + ucast (logic_offset ni addr)"
  from wp have "write_tries NMBM_TRY_COUNT ni ?a (Some data) oob mode = Some (True, ni1)"
    by (auto simp: nmbm_write_phys_page_def split: if_splits)
  from write_tries_store [OF st this] obtain d where s: "st (dev ni1) ?a = data" and n1: "ni1 = ni\<lparr>dev := d\<rparr>" by auto
  have same: "addr2ba ni1 addr = addr2ba ni addr" "ba2addr ni1 = ba2addr ni" "logic_offset ni1 addr = logic_offset ni addr"
    "nmbm_get_block_state ni1 pb = nmbm_get_block_state ni pb"
    by (simp_all add: n1 addr2ba_def ba2addr_def logic_offset_def nmbm_get_block_state_def fun_eq_iff)
  have "nmbm_read_phys_page ni1 ?a (Some buf) oob2 mode2 = Some (ret, data', oob2', ni2)"
    using r pb pr same by (simp add: nmbm_read_single_page_def nmbm_read_logic_page_def n1)
  then have "read_tries NMBM_TRY_COUNT ni1 ?a (Some buf) oob2 mode2 0 = Some (ret, data', oob2', ni2)"
    by (simp add: nmbm_read_phys_page_def)
  with read_tries_store [of ni1 st buf ?a ret NMBM_TRY_COUNT oob2 mode2 0 data' oob2' ni2] st ok s len \<open>0 \<le> ret\<close>
  show ?thesis by (simp add: n1 NMBM_TRY_COUNT_def)
qed

end
