(* ===== verification/Nmbm_Spec.thy ===== *)
theory Nmbm_Spec
  imports Nmbm_Example Nmbm_Image Nmbm_Store
begin

text \<open>
  The properties of the bad-block manager, each with an instance on the example chip where it has
  hypotheses. \<open>returns m P\<close> says that the operation ends without undefined behaviour in a result
  that satisfies \<open>P\<close>.
\<close>

section \<open>The info tables\<close>





text \<open>
  C5: writing a management structure from block \<open>ba\<close> on ends. On success it fills exactly
  as many good blocks as its size needs, it starts at the first block that is still good and ends
  behind a good block; on failure the good blocks left in the range are too few.
\<close>

theorem write_mgmt_range_fills:
  assumes "op_ctx Q A lo hi ni" and "lo \<le> unat ba" and "unat limit \<le> hi" and "ba \<le> limit"
    and "unat sz \<le> length data" and "sz \<noteq> 0"
  shows "returns (nmbm_write_mgmt_range ni ba limit data sz) (\<lambda>(res, ni').
    let es = unat (erasesize (lower ni)) in
    case res of
      Some (s, e) \<Rightarrow> ba \<le> s \<and> s < e \<and> e \<le> limit \<and> good_at ni' s \<and> good_at ni' (e - 1) \<and>
        (\<forall>b. ba \<le> b \<and> b < s \<longrightarrow> \<not> good_at ni' b) \<and>
        length (good_blocks (block_state ni') (unat s) (unat e)) = (unat sz + es - 1) div es
    | None \<Rightarrow> length (good_blocks (block_state ni') (unat ba) (unat limit)) * es < unat sz)"
  using nmbm_write_mgmt_range_returns [OF assms]
  by (rule returns_mono) (auto simp: mgmt_range_post_def)

theorem write_mgmt_range_fills_witness:
  "returns (nmbm_write_mgmt_range ex_ni 20 29 (replicate 1536 0) 1536) (\<lambda>(res, ni').
     case res of Some (s, e) \<Rightarrow> 20 \<le> s \<and> s < e \<and> e \<le> 29 | None \<Rightarrow> True)"
proof -
  have "op_ctx ex_Q ex_A 20 29 ex_ni" using ex_mg_ok by (simp add: mg_ok_def ex_ni_def)
  from write_mgmt_range_fills [OF this, of 20 29 1536 "replicate 1536 0"] show ?thesis
    by (auto simp: Let_def split: option.splits elim!: returns_mono)
qed

text \<open>
  \<open>nmbm_write_signature\<close> ends and puts the signature into the highest block that is still good,
  above \<open>limit\<close>; if it fails, no such block is left.
\<close>

lemma write_signature_highest:
  assumes "op_ctx Q A lo hi ni" and "lo \<le> Suc (unat limit)" and "unat (block_count ni) \<le> hi"
    and "0 < block_count ni"
  shows "returns (nmbm_write_signature ni limit sig) (\<lambda>(found, ni').
    case found of
      Some s \<Rightarrow> limit < s \<and> s < block_count ni \<and> good_at ni' s \<and>
        (\<forall>b. s < b \<and> b < block_count ni \<longrightarrow> \<not> good_at ni' b)
    | None \<Rightarrow> \<forall>b. limit < b \<and> b < block_count ni \<longrightarrow> \<not> good_at ni' b)"
  using nmbm_write_signature_returns [OF assms] by (rule returns_mono) auto

text \<open>
  C18: with a well-formed instance and both tables in place, rescuing the main table never takes the
  branch that writes a new backup table: the temporary table is always kept as the backup or
  as the only table.
\<close>

theorem rescue_write_main_keeps_table:
  assumes "mg_ok Q A ni0 ni" and "mapping_blocks_ba ni \<le> s" and "s < t" and "t \<le> mapping_blocks_top_ba ni"
  shows "returns (rescue_write_main ni s t) (\<lambda>(ok, ni'). ok \<and>
    (main_table_ba ni' = s \<and> backup_table_ba ni' = 0 \<or> backup_table_ba ni' = s) \<and> mapping_blocks_ba ni' = t)"
  using rescue_write_main_post [OF assms] by (rule returns_mono) auto

theorem rescue_write_main_keeps_table_witness:
  "returns (rescue_write_main ex_ni 24 25) (\<lambda>(ok, ni'). ok \<and> mapping_blocks_ba ni' = 25)"
proof -
  from rescue_write_main_keeps_table [OF ex_mg_ok, of 24 25] show ?thesis
    by (auto simp: ex_ni_def elim!: returns_mono)
qed

section \<open>Blocks\<close>

text \<open>
  C20: the packed state table behaves as a table: \<open>nmbm_set_block_state\<close> stores the two state bits of
  its block, changes no other block, and counts a change exactly if the state was another.
\<close>

theorem set_then_get_block_state:
  assumes "unat ba < 16 * length (block_state ni)" and "unat b < 16 * length (block_state ni)"
  shows "returns (nmbm_set_block_state ni ba s) (\<lambda>(changed, ni').
    nmbm_get_block_state ni' b = (if b = ba then Some (s AND BLOCK_ST_MASK) else nmbm_get_block_state ni b) \<and>
    changed = (nmbm_get_block_state ni ba \<noteq> Some (s AND BLOCK_ST_MASK)) \<and>
    block_state_changed ni' = block_state_changed ni + (if changed then 1 else 0))"
  using assms
  by (auto simp: nmbm_set_block_state_eq [OF assms(1)] nmbm_get_block_state_def nmbm_get_block_state_raw_eq
      st_of_put Let_def word_unat_eq_iff)

theorem set_then_get_block_state_witness:
  "returns (nmbm_set_block_state ex_ni 17 BLOCK_ST_NEED_REMAP) (\<lambda>(changed, ni').
     nmbm_get_block_state ni' 17 = Some BLOCK_ST_NEED_REMAP)"
  using set_then_get_block_state [of 17 ex_ni 17 BLOCK_ST_NEED_REMAP]
  by (auto simp: ex_ni_def block_st_defs elim!: returns_mono)

text \<open>
  C21: walking up (down) from \<open>ba\<close> over \<open>count\<close> good blocks gives the next good block of the range, the
  entry number \<open>count\<close> of the list of its good blocks in ascending (descending) order, and fails
  exactly if there are not so many.
\<close>

theorem block_walk_nth_good:
  assumes "unat count < 2 ^ 31" and "limit < block_count ni"
    and "unat (block_count ni) \<le> 16 * length (block_state ni)" and "unat ba < 16 * length (block_state ni)"
  shows "nmbm_block_walk ni True ba count limit
      = Some (map_option of_nat (arr_get (good_blocks (block_state ni) (unat ba) (unat limit)) (unat count))) \<and>
    nmbm_block_walk ni False ba count limit
      = Some (map_option of_nat (arr_get (rev (good_blocks (block_state ni) (Suc (unat limit)) (Suc (unat ba)))) (unat count)))"
proof -
  have "unat limit \<le> 16 * length (block_state ni)" using assms(2,3) by (simp add: word_less_nat_alt)
  then show ?thesis
    using walk_asc_loop_eq [OF assms(1)] walk_desc_loop_eq [OF assms(1,4)] leD [of "block_count ni" limit] assms(2)
    by (auto simp: nmbm_block_walk_def nmbm_block_walk_asc_def nmbm_block_walk_desc_def)
qed

theorem block_walk_nth_good_witness:
  "nmbm_block_walk ex_ni True 20 2 30 = Some (map_option of_nat (arr_get (good_blocks [- 1, - 1] 20 30) 2))"
  using block_walk_nth_good [of 2 30 ex_ni 20] by (simp add: ex_ni_def)

text \<open>
  \<open>nmbm_build_mapping_table\<close> maps the logic blocks 0, 1, 2, ... to the blocks of the data area that
  are not bad, in order, and leaves the rest of the table unmapped.
\<close>

lemma build_mapping_table_spec:
  assumes "unat (block_count ni) \<le> 16 * length (block_state ni)"
    and "length (block_mapping ni) = unat (block_count ni)"
    and "mgmt_start_ba ni \<le> block_count ni"
  shows "nmbm_build_mapping_table ni =
    (let us = filter (\<lambda>i. st_of (block_state ni) i \<noteq> BLOCK_ST_BAD) [0..<unat (mgmt_start_ba ni)] in
     Some (ni\<lparr>data_block_count := of_nat (length us),
       block_mapping := map of_nat us @ replicate (unat (block_count ni) - length us) (- 1)\<rparr>))"
  using nmbm_build_mapping_table_eq [OF assms] by (simp add: usable_blocks_def)

text \<open>
  Scanning for bad blocks ends, writes nothing to the chip, and changes the state of a block only to bad.
\<close>

lemma scan_badblocks_only_marks:
  assumes "dev_wf ni" and "dev_frame (lower ni) Q (\<lambda>_. False)"
    and "unat (block_count ni) \<le> 16 * length (block_state ni)"
  shows "returns (nmbm_scan_badblocks ni) (\<lambda>ni'. (Q (dev ni) \<longrightarrow> Q (dev ni')) \<and>
    block_mapping ni' = block_mapping ni \<and> length (block_state ni') = length (block_state ni) \<and>
    (\<forall>i. st_of (block_state ni') i = st_of (block_state ni) i \<or> st_of (block_state ni') i = BLOCK_ST_BAD))"
  using nmbm_scan_badblocks_returns [OF assms] by (rule returns_mono) (auto simp: scan_step_def)

section \<open>Mapping\<close>

text \<open>
  \<open>nmbm_map_block\<close> ends. On success the logic block gets the highest good block of the free
  area and no other mapping changes; on failure no mapping changes and the free area is given up.
\<close>

lemma map_block_takes_highest:
  assumes "api_ctx Q A S ni" and "unat lb < length (block_mapping ni)"
  shows "returns (nmbm_map_block crc ni lb) (\<lambda>(ok, ni'). api_ctx Q A S ni' \<and> (Q (dev ni) \<longrightarrow> Q (dev ni')) \<and>
    (if ok then
       mapping_blocks_top_ba ni' = mapping_blocks_top_ba ni - 1 \<and>
       (\<exists>pb. block_mapping ni' = (block_mapping ni)[unat lb := pb] \<and> good_at ni pb \<and>
          mapping_blocks_ba ni < pb \<and> pb \<le> mapping_blocks_top_ba ni \<and>
          (\<forall>b. pb < b \<and> b \<le> mapping_blocks_top_ba ni \<longrightarrow> \<not> good_at ni b))
     else block_mapping ni' = block_mapping ni \<and> mapping_blocks_top_ba ni' = mapping_blocks_ba ni'))"
  using nmbm_map_block_post [OF api_ok_refl [OF assms(1)] assms(2), of crc]
  by (rule returns_mono) (auto simp: map_post_def api_ok_def api_step_def)

text \<open>
  C22: mapping is not injective. If the top of the free area is a bad block, two logic blocks
  that are mapped one after the other get the same physical block.
\<close>

theorem map_block_same_block_twice:
  assumes "table_wf ni" and "order_wf ni" and "nmbm_map_block crc ni lb = Some (True, ni1)"
    and "\<not> good_at ni (mapping_blocks_top_ba ni)" and "unat lb2 < length (block_mapping ni)"
  shows "\<exists>ni2. nmbm_map_block crc ni1 lb2 = Some (True, ni2) \<and>
    block_mapping ni2 ! unat lb2 = block_mapping ni1 ! unat lb"
  by (rule map_block_twice [OF assms])

theorem map_block_same_block_twice_witness:
  "\<exists>ni1 ni2. nmbm_map_block crc32 ex_bad_top 0 = Some (True, ni1) \<and>
     nmbm_map_block crc32 ni1 1 = Some (True, ni2) \<and> block_mapping ni2 ! 1 = block_mapping ni1 ! 0"
proof -
  obtain ni1 where m: "nmbm_map_block crc32 ex_bad_top 0 = Some (True, ni1)" using ex_bad_top_map by blast
  have "\<not> good_at ex_bad_top (mapping_blocks_top_ba ex_bad_top)"
    using ex_bad_top_wf(3) by (simp add: ex_bad_top_def ex_ni_def)
  from map_block_same_block_twice [OF ex_bad_top_wf(1,2) m this, of 1] m show ?thesis
    by (auto simp: ex_bad_top_def ex_ni_def)
qed

section \<open>Logic blocks\<close>

text \<open>
  C2: erasing a logic block ends, however often it has to be remapped. It returns 0 with the
  logic block mapped to a block that is neither bad nor to be remapped, or \<open>-EIO\<close> with the logic
  block unmapped; no other mapping changes.
\<close>

theorem erase_logic_block_total:
  assumes "api_ctx Q A S ni" and "unat lb < length (block_mapping ni)"
    and "sint (block_mapping ni ! unat lb) < 0 \<or> unat (block_mapping ni ! unat lb) \<in> S"
  shows "returns (nmbm_erase_logic_block crc ni lb) (\<lambda>(ret, ni'). api_ctx Q A S ni' \<and>
    (Q (dev ni) \<longrightarrow> Q (dev ni')) \<and>
    (\<exists>pb. block_mapping ni' = (block_mapping ni)[unat lb := pb] \<and>
       (ret = 0 \<and> \<not> sint pb < 0 \<and> usable_at ni' pb \<or> ret = - EIO \<and> sint pb < 0)))"
  using erase_logic_block_post [OF api_ok_refl [OF assms(1)] assms(2,3), of crc]
  by (rule returns_mono) (auto simp: erase_post_def api_ok_def api_step_def)

theorem erase_logic_block_total_witness:
  "returns (nmbm_erase_logic_block crc32 ex_ni 19) (\<lambda>(ret, ni'). ret = 0 \<or> ret = - EIO)"
proof -
  have "unat (19 :: u32) < length (block_mapping ex_ni)" by (simp add: ex_ni_def)
  from erase_logic_block_total [OF ex_api_ctx_all this, of crc32] show ?thesis
    by (auto elim!: returns_mono)
qed

text \<open>
  C12: erasing a range ends. It refuses a read-only or protected chip and ranges beyond the data
  area without any change; a failure names a logic block that is unmapped afterwards.
\<close>

theorem erase_block_range_total:
  assumes "api_ctx Q A S ni" and "unat addr + unat sz < 2 ^ 64" and "mapped_in S ni 0 (unat (data_block_count ni))"
  shows "returns (nmbm_erase_block_range crc ni addr sz) (\<lambda>(ret, fa, ni'). api_ctx Q A S ni' \<and>
    (Q (dev ni) \<longrightarrow> Q (dev ni')) \<and>
    (ret = 0 \<or> (ret = - EROFS \<or> ret = - EINVAL) \<and> ni' = ni \<or>
     ret = - EIO \<and> (\<exists>lb. lb < data_block_count ni \<and> fa = Some (ba2addr ni lb) \<and>
                        sint (block_mapping ni' ! unat lb) < 0)))"
  using erase_block_range_post [OF api_ok_refl [OF assms(1)] assms(2,3), of crc]
  by (rule returns_mono) (auto simp: api_ok_def api_step_def)

theorem erase_block_range_total_witness:
  "returns (nmbm_erase_block_range crc32 ex_ni 0 4096) (\<lambda>(ret, fa, ni'). ret \<le> 0)"
proof -
  have "mapped_in UNIV ex_ni 0 (unat (data_block_count ex_ni))" by (simp add: mapped_in_def)
  from erase_block_range_total [OF ex_api_ctx_all _ this, of 0 4096 crc32] show ?thesis
    by (auto simp: EIO_def EROFS_def EINVAL_def elim!: returns_mono)
qed







text \<open>
  A logic block that was marked bad is reported bad.
\<close>

lemma mark_bad_reported:
  assumes "api_ctx Q A S ni" and "addr < ba2addr ni (data_block_count ni)"
    and "mapped_in S ni (unat (addr2ba ni addr)) (unat (addr2ba ni addr))"
    and "\<not> protected ni" and "\<not> read_only ni"
  shows "returns (nmbm_mark_bad_block crc ni addr) (\<lambda>(ret, ni').
    ret = 0 \<and> api_ctx Q A S ni' \<and> nmbm_check_bad_block ni' addr = Some 1)"
  using mark_then_check_bad [OF api_ok_refl [OF assms(1)] assms(2-5), of crc]
  by (rule returns_mono) (auto simp: api_ok_def)



section \<open>Attaching\<close>

text \<open>
  C15: for an accepted lower device whose pages fit its blocks and whose tables fit 32 bits, the
  memory of \<open>nmbm_calc_structure_size\<close> is enough, and \<open>nmbm_init_structure\<close> gives an instance with the
  geometry, table layout and buffer sizes that the other operations rely on, every block good.
\<close>

theorem init_structure_well_formed:
  assumes "nmbm_check_lower_members l0 = Some (lower ni)" and "chip_fits (lower ni)" and "lower_ok (lower ni)"
    and "unat (nmbm_calc_structure_size (lower ni)) \<le> length mem"
  shows "returns (nmbm_init_structure ni mem) (\<lambda>ni'. lower ni' = lower ni \<and> dev ni' = dev ni \<and>
    dev_wf ni' \<and> geom_wf ni' \<and> sizes_wf ni' \<and>
    unat (block_count ni') = unat (nld_size (lower ni)) div unat (erasesize (lower ni)) \<and>
    (\<forall>b. unat b < 16 * length (block_state ni') \<longrightarrow> nmbm_get_block_state ni' b = Some BLOCK_ST_GOOD) \<and> clean ni')"
  using nmbm_init_structure_returns [OF assms(1,2,4)] assms(3)
  by (auto simp: init_post_def chip_blocks_def clean_def nmbm_get_block_state_def nmbm_get_block_state_raw_eq
      elim!: returns_mono)

theorem init_structure_well_formed_witness:
  "returns (nmbm_init_structure ex_ni (replicate 3000 0)) (\<lambda>ni'. unat (block_count ni') = 32 \<and> dev_wf ni')"
proof -
  have "lower ex_ni = ex_lower" by (simp add: ex_ni_def)
  then show ?thesis
    using init_structure_well_formed [of ex_lower ex_ni "replicate 3000 0"] ex_accepted ex_fits ex_lower_ok ex_struct_size
    by (auto simp: ex_lower_def elim!: returns_mono)
qed

text \<open>
  C3: on a fresh instance \<open>nmbm_create_new\<close> ends and touches only the blocks from its management
  boundary on. On success the instance is well-formed for every operation of the interface, with both
  tables up to date (or the chip protected), and every logic block of the data area is mapped.
\<close>

theorem create_new_well_formed:
  assumes "fresh_ctx Q A ni" and "\<not> read_only ni"
  shows "returns (nmbm_create_new crc ni) (\<lambda>(ok, ni'). (Q (dev ni) \<longrightarrow> Q (dev ni')) \<and>
    (ok \<longrightarrow> api_ctx Q A {unat (new_mgmt_start_ba ni)..<unat (block_count ni)} ni' \<and>
       (clean ni' \<or> protected ni') \<and> data_block_count ni' \<le> mgmt_start_ba ni' \<and>
       mgmt_start_ba ni' = new_mgmt_start_ba ni \<and>
       (\<forall>lb < unat (data_block_count ni'). block_mapping ni' ! lb < block_count ni')))"
  using nmbm_create_new_post [OF assms(1), of crc] assms(2)
  by (auto simp: create_new_post_def mapped_upto_def elim!: returns_mono)

theorem create_new_well_formed_witness:
  "returns (nmbm_create_new crc32 ex_ni) (\<lambda>(ok, ni'). dev ni' 0 = [] \<and> (ok \<longrightarrow> mgmt_start_ba ni' = 30))"
proof -
  have e: "ex_ni = ex_on (dev ex_ni)" by (simp add: ex_on_def)
  have "\<not> read_only ex_ni" by (subst e) simp
  moreover have "new_mgmt_start_ba ex_ni = 30" by (rule ex_new_mgmt_start) (simp_all add: ex_ni_def)
  moreover have "ex_Q (dev ex_ni)" by (simp add: ex_Q_def ex_ni_def)
  ultimately show ?thesis
    using create_new_well_formed [OF ex_fresh_ctx, of crc32] by (auto simp: ex_Q_def elim!: returns_mono)
qed



text \<open>
  C17: the search for a signature ends if its lowest block is not 0, does not write to the chip,
  and what it finds has a valid checksum and the magic of a signature.
\<close>

theorem find_signature_total:
  assumes "dev_wf ni" and "geom_wf ni" and "dev_frame (lower ni) Q (\<lambda>_. False)" and "length sig = 48"
    and "0 < find_limit ni (ucast (drop_bit (unat (erasesize_shift ni)) (nld_size (lower ni))))"
  shows "returns (nmbm_find_signature crc ni sig) (\<lambda>(res, ni'). dev_step Q ni ni' \<and>
    (case res of None \<Rightarrow> True
     | Some (b, s) \<Rightarrow> \<exists>raw. length raw = 48 \<and> nmbm_check_header crc raw 48 = Some True \<and>
                       magic (hdr_of_bytes raw) = NMBM_MAGIC_SIGNATURE \<and> s = sig_of_bytes raw))"
  using nmbm_find_signature_returns [OF assms, of crc]
  by (auto simp: valid_signature_def split: option.splits elim!: returns_mono)

theorem find_signature_total_witness:
  "returns (nmbm_find_signature crc32 ex_ni (replicate 48 0)) (\<lambda>(res, ni'). dev ni' = dev ex_ni)"
proof -
  have "dev_frame (lower ex_ni) (\<lambda>d. d = dev ex_ni) (\<lambda>_. False)"
    by (simp add: dev_frame_def ex_ni_def) (simp add: ex_lower_def ex_read_page_def)
  moreover have "0 < find_limit ex_ni (ucast (drop_bit (unat (erasesize_shift ex_ni)) (nld_size (lower ex_ni))))"
    by (simp add: find_limit_def ex_ni_def ex_lower_def NMBM_MGMT_DIV_def Let_def)
  ultimately show ?thesis
    using find_signature_total [OF ex_dev_wf ex_geom_wf, of "\<lambda>d. d = dev ex_ni" "replicate 48 0" crc32]
    by (auto dest: dev_step_Q elim!: returns_mono)
qed

section \<open>Where the code falls short\<close>

text \<open>
  C23: the header check of an info table subtracts unsigned offsets. It accepts a header whose
  mapping table lies outside of the table, and loading that table reads out of bounds.
\<close>

theorem table_header_check_wraps:
  "\<exists>(ni :: chip nmbm_instance) h. table_wf ni \<and> nmbm_check_info_table_header ni h \<and>
     \<not> unat (mapping_table_off h) + unat (mapping_table_size ni) \<le> unat (info_table_size ni) \<and>
     take_loaded_table (ni\<lparr>info_table_cache := ith_bytes h @ replicate (unat (info_table_size ni) - 32) 0\<rparr>) = None"
proof -
  define h where "h = ex_info_table\<lparr>ith_header := ex_header\<lparr>magic := NMBM_MAGIC_INFO_TABLE, hdr_size := 1536\<rparr>,
    state_table_off := 0, mapping_table_off := 0xffffff00\<rparr>"
  have "nmbm_check_info_table_header ex_ni h"
    by (simp add: nmbm_check_info_table_header_def h_def ex_ni_def word_less_nat_alt)
  moreover have "\<not> unat (mapping_table_off h) + unat (mapping_table_size ex_ni) \<le> unat (info_table_size ex_ni)"
    by (simp add: h_def ex_ni_def)
  moreover have "mapping_table_off (ith_of_bytes (ith_bytes h)) = 0xffffff00"
    using ith_of_bytes_bytes [of h "[]"] by (simp add: h_def)
  then have "take_loaded_table (ex_ni\<lparr>info_table_cache := ith_bytes h @ replicate (unat (info_table_size ex_ni) - 32) 0\<rparr>) = None"
    by (simp add: take_loaded_table_def mem_read_def Let_def ex_ni_def)
  ultimately show ?thesis using ex_table_wf by blast
qed

text \<open>
  A partial page that starts at a page boundary is written with what the page cache held
  before behind its last byte, not with 0xff.
\<close>

lemma partial_page_keeps_stale_tail:
  assumes "range_leading ni off = 0" and "sz < ucast (writesize (lower ni))" and "unat sz \<le> length data"
    and "unat (writesize (lower ni)) \<le> length (page_cache ni)"
  shows "write_range_page crc ni data 0 off sz mode =
    (let pc = take (unat sz) data @ drop (unat sz) (page_cache ni) in
     nmbm_write_logic_page crc (ni\<lparr>page_cache := pc\<rparr>) off (Some (take (unat (writesize (lower ni))) pc)) None mode)"
proof -
  have c: "range_chunk ni off sz = sz" using assms(1,2) by (auto simp: range_chunk_def Let_def)
  have "unat sz < unat (writesize (lower ni))" using assms(2) by (simp add: word_less_nat_alt)
  then show ?thesis
    using assms c by (auto simp: write_range_page_def mem_write_def mem_read_def Let_def)
qed

end
