(* ===== verification/Nmbm_Mtd.thy ===== *)
theory Nmbm_Mtd
  imports Nmbm_Logic Nmbm_Attach
begin

text \<open>
  The MTD layer over NMBM (\<open>nmbm-mtd.c\<close>): the callbacks that give the core a lower MTD device,
  the handlers of the upper MTD device, the lock that serialises them, probing and removing.

  The kernel's MTD functions are not part of the sources. They are the record \<open>mtd_core\<close>, over an
  arbitrary type \<open>'m\<close> of states of the lower device. The core reaches that device through \<open>arg\<close>,
  which points to the \<open>nmbm_mtd\<close> structure; of that structure the callbacks use the lower device
  and the ECC statistics of the upper one, which together are the chip state \<open>nm_dev\<close> of the
  instance.
\<close>

section \<open>Structures\<close>

definition EUCLEAN :: int where "EUCLEAN = 117"
definition EPROBE_DEFER :: int where "EPROBE_DEFER = 517"
definition ENOTSUPP :: int where "ENOTSUPP = 524"

definition NMBM_MAX_RATIO_DEFAULT :: u32 where "NMBM_MAX_RATIO_DEFAULT = 1"
definition NMBM_MAX_BLOCKS_DEFAULT :: u32 where "NMBM_MAX_BLOCKS_DEFAULT = 256"

datatype mtd_ops_mode = MTD_OPS_PLACE_OOB | MTD_OPS_AUTO_OOB | MTD_OPS_RAW | MTD_OPS_OTHER u32

datatype flstate = FL_READY | FL_READING | FL_WRITING | FL_ERASING | FL_PM_SUSPENDED

record ecc_stats =
  corrected :: u32
  failed :: u32

record mtd_info =
  mtd_type :: u8
  mtd_flags :: u32
  mtd_size :: u64
  mtd_erasesize :: u32
  mtd_writesize :: u32
  mtd_writebufsize :: u32
  mtd_oobsize :: u32
  mtd_avail :: u32
  mtd_erasesize_shift :: u32
  mtd_writesize_shift :: u32
  mtd_erasesize_mask :: u32
  mtd_writesize_mask :: u32
  mtd_bitflip_threshold :: u32
  mtd_ecc_step_size :: u32
  mtd_ecc_strength :: u32

record mtd_oob_ops =
  ops_mode :: mtd_ops_mode
  ops_len :: u64
  ops_retlen :: u64
  ops_ooblen :: u64
  ops_oobretlen :: u64
  ops_ooboffs :: u32
  datbuf :: "bytes option"
  oobbuf :: "bytes option"

text \<open>
  What the kernel offers: the number of spare bytes a mode can use, and the operations on the
  lower device. \<open>mtd_read_oob\<close> returns the two buffers of its argument as it left them.
\<close>

record 'm mtd_core =
  mtd_oobavail :: "mtd_info \<Rightarrow> mtd_ops_mode \<Rightarrow> u32"
  mtd_read_oob :: "'m \<Rightarrow> u64 \<Rightarrow> mtd_oob_ops \<Rightarrow> int \<times> bytes option \<times> bytes option \<times> 'm"
  mtd_write_oob :: "'m \<Rightarrow> u64 \<Rightarrow> mtd_oob_ops \<Rightarrow> int \<times> 'm"
  mtd_erase :: "'m \<Rightarrow> u64 \<Rightarrow> u64 \<Rightarrow> int \<times> 'm"
  mtd_block_isbad :: "'m \<Rightarrow> u64 \<Rightarrow> int \<times> 'm"
  mtd_block_markbad :: "'m \<Rightarrow> u64 \<Rightarrow> int \<times> 'm"
  ecc_stats_of :: "'m \<Rightarrow> ecc_stats"

record 'm nm_dev =
  nd_lower :: 'm
  nd_ecc :: ecc_stats

record 'm nmbm_mtd =
  nm_upper :: mtd_info
  nm_lower :: mtd_info
  nm_ni :: "'m nm_dev nmbm_instance"
  nm_page_cache :: bytes
  nm_state :: flstate

section \<open>The lower device\<close>

fun mtd_mode :: "nmbm_oob_mode \<Rightarrow> mtd_ops_mode" where
  "mtd_mode NMBM_MODE_PLACE_OOB = MTD_OPS_PLACE_OOB"
| "mtd_mode NMBM_MODE_AUTO_OOB = MTD_OPS_AUTO_OOB"
| "mtd_mode NMBM_MODE_RAW = MTD_OPS_RAW"

text \<open>The request both page callbacks prepare; what is not set is zero.\<close>

definition lower_ops ::
  "'m mtd_core \<Rightarrow> mtd_info \<Rightarrow> bytes option \<Rightarrow> bytes option \<Rightarrow> nmbm_oob_mode \<Rightarrow> mtd_oob_ops" where
  "lower_ops core l buf oob mode =
     \<lparr>ops_mode = mtd_mode mode,
      ops_len = (if buf = None then 0 else ucast (mtd_writesize l)), ops_retlen = 0,
      ops_ooblen = (if oob = None then 0 else ucast (mtd_oobavail core l (mtd_mode mode))),
      ops_oobretlen = 0, ops_ooboffs = 0, datbuf = buf, oobbuf = oob\<rparr>"

text \<open>\<open>min_t(u32, ...)\<close>, returned as an \<open>int\<close>.\<close>

definition euclean_bitflips :: "mtd_info \<Rightarrow> int" where
  "euclean_bitflips l = sint (min (mtd_bitflip_threshold l + 1) (mtd_ecc_strength l))"

definition nmbm_lower_read_page ::
  "'m mtd_core \<Rightarrow> mtd_info \<Rightarrow> 'm nm_dev read_page_fn" where
  "nmbm_lower_read_page core l nm addr buf oob mode =
     (let (ret, buf, oob, m) = mtd_read_oob core (nd_lower nm) addr (lower_ops core l buf oob mode);
          nm = \<lparr>nd_lower = m, nd_ecc = ecc_stats_of core m\<rparr>
      in (if ret < 0 \<and> ret \<noteq> - EUCLEAN then ret
          else if ret = - EUCLEAN then euclean_bitflips l else 0, buf, oob, nm))"

definition nmbm_lower_write_page ::
  "'m mtd_core \<Rightarrow> mtd_info \<Rightarrow> 'm nm_dev write_page_fn" where
  "nmbm_lower_write_page core l nm addr buf oob mode =
     (let (ret, m) = mtd_write_oob core (nd_lower nm) addr (lower_ops core l buf oob mode)
      in (ret, nm\<lparr>nd_lower := m\<rparr>))"

definition nmbm_lower_erase_block :: "'m mtd_core \<Rightarrow> mtd_info \<Rightarrow> 'm nm_dev block_fn" where
  "nmbm_lower_erase_block core l nm addr =
     (let (ret, m) = mtd_erase core (nd_lower nm) addr (ucast (mtd_erasesize l))
      in (ret, nm\<lparr>nd_lower := m\<rparr>))"

definition nmbm_lower_is_bad_block :: "'m mtd_core \<Rightarrow> 'm nm_dev block_fn" where
  "nmbm_lower_is_bad_block core nm addr =
     (let (ret, m) = mtd_block_isbad core (nd_lower nm) addr in (ret, nm\<lparr>nd_lower := m\<rparr>))"

definition nmbm_lower_mark_bad_block :: "'m mtd_core \<Rightarrow> 'm nm_dev block_fn" where
  "nmbm_lower_mark_bad_block core nm addr =
     (let (ret, m) = mtd_block_markbad core (nd_lower nm) addr in (ret, nm\<lparr>nd_lower := m\<rparr>))"

section \<open>The lock of the upper device\<close>

text \<open>
  What \<open>nmbm_get_device\<close> does while it holds the spin lock: the new state if it returns,
  \<open>None\<close> if the caller is put to sleep.
\<close>

definition get_device_locked :: "flstate \<Rightarrow> flstate \<Rightarrow> flstate option" where
  "get_device_locked st new_state =
     (if st = FL_READY then Some new_state
      else if new_state = FL_PM_SUSPENDED \<and> st = FL_PM_SUSPENDED then Some st
      else None)"

text \<open>
  A single caller: if it has to sleep there is nobody to wake it up, and it does not return.
  Several callers are the subject of the last section.
\<close>

definition nmbm_get_device :: "'m nmbm_mtd \<Rightarrow> flstate \<Rightarrow> 'm nmbm_mtd option" where
  "nmbm_get_device nm new_state =
     map_option (\<lambda>st. nm\<lparr>nm_state := st\<rparr>) (get_device_locked (nm_state nm) new_state)"

definition nmbm_release_device :: "'m nmbm_mtd \<Rightarrow> 'm nmbm_mtd" where
  "nmbm_release_device nm = nm\<lparr>nm_state := FL_READY\<rparr>"

section \<open>Handlers\<close>

definition nmbm_mtd_erase ::
  "crc_fn \<Rightarrow> 'm nmbm_mtd \<Rightarrow> u64 \<Rightarrow> u64 \<Rightarrow> (int \<times> u64 option \<times> 'm nmbm_mtd) option" where
  "nmbm_mtd_erase crc nm addr len =
     do {
       nm \<leftarrow> nmbm_get_device nm FL_ERASING;
       (ret, fail_addr, ni) \<leftarrow> nmbm_erase_block_range crc (nm_ni nm) addr len;
       let nm = nmbm_release_device (nm\<lparr>nm_ni := ni\<rparr>);
       Some (if ret = 0 then 0 else - EIO, fail_addr, nm)
     }"

text \<open>
  The two halves of the page cache, \<open>NULL\<close> if the request has no data or no spare bytes.
\<close>

definition dat_cache :: "'m nmbm_mtd \<Rightarrow> bool \<Rightarrow> bytes option option" where
  "dat_cache nm used =
     (if used then map_option Some (mem_read (nm_page_cache nm) 0 (unat (mtd_writesize (nm_lower nm))))
      else Some None)"

definition oob_cache :: "'m nmbm_mtd \<Rightarrow> bool \<Rightarrow> bytes option option" where
  "oob_cache nm used =
     (if used
      then map_option Some (mem_read (nm_page_cache nm) (unat (mtd_writesize (nm_lower nm)))
                                     (unat (mtd_oobsize (nm_lower nm))))
      else Some None)"

definition store_cache :: "bytes \<Rightarrow> nat \<Rightarrow> bytes option \<Rightarrow> bytes option" where
  "store_cache pc off b = (case b of None \<Rightarrow> Some pc | Some b \<Rightarrow> mem_write pc off b)"

definition read_page_caches ::
  "'m nmbm_mtd \<Rightarrow> u64 \<Rightarrow> bool \<Rightarrow> bool \<Rightarrow> nmbm_oob_mode \<Rightarrow> (int \<times> 'm nmbm_mtd) option" where
  "read_page_caches nm addr dat oob mode =
     do {
       d \<leftarrow> dat_cache nm dat;
       c \<leftarrow> oob_cache nm oob;
       (ret, d, c, ni) \<leftarrow> nmbm_read_single_page (nm_ni nm) addr d c mode;
       pc \<leftarrow> store_cache (nm_page_cache nm) 0 d;
       pc \<leftarrow> store_cache pc (unat (mtd_writesize (nm_lower nm))) c;
       Some (ret, nm\<lparr>nm_ni := ni, nm_page_cache := pc\<rparr>)
     }"

text \<open>Data and spare bytes from the caches to the caller; the results are what is left to do.\<close>

definition dat_chunk :: "'m nmbm_mtd \<Rightarrow> u32 \<Rightarrow> u64 \<Rightarrow> u64" where
  "dat_chunk nm col len =
     (let chklen = ucast (mtd_writesize (nm_lower nm) - col) in if chklen > len then len else chklen)"

definition oob_chunk :: "u64 \<Rightarrow> u32 \<Rightarrow> u64 \<Rightarrow> u64" where
  "oob_chunk maxooblen ooboffs ooblen =
     (let chklen = maxooblen - ucast ooboffs in if chklen > ooblen then ooblen else chklen)"

definition move_data_out ::
  "'m nmbm_mtd \<Rightarrow> mtd_oob_ops \<Rightarrow> u64 \<Rightarrow> u32 \<Rightarrow> (mtd_oob_ops \<times> u64 \<times> u32) option" where
  "move_data_out nm ops len col =
     (if len = 0 then Some (ops, len, col)
      else do {
        let chklen = dat_chunk nm col len;
        c \<leftarrow> mem_read (nm_page_cache nm) (unat col) (unat chklen);
        d \<leftarrow> datbuf ops;
        d \<leftarrow> mem_write d (unat (ops_retlen ops)) c;
        Some (ops\<lparr>datbuf := Some d, ops_retlen := ops_retlen ops + chklen\<rparr>, len - chklen, 0)
      })"

definition move_oob_out ::
  "'m nmbm_mtd \<Rightarrow> u64 \<Rightarrow> mtd_oob_ops \<Rightarrow> u64 \<Rightarrow> u32 \<Rightarrow> (mtd_oob_ops \<times> u64 \<times> u32) option" where
  "move_oob_out nm maxooblen ops ooblen ooboffs =
     (if ooblen = 0 then Some (ops, ooblen, ooboffs)
      else do {
        let chklen = oob_chunk maxooblen ooboffs ooblen;
        c \<leftarrow> mem_read (nm_page_cache nm) (unat (mtd_writesize (nm_lower nm)) + unat ooboffs) (unat chklen);
        d \<leftarrow> oobbuf ops;
        d \<leftarrow> mem_write d (unat (ops_oobretlen ops)) c;
        Some (ops\<lparr>oobbuf := Some d, ops_oobretlen := ops_oobretlen ops + chklen\<rparr>, ooblen - chklen, 0)
      })"

partial_function (option) mtd_read_loop ::
  "'m nmbm_mtd \<Rightarrow> u64 \<Rightarrow> nmbm_oob_mode \<Rightarrow> bool \<Rightarrow> bool \<Rightarrow> u64 \<Rightarrow> u32 \<Rightarrow> u32 \<Rightarrow> u64 \<Rightarrow> u64 \<Rightarrow> mtd_oob_ops
     \<Rightarrow> bool \<Rightarrow> int \<Rightarrow> (int \<times> mtd_oob_ops \<times> 'm nmbm_mtd) option" where
  "mtd_read_loop nm maxooblen mode dat oob addr col ooboffs len ooblen ops has_ecc_err max_bitflips =
     (if len = 0 \<and> ooblen = 0 then Some (if has_ecc_err then - EBADMSG else max_bitflips, ops, nm)
      else do {
        (ret, nm) \<leftarrow> read_page_caches nm addr dat oob mode;
        if ret < 0 \<and> ret \<noteq> - EBADMSG then Some (ret, ops, nm)
        else do {
          (ops, len, col) \<leftarrow> move_data_out nm ops len col;
          (ops, ooblen, ooboffs) \<leftarrow> move_oob_out nm maxooblen ops ooblen ooboffs;
          mtd_read_loop nm maxooblen mode dat oob (addr + ucast (mtd_writesize (nm_lower nm))) col ooboffs
            len ooblen ops (has_ecc_err \<or> ret = - EBADMSG) (if ret > max_bitflips then ret else max_bitflips)
        }
      })"

text \<open>
  \<open>writesize_mask\<close> is an \<open>unsigned int\<close>: its complement is computed in 32 bits and extended with
  zeroes, which clears the upper half of \<open>addr\<close>.
\<close>

definition page_col :: "'m nmbm_mtd \<Rightarrow> u64 \<Rightarrow> u32" where
  "page_col nm addr = ucast (addr AND ucast (mtd_writesize_mask (nm_lower nm)))"

definition page_addr :: "'m nmbm_mtd \<Rightarrow> u64 \<Rightarrow> u64" where
  "page_addr nm addr = addr AND ucast (NOT (mtd_writesize_mask (nm_lower nm)))"

definition nmbm_mtd_read_data ::
  "'m mtd_core \<Rightarrow> 'm nmbm_mtd \<Rightarrow> u64 \<Rightarrow> mtd_oob_ops \<Rightarrow> nmbm_oob_mode
     \<Rightarrow> (int \<times> mtd_oob_ops \<times> 'm nmbm_mtd) option" where
  "nmbm_mtd_read_data core nm addr ops mode =
     mtd_read_loop nm (ucast (mtd_oobavail core (nm_lower nm) (ops_mode ops))) mode
       (ops_len ops \<noteq> 0) (ops_ooblen ops \<noteq> 0) (page_addr nm addr) (page_col nm addr) (ops_ooboffs ops)
       (ops_len ops) (ops_ooblen ops) (ops\<lparr>ops_oobretlen := 0, ops_retlen := 0\<rparr>) False 0"

fun nmbm_mode :: "mtd_ops_mode \<Rightarrow> nmbm_oob_mode option" where
  "nmbm_mode MTD_OPS_PLACE_OOB = Some NMBM_MODE_PLACE_OOB"
| "nmbm_mode MTD_OPS_AUTO_OOB = Some NMBM_MODE_AUTO_OOB"
| "nmbm_mode MTD_OPS_RAW = Some NMBM_MODE_RAW"
| "nmbm_mode (MTD_OPS_OTHER _) = None"

text \<open>
  The check of the spare area. \<open>from\<close> is a signed \<open>loff_t\<close>; comparing it with the unsigned size
  converts it, shifting it does not.
\<close>

definition oob_beyond_end :: "mtd_info \<Rightarrow> u32 \<Rightarrow> u64 \<Rightarrow> mtd_oob_ops \<Rightarrow> bool" where
  "oob_beyond_end mtd maxooblen from ops \<longleftrightarrow>
     from \<ge> mtd_size mtd \<or>
     ucast (ops_ooboffs ops) + ops_ooblen ops >
       (drop_bit (unat (mtd_writesize_shift mtd)) (mtd_size mtd) -
        signed_drop_bit (unat (mtd_writesize_shift mtd)) from) * ucast maxooblen"

definition nmbm_mtd_read_oob ::
  "'m mtd_core \<Rightarrow> 'm nmbm_mtd \<Rightarrow> u64 \<Rightarrow> mtd_oob_ops \<Rightarrow> (int \<times> mtd_oob_ops \<times> 'm nmbm_mtd) option" where
  "nmbm_mtd_read_oob core nm from ops =
     (let mtd = nm_upper nm in
      if oobbuf ops = None \<and> datbuf ops = None then
        Some (if ops_ooblen ops \<noteq> 0 \<or> ops_len ops \<noteq> 0 then - EINVAL else 0, ops, nm)
      else case nmbm_mode (ops_mode ops) of
        None \<Rightarrow> Some (- ENOTSUPP, ops, nm)
      | Some mode \<Rightarrow>
          let maxooblen = mtd_oobavail core mtd (ops_mode ops) in
          if datbuf ops \<noteq> None \<and> from + ops_len ops > mtd_size mtd then Some (- EINVAL, ops, nm)
          else if oobbuf ops = None then
            do {
              nm \<leftarrow> nmbm_get_device nm FL_READING;
              d \<leftarrow> datbuf ops;
              (ret, retlen, d, ni) \<leftarrow> nmbm_read_range (nm_ni nm) from (ops_len ops) d mode;
              let nm = nmbm_release_device (nm\<lparr>nm_ni := ni\<rparr>);
              Some (ret, ops\<lparr>datbuf := Some d, ops_retlen := (case retlen of None \<Rightarrow> ops_retlen ops | Some n \<Rightarrow> n)\<rparr>, nm)
            }
          else if ops_ooboffs ops \<ge> maxooblen then Some (- EINVAL, ops, nm)
          else if oob_beyond_end mtd maxooblen from ops then Some (- EINVAL, ops, nm)
          else do {
            nm \<leftarrow> nmbm_get_device nm FL_READING;
            (ret, ops, nm) \<leftarrow> nmbm_mtd_read_data core nm from ops mode;
            Some (ret, ops, nmbm_release_device nm)
          })"

text \<open>Data and spare bytes from the caller to the caches, the rest of the page filled with 0xff.\<close>

definition move_data_in ::
  "'m nmbm_mtd \<Rightarrow> mtd_oob_ops \<Rightarrow> u64 \<Rightarrow> u32 \<Rightarrow> ('m nmbm_mtd \<times> mtd_oob_ops \<times> u64 \<times> u32) option" where
  "move_data_in nm ops len col =
     (if len = 0 then Some (nm, ops, len, col)
      else do {
        let chklen = dat_chunk nm col len;
        pc \<leftarrow> mem_write (nm_page_cache nm) 0 (replicate (unat col) 0xff);
        d \<leftarrow> datbuf ops;
        c \<leftarrow> mem_read d (unat (ops_retlen ops)) (unat chklen);
        pc \<leftarrow> mem_write pc (unat col) c;
        pc \<leftarrow> mem_write pc (unat col + unat chklen)
               (replicate (unat (ucast (mtd_writesize (nm_lower nm) - col) - chklen)) 0xff);
        Some (nm\<lparr>nm_page_cache := pc\<rparr>, ops\<lparr>ops_retlen := ops_retlen ops + chklen\<rparr>, len - chklen, 0)
      })"

definition move_oob_in ::
  "'m nmbm_mtd \<Rightarrow> u64 \<Rightarrow> mtd_oob_ops \<Rightarrow> u64 \<Rightarrow> u32 \<Rightarrow> ('m nmbm_mtd \<times> mtd_oob_ops \<times> u64 \<times> u32) option" where
  "move_oob_in nm maxooblen ops ooblen ooboffs =
     (if ooblen = 0 then Some (nm, ops, ooblen, ooboffs)
      else do {
        let chklen = oob_chunk maxooblen ooboffs ooblen;
        let ws = unat (mtd_writesize (nm_lower nm));
        pc \<leftarrow> mem_write (nm_page_cache nm) ws (replicate (unat ooboffs) 0xff);
        d \<leftarrow> oobbuf ops;
        c \<leftarrow> mem_read d (unat (ops_oobretlen ops)) (unat chklen);
        pc \<leftarrow> mem_write pc (ws + unat ooboffs) c;
        pc \<leftarrow> mem_write pc (ws + unat ooboffs + unat chklen)
               (replicate (unat (ucast (mtd_oobsize (nm_lower nm) - ooboffs) - chklen)) 0xff);
        Some (nm\<lparr>nm_page_cache := pc\<rparr>, ops\<lparr>ops_oobretlen := ops_oobretlen ops + chklen\<rparr>, ooblen - chklen, 0)
      })"

text \<open>
  \<open>dat\<close> and \<open>oob\<close> are decided once, before the loop: a cache whose bytes have all been written is
  still passed on with the next page.
\<close>

partial_function (option) mtd_write_loop ::
  "crc_fn \<Rightarrow> 'm nmbm_mtd \<Rightarrow> u64 \<Rightarrow> nmbm_oob_mode \<Rightarrow> bool \<Rightarrow> bool \<Rightarrow> u64 \<Rightarrow> u32 \<Rightarrow> u32 \<Rightarrow> u64 \<Rightarrow> u64
     \<Rightarrow> mtd_oob_ops \<Rightarrow> (int \<times> mtd_oob_ops \<times> 'm nmbm_mtd) option" where
  "mtd_write_loop crc nm maxooblen mode dat oob addr col ooboffs len ooblen ops =
     (if len = 0 \<and> ooblen = 0 then Some (0, ops, nm)
      else do {
        (nm, ops, len, col) \<leftarrow> move_data_in nm ops len col;
        (nm, ops, ooblen, ooboffs) \<leftarrow> move_oob_in nm maxooblen ops ooblen ooboffs;
        d \<leftarrow> dat_cache nm dat;
        c \<leftarrow> oob_cache nm oob;
        (ret, ni) \<leftarrow> nmbm_write_single_page crc (nm_ni nm) addr d c mode;
        let nm = nm\<lparr>nm_ni := ni\<rparr>;
        if ret \<noteq> 0 then Some (ret, ops, nm)
        else mtd_write_loop crc nm maxooblen mode dat oob (addr + ucast (mtd_writesize (nm_lower nm)))
               col ooboffs len ooblen ops
      })"

definition nmbm_mtd_write_data ::
  "'m mtd_core \<Rightarrow> crc_fn \<Rightarrow> 'm nmbm_mtd \<Rightarrow> u64 \<Rightarrow> mtd_oob_ops \<Rightarrow> nmbm_oob_mode
     \<Rightarrow> (int \<times> mtd_oob_ops \<times> 'm nmbm_mtd) option" where
  "nmbm_mtd_write_data core crc nm addr ops mode =
     mtd_write_loop crc nm (ucast (mtd_oobavail core (nm_lower nm) (ops_mode ops))) mode
       (ops_len ops \<noteq> 0) (ops_ooblen ops \<noteq> 0) (page_addr nm addr) (page_col nm addr) (ops_ooboffs ops)
       (ops_len ops) (ops_ooblen ops) (ops\<lparr>ops_oobretlen := 0, ops_retlen := 0\<rparr>)"

definition nmbm_mtd_write_oob ::
  "'m mtd_core \<Rightarrow> crc_fn \<Rightarrow> 'm nmbm_mtd \<Rightarrow> u64 \<Rightarrow> mtd_oob_ops
     \<Rightarrow> (int \<times> mtd_oob_ops \<times> 'm nmbm_mtd) option" where
  "nmbm_mtd_write_oob core crc nm to ops =
     (let mtd = nm_upper nm in
      if oobbuf ops = None \<and> datbuf ops = None then
        Some (if ops_ooblen ops \<noteq> 0 \<or> ops_len ops \<noteq> 0 then - EINVAL else 0, ops, nm)
      else case nmbm_mode (ops_mode ops) of
        None \<Rightarrow> Some (- ENOTSUPP, ops, nm)
      | Some mode \<Rightarrow>
          let maxooblen = mtd_oobavail core mtd (ops_mode ops) in
          if datbuf ops \<noteq> None \<and> to + ops_len ops > mtd_size mtd then Some (- EINVAL, ops, nm)
          else if oobbuf ops = None then
            do {
              nm \<leftarrow> nmbm_get_device nm FL_WRITING;
              d \<leftarrow> datbuf ops;
              (ret, retlen, ni) \<leftarrow> nmbm_write_range crc (nm_ni nm) to (ops_len ops) d mode;
              let nm = nmbm_release_device (nm\<lparr>nm_ni := ni\<rparr>);
              Some (ret, ops\<lparr>ops_retlen := (case retlen of None \<Rightarrow> ops_retlen ops | Some n \<Rightarrow> n)\<rparr>, nm)
            }
          else if ops_ooboffs ops \<ge> maxooblen then Some (- EINVAL, ops, nm)
          else if oob_beyond_end mtd maxooblen to ops then Some (- EINVAL, ops, nm)
          else do {
            nm \<leftarrow> nmbm_get_device nm FL_WRITING;
            (ret, ops, nm) \<leftarrow> nmbm_mtd_write_data core crc nm to ops mode;
            Some (ret, ops, nmbm_release_device nm)
          })"

definition nmbm_mtd_block_isbad :: "'m nmbm_mtd \<Rightarrow> u64 \<Rightarrow> (int \<times> 'm nmbm_mtd) option" where
  "nmbm_mtd_block_isbad nm offs =
     do {
       nm \<leftarrow> nmbm_get_device nm FL_READING;
       ret \<leftarrow> nmbm_check_bad_block (nm_ni nm) offs;
       Some (ret, nmbm_release_device nm)
     }"

definition nmbm_mtd_block_markbad :: "crc_fn \<Rightarrow> 'm nmbm_mtd \<Rightarrow> u64 \<Rightarrow> (int \<times> 'm nmbm_mtd) option" where
  "nmbm_mtd_block_markbad crc nm offs =
     do {
       nm \<leftarrow> nmbm_get_device nm FL_WRITING;
       (ret, ni) \<leftarrow> nmbm_mark_bad_block crc (nm_ni nm) offs;
       Some (ret, nmbm_release_device (nm\<lparr>nm_ni := ni\<rparr>))
     }"

definition nmbm_mtd_shutdown :: "'m nmbm_mtd \<Rightarrow> 'm nmbm_mtd option" where
  "nmbm_mtd_shutdown nm = nmbm_get_device nm FL_PM_SUSPENDED"

section \<open>Probing and removing\<close>

text \<open>What the device tree gives: a lower device that is named and found, named and not found, not named.\<close>

datatype 'm lower_lookup = Not_named | Not_found | Found mtd_info 'm

record 'm nmbm_node =
  lower_mtd_device :: "'m lower_lookup"
  lower_mtd_name :: "'m lower_lookup"
  prop_max_ratio :: "u32 option"
  prop_max_reserved_blocks :: "u32 option"
  forced_create :: bool
  empty_page_ecc_protected :: bool

text \<open>\<open>Some (Inl err)\<close> is the early return; with no name at all C goes on with an unset pointer.\<close>

definition find_lower :: "'m nmbm_node \<Rightarrow> (int + mtd_info \<times> 'm) option" where
  "find_lower np =
     (case lower_mtd_device np of
        Found l m \<Rightarrow> Some (Inr (l, m))
      | Not_found \<Rightarrow> Some (Inl (- EPROBE_DEFER))
      | Not_named \<Rightarrow>
          (case lower_mtd_name np of
             Found l m \<Rightarrow> Some (Inr (l, m))
           | Not_found \<Rightarrow> Some (Inl (- EPROBE_DEFER))
           | Not_named \<Rightarrow> None))"

definition probe_lower_device ::
  "'m mtd_core \<Rightarrow> 'm nmbm_node \<Rightarrow> mtd_info \<Rightarrow> 'm nm_dev nmbm_lower_device" where
  "probe_lower_device core np l =
     \<lparr>max_ratio = (case prop_max_ratio np of None \<Rightarrow> NMBM_MAX_RATIO_DEFAULT | Some v \<Rightarrow> v),
      max_reserved_blocks = (case prop_max_reserved_blocks np of None \<Rightarrow> NMBM_MAX_BLOCKS_DEFAULT | Some v \<Rightarrow> v),
      flags = (if forced_create np then NMBM_F_CREATE else 0) OR
              (if empty_page_ecc_protected np then NMBM_F_EMPTY_PAGE_ECC_OK else 0),
      nld_size = mtd_size l, erasesize = mtd_erasesize l, writesize = mtd_writesize l,
      oobsize = mtd_oobsize l, oobavail = mtd_avail l, reset_chip = None,
      read_page = Some (nmbm_lower_read_page core l), write_page = Some (nmbm_lower_write_page core l),
      erase_block = Some (nmbm_lower_erase_block core l),
      is_bad_block = Some (nmbm_lower_is_bad_block core),
      mark_bad_block = Some (nmbm_lower_mark_bad_block core)\<rparr>"

text \<open>The memory \<open>devm_kzalloc\<close> returns is zeroed, and so is the instance in it.\<close>

definition zero_header :: nmbm_header where
  "zero_header = \<lparr>magic = 0, version = 0, hdr_size = 0, checksum = 0\<rparr>"

definition zero_instance :: "'d \<Rightarrow> 'd nmbm_instance" where
  "zero_instance d =
     \<lparr>lower = \<lparr>max_ratio = 0, max_reserved_blocks = 0, flags = 0, nld_size = 0, erasesize = 0, writesize = 0,
        oobsize = 0, oobavail = 0, reset_chip = None, read_page = None, write_page = None, erase_block = None,
        is_bad_block = None, mark_bad_block = None\<rparr>,
      dev = d, rawpage_size = 0, rawblock_size = 0, rawchip_size = 0, writesize_mask = 0, erasesize_mask = 0,
      writesize_shift = 0, erasesize_shift = 0,
      signature = \<lparr>sig_header = zero_header, nand_size = 0, block_size = 0, page_size = 0, spare_size = 0,
        mgmt_start_pb = 0, max_try_count = 0, sig_padding = replicate 7 0\<rparr>,
      info_table_cache = [], info_table_size = 0, info_table_spare_blocks = 0,
      info_table = \<lparr>ith_header = zero_header, write_count = 0, state_table_off = 0, mapping_table_off = 0,
        ith_padding = 0\<rparr>,
      block_state = [], block_state_changed = 0, state_table_size = 0, block_mapping = [],
      block_mapping_changed = 0, mapping_table_size = 0, page_cache = [], protected = False, block_count = 0,
      data_block_count = 0, mgmt_start_ba = 0, main_table_ba = 0, backup_table_ba = 0, mapping_blocks_ba = 0,
      mapping_blocks_top_ba = 0, signature_ba = 0, log_display_level = NMBM_LOG_DEBUG\<rparr>"

definition probe_upper :: "mtd_info \<Rightarrow> 'd nmbm_instance \<Rightarrow> mtd_info" where
  "probe_upper l ni =
     \<lparr>mtd_type = mtd_type l, mtd_flags = mtd_flags l,
      mtd_size = ucast (data_block_count ni) * ucast (mtd_erasesize l),
      mtd_erasesize = mtd_erasesize l, mtd_writesize = mtd_writesize l, mtd_writebufsize = mtd_writesize l,
      mtd_oobsize = mtd_oobsize l, mtd_avail = mtd_avail l,
      mtd_erasesize_shift = mtd_erasesize_shift l, mtd_writesize_shift = mtd_writesize_shift l,
      mtd_erasesize_mask = mtd_erasesize_mask l, mtd_writesize_mask = mtd_writesize_mask l,
      mtd_bitflip_threshold = mtd_bitflip_threshold l,
      mtd_ecc_step_size = mtd_ecc_step_size l, mtd_ecc_strength = mtd_ecc_strength l\<rparr>"

text \<open>
  What the driver keeps outside the devices: the list \<open>nmbm_devs\<close> of nodes, and how often it holds
  the lower device. \<open>list_add_tail\<close> is the kernel's, on an arbitrary type \<open>'l\<close> of lists.
\<close>

record 'l nmbm_globals =
  nmbm_devs :: 'l
  lower_refs :: nat

definition put_mtd_device :: "'l nmbm_globals \<Rightarrow> 'l nmbm_globals" where
  "put_mtd_device g = g\<lparr>lower_refs := lower_refs g - 1\<rparr>"

text \<open>
  \<open>alloc\<close> is whether the allocation succeeds, \<open>sig\<close> the stack buffer of \<open>nmbm_find_signature\<close>,
  \<open>register\<close> the kernel's \<open>mtd_device_register\<close>, which may use the new device. The instance is
  \<open>None\<close> after an error: its memory has been freed.
\<close>

definition nmbm_probe ::
  "'m mtd_core \<Rightarrow> crc_fn \<Rightarrow> (nat \<Rightarrow> 'l \<Rightarrow> 'l) \<Rightarrow> ('m nmbm_mtd \<Rightarrow> int \<times> 'm nmbm_mtd) \<Rightarrow> bool \<Rightarrow> bytes
     \<Rightarrow> 'm nmbm_node \<Rightarrow> nat \<Rightarrow> 'l nmbm_globals \<Rightarrow> (int \<times> 'm nmbm_mtd option \<times> 'l nmbm_globals) option" where
  "nmbm_probe core crc list_add_tail register alloc sig np node g =
     do {
       found \<leftarrow> find_lower np;
       case found of
         Inl err \<Rightarrow> Some (err, None, g)
       | Inr (l, m) \<Rightarrow>
           let g = g\<lparr>lower_refs := lower_refs g + 1\<rparr>;
               nld = probe_lower_device core np l;
               alloc_size = unat (nmbm_calc_structure_size nld)
           in if \<not> alloc then Some (- ENOMEM, None, put_mtd_device g)
              else do {
                (ret, ni) \<leftarrow> nmbm_attach crc nld (zero_instance \<lparr>nd_lower = m, nd_ecc = \<lparr>corrected = 0, failed = 0\<rparr>\<rparr>)
                               (replicate alloc_size 0) sig;
                if ret \<noteq> 0 then Some (ret, None, put_mtd_device g)
                else do {
                  let nm = \<lparr>nm_upper = probe_upper l ni, nm_lower = l, nm_ni = ni,
                            nm_page_cache = replicate (unat (mtd_writesize l) + unat (mtd_oobsize l)) 0,
                            nm_state = FL_READY\<rparr>;
                  let (ret, nm) = register nm;
                  if ret \<noteq> 0 then do {
                    _ \<leftarrow> nmbm_detach crc (nm_ni nm);
                    Some (ret, None, put_mtd_device g)
                  }
                  else Some (0, Some nm, g\<lparr>nmbm_devs := list_add_tail node (nmbm_devs g)\<rparr>)
                }
              }
     }"

text \<open>The node is added to the list a second time; nothing takes it off.\<close>

definition nmbm_remove ::
  "crc_fn \<Rightarrow> (nat \<Rightarrow> 'l \<Rightarrow> 'l) \<Rightarrow> ('m nmbm_mtd \<Rightarrow> int \<times> 'm nmbm_mtd) \<Rightarrow> 'm nmbm_mtd \<Rightarrow> nat
     \<Rightarrow> 'l nmbm_globals \<Rightarrow> (int \<times> 'm nmbm_mtd option \<times> 'l nmbm_globals) option" where
  "nmbm_remove crc list_add_tail unregister nm node g =
     do {
       let (ret, nm) = unregister nm;
       if ret \<noteq> 0 then Some (ret, Some nm, g)
       else do {
         _ \<leftarrow> nmbm_detach crc (nm_ni nm);
         Some (0, None, put_mtd_device (g\<lparr>nmbm_devs := list_add_tail node (nmbm_devs g)\<rparr>))
       }
     }"

text \<open>
  Loading the module: \<open>fresh\<close> is the list \<open>INIT_LIST_HEAD\<close> makes, \<open>registered\<close> what
  \<open>platform_driver_register\<close> returns.
\<close>

definition nmbm_init :: "'l \<Rightarrow> int \<Rightarrow> 'l nmbm_globals \<Rightarrow> int \<times> 'l nmbm_globals" where
  "nmbm_init fresh registered g =
     (let g = g\<lparr>nmbm_devs := fresh\<rparr> in if registered \<noteq> 0 then (registered, g) else (0, g))"

section \<open>Several callers\<close>

text \<open>
  The tasks that use the upper device, interleaved. A task is outside; about to enter the locked
  part of \<open>nmbm_get_device\<close> (\<open>Getting\<close>); asleep on the wait queue; or between
  \<open>nmbm_get_device\<close> and \<open>nmbm_release_device\<close> (\<open>Inside\<close>). The locked parts are atomic, since
  the spin lock is held: going to sleep includes joining the queue, and releasing includes
  \<open>wake_up\<close>, after which every sleeper retries. A task that entered with \<open>FL_PM_SUSPENDED\<close>
  (\<open>nmbm_mtd_shutdown\<close>) does not release.
\<close>

datatype task = Outside | Getting flstate | Asleep flstate | Inside flstate

record dev_users =
  dev_state :: flstate
  tasks :: "nat \<Rightarrow> task"

fun wake :: "task \<Rightarrow> task" where
  "wake (Asleep s) = Getting s"
| "wake t = t"

inductive dev_use :: "dev_users \<Rightarrow> dev_users \<Rightarrow> bool" where
  call: "tasks u t = Outside \<Longrightarrow> s \<noteq> FL_READY \<Longrightarrow> dev_use u (u\<lparr>tasks := (tasks u)(t := Getting s)\<rparr>)"
| got: "tasks u t = Getting s \<Longrightarrow> get_device_locked (dev_state u) s = Some st \<Longrightarrow>
    dev_use u (u\<lparr>dev_state := st, tasks := (tasks u)(t := Inside s)\<rparr>)"
| wait: "tasks u t = Getting s \<Longrightarrow> get_device_locked (dev_state u) s = None \<Longrightarrow>
    dev_use u (u\<lparr>tasks := (tasks u)(t := Asleep s)\<rparr>)"
| release: "tasks u t = Inside s \<Longrightarrow> s \<noteq> FL_PM_SUSPENDED \<Longrightarrow>
    dev_use u (u\<lparr>dev_state := FL_READY, tasks := wake \<circ> (tasks u)(t := Outside)\<rparr>)"

definition users_start :: dev_users where
  "users_start = \<lparr>dev_state = FL_READY, tasks = (\<lambda>_. Outside)\<rparr>"

inductive_cases dev_useE: "dev_use u u'"

text \<open>
  Who is inside agrees with the state of the device, nobody is inside beside a reader, writer or
  eraser, and while somebody sleeps somebody is inside: no wake-up is lost.
\<close>

definition users_inv :: "dev_users \<Rightarrow> bool" where
  "users_inv u \<longleftrightarrow>
     (\<forall>t s. tasks u t = Inside s \<longrightarrow> s \<noteq> FL_READY \<and> dev_state u = s) \<and>
     (\<forall>t t' s. tasks u t = Inside s \<longrightarrow> tasks u t' = Inside s \<longrightarrow> s = FL_PM_SUSPENDED \<or> t = t') \<and>
     (dev_state u \<noteq> FL_READY \<longrightarrow> (\<exists>t. tasks u t = Inside (dev_state u))) \<and>
     (\<forall>t. tasks u t \<noteq> Getting FL_READY \<and> tasks u t \<noteq> Asleep FL_READY) \<and>
     (\<forall>t s. tasks u t = Asleep s \<longrightarrow> dev_state u \<noteq> FL_READY)"

lemma users_inv_start: "users_inv users_start"
  by (simp add: users_inv_def users_start_def)

lemma wake_eq [simp]:
  "wake t = Inside s \<longleftrightarrow> t = Inside s" "wake t \<noteq> Asleep s"
  "wake t = Getting s \<longleftrightarrow> t = Getting s \<or> t = Asleep s"
  by (cases t; simp)+

lemma users_invI:
  assumes "\<And>t s. tasks u t = Inside s \<Longrightarrow> s \<noteq> FL_READY \<and> dev_state u = s"
    and "\<And>t t' s. tasks u t = Inside s \<Longrightarrow> tasks u t' = Inside s \<Longrightarrow> s \<noteq> FL_PM_SUSPENDED \<Longrightarrow> t = t'"
    and "dev_state u \<noteq> FL_READY \<Longrightarrow> \<exists>t. tasks u t = Inside (dev_state u)"
    and "\<And>t. tasks u t \<noteq> Getting FL_READY \<and> tasks u t \<noteq> Asleep FL_READY"
    and "\<And>t s. tasks u t = Asleep s \<Longrightarrow> dev_state u \<noteq> FL_READY"
  shows "users_inv u"
  using assms unfolding users_inv_def by blast

lemma users_invD:
  assumes "users_inv u"
  shows "tasks u t = Inside s \<Longrightarrow> s \<noteq> FL_READY \<and> dev_state u = s"
    and "tasks u t = Inside s \<Longrightarrow> tasks u t' = Inside s \<Longrightarrow> s \<noteq> FL_PM_SUSPENDED \<Longrightarrow> t = t'"
    and "dev_state u \<noteq> FL_READY \<Longrightarrow> \<exists>t. tasks u t = Inside (dev_state u)"
    and "tasks u t \<noteq> Getting FL_READY \<and> tasks u t \<noteq> Asleep FL_READY"
    and "tasks u t = Asleep s \<Longrightarrow> dev_state u \<noteq> FL_READY"
  using assms unfolding users_inv_def by blast+

lemma users_inv_step: "dev_use u u' \<Longrightarrow> users_inv u \<Longrightarrow> users_inv u'"
proof (induction rule: dev_use.induct)
  case (call u t s)
  note d = users_invD [OF call(3)]
  have "((tasks u)(t := Getting s)) x = Inside z \<longleftrightarrow> tasks u x = Inside z"
      "((tasks u)(t := Getting s)) x = Asleep z \<longleftrightarrow> tasks u x = Asleep z"
      "((tasks u)(t := Getting s)) x \<noteq> Getting FL_READY" for x z
    using call(1,2) d(4) [of x] by auto
  then show ?case by (intro users_invI) (use d in \<open>simp_all del: fun_upd_apply\<close>)
next
  case (got u t s st)
  note d = users_invD [OF got(3)]
  have st: "st = s" "s \<noteq> FL_READY" "dev_state u = FL_READY \<or> dev_state u = s \<and> s = FL_PM_SUSPENDED"
    using got(1,2) d(4) [of t] by (auto simp: get_device_locked_def split: if_splits)
  have "((tasks u)(t := Inside s)) x = Inside z \<Longrightarrow> z = s"
      "((tasks u)(t := Inside s)) x = Inside z \<Longrightarrow> s \<noteq> FL_PM_SUSPENDED \<Longrightarrow> x = t"
      "((tasks u)(t := Inside s)) x \<noteq> Getting FL_READY \<and> ((tasks u)(t := Inside s)) x \<noteq> Asleep FL_READY" for x z
    using d(1) [of x z] d(4) [of x] st(2,3) by (auto split: if_splits)
  moreover have "((tasks u)(t := Inside s)) t = Inside s" by simp
  ultimately show ?case using st(1,2) by (intro users_invI) (simp_all del: fun_upd_apply, blast+)
next
  case (wait u t s)
  note d = users_invD [OF wait(3)]
  have "s \<noteq> FL_READY" "dev_state u \<noteq> FL_READY"
    using wait(1,2) d(4) [of t] by (auto simp: get_device_locked_def split: if_splits)
  moreover from this have "((tasks u)(t := Asleep s)) x = Inside z \<longleftrightarrow> tasks u x = Inside z"
      "((tasks u)(t := Asleep s)) x \<noteq> Getting FL_READY \<and> ((tasks u)(t := Asleep s)) x \<noteq> Asleep FL_READY" for x z
    using wait(1) d(4) [of x] by auto
  ultimately show ?case by (intro users_invI) (use d in \<open>simp_all del: fun_upd_apply\<close>)
next
  case (release u t s)
  note d = users_invD [OF release(3)]
  have "tasks u x \<noteq> Inside z" if "x \<noteq> t" for x z
    using d(1) [OF release(1)] d(1) [of x z] d(2) [OF release(1), of x] release(2) that by auto
  then have "(wake \<circ> (tasks u)(t := Outside)) x \<noteq> Inside z" "(wake \<circ> (tasks u)(t := Outside)) x \<noteq> Asleep z"
      "(wake \<circ> (tasks u)(t := Outside)) x \<noteq> Getting FL_READY" for x z
    using d(4) [of x] by auto
  then show ?case by (intro users_invI) (simp_all del: fun_upd_apply o_apply)
qed

lemma users_inv_reachable: "dev_use\<^sup>*\<^sup>* users_start u \<Longrightarrow> users_inv u"
  by (induction rule: rtranclp_induct) (auto intro: users_inv_start users_inv_step)

lemma suspended_step:
  "dev_use u u' \<Longrightarrow> users_inv u \<Longrightarrow> dev_state u = FL_PM_SUSPENDED \<Longrightarrow> dev_state u' = FL_PM_SUSPENDED"
proof (induction rule: dev_use.induct)
  case (release u t s)
  then show ?case using users_invD(1) [OF release(3) release(1)] by simp
qed (simp_all add: get_device_locked_def split: if_splits)

lemma suspended_forever:
  "dev_use\<^sup>*\<^sup>* u u' \<Longrightarrow> users_inv u \<Longrightarrow> dev_state u = FL_PM_SUSPENDED \<Longrightarrow>
   users_inv u' \<and> dev_state u' = FL_PM_SUSPENDED"
  by (induction rule: rtranclp_induct) (auto intro: users_inv_step dest: suspended_step)

section \<open>What the core requires of the lower device\<close>

text \<open>
  Of the kernel: reading fills the buffers of the request without changing their size, the spare
  bytes a mode can use are part of the spare area, and two devices with the same spare area have
  the same number of them.
\<close>

definition mtd_core_ok :: "'m mtd_core \<Rightarrow> bool" where
  "mtd_core_ok core \<longleftrightarrow>
     (\<forall>m addr ops. case mtd_read_oob core m addr ops of
        (ret, d, c, m') \<Rightarrow> fills (datbuf ops) d \<and> fills (oobbuf ops) c) \<and>
     (\<forall>l mode. mtd_oobavail core l mode \<le> mtd_oobsize l) \<and>
     (\<forall>l l' mode. mtd_oobsize l = mtd_oobsize l' \<longrightarrow> mtd_avail l = mtd_avail l' \<longrightarrow>
        mtd_oobavail core l mode = mtd_oobavail core l' mode)"

text \<open>A predicate on the lower device that survives everything but changes outside of \<open>A\<close>.\<close>

definition core_frame :: "'m mtd_core \<Rightarrow> ('m \<Rightarrow> bool) \<Rightarrow> (u64 \<Rightarrow> bool) \<Rightarrow> bool" where
  "core_frame core Q A \<longleftrightarrow>
     (\<forall>m a ops. Q m \<longrightarrow> Q (snd (snd (snd (mtd_read_oob core m a ops))))) \<and>
     (\<forall>m a. Q m \<longrightarrow> Q (snd (mtd_block_isbad core m a))) \<and>
     (\<forall>m a ops. A a \<longrightarrow> Q m \<longrightarrow> Q (snd (mtd_write_oob core m a ops))) \<and>
     (\<forall>m a n. A a \<longrightarrow> Q m \<longrightarrow> Q (snd (mtd_erase core m a n))) \<and>
     (\<forall>m a. A a \<longrightarrow> Q m \<longrightarrow> Q (snd (mtd_block_markbad core m a)))"

lemma read_page_fills:
  assumes "mtd_core_ok core"
  shows "case nmbm_lower_read_page core l d addr buf oob mode of
    (ret, buf', oob', d') \<Rightarrow> fills buf buf' \<and> fills oob oob'"
proof -
  let ?ops = "lower_ops core l buf oob mode"
  obtain r b c m where e: "mtd_read_oob core (nd_lower d) addr ?ops = (r, b, c, m)"
    by (cases "mtd_read_oob core (nd_lower d) addr ?ops") auto
  have "\<And>m addr ops. case mtd_read_oob core m addr ops of
      (ret, d, c, m') \<Rightarrow> fills (datbuf ops) d \<and> fills (oobbuf ops) c"
    using assms by (simp add: mtd_core_ok_def)
  from this [where m = "nd_lower d" and addr = addr and ops = ?ops] show ?thesis
    unfolding e nmbm_lower_read_page_def by (simp add: lower_ops_def)
qed

lemma probe_lower_ok: "mtd_core_ok core \<Longrightarrow> lower_ok (probe_lower_device core np l)"
  using read_page_fills [of core, where l = l] by (auto simp: lower_ok_def probe_lower_device_def)

lemma nd_lower_callbacks:
  "nd_lower (snd (snd (snd (nmbm_lower_read_page core l d a b c mode)))) =
     snd (snd (snd (mtd_read_oob core (nd_lower d) a (lower_ops core l b c mode))))"
  "nd_lower (snd (nmbm_lower_write_page core l d a b c mode)) =
     snd (mtd_write_oob core (nd_lower d) a (lower_ops core l b c mode))"
  "nd_lower (snd (nmbm_lower_erase_block core l d a)) = snd (mtd_erase core (nd_lower d) a (ucast (mtd_erasesize l)))"
  "nd_lower (snd (nmbm_lower_is_bad_block core d a)) = snd (mtd_block_isbad core (nd_lower d) a)"
  "nd_lower (snd (nmbm_lower_mark_bad_block core d a)) = snd (mtd_block_markbad core (nd_lower d) a)"
  by (simp_all add: nmbm_lower_read_page_def nmbm_lower_write_page_def nmbm_lower_erase_block_def
      nmbm_lower_is_bad_block_def nmbm_lower_mark_bad_block_def Let_def split_def)

lemma probe_dev_frame:
  assumes "core_frame core Q A"
  shows "dev_frame (probe_lower_device core np l) (\<lambda>d. Q (nd_lower d)) A"
  using assms by (simp add: dev_frame_def core_frame_def probe_lower_device_def nd_lower_callbacks)

lemma sint_unat:
  assumes "unat (v :: u32) < 2 ^ 31"
  shows "sint v = int (unat v)"
proof -
  have u: "uint v = int (unat v)" by simp
  have "sint v = signed_take_bit 31 (uint v)" by (simp add: sint_uint)
  also have "\<dots> = uint v"
  proof (rule signed_take_bit_int_eq_self)
    have "(0 :: int) \<le> 2 ^ 31" by simp
    then show "- (2 ^ 31) \<le> uint v" unfolding u by linarith
    have "int (unat v) < int (2 ^ 31)" using assms by (simp only: of_nat_less_iff)
    then show "uint v < 2 ^ 31" unfolding u by simp
  qed
  finally show ?thesis unfolding u .
qed

lemma euclean_at_least:
  assumes "unat (mtd_bitflip_threshold l) \<le> unat (mtd_ecc_strength l)" and "unat (mtd_ecc_strength l) < 2 ^ 31"
  shows "sint (mtd_bitflip_threshold l) \<le> euclean_bitflips l"
proof -
  have "unat (mtd_bitflip_threshold l + 1) = unat (mtd_bitflip_threshold l) + 1"
    using assms by (simp add: unat_word_ariths)
  then show ?thesis
    using assms by (simp add: euclean_bitflips_def min_def word_le_nat_alt sint_unat del: of_nat_unat)
qed

end
