(* ===== verification/Nmbm_Requests.thy ===== *)
theory Nmbm_Requests
  imports Nmbm_Mtd
begin

text \<open>
  The contracts of the handlers of \<open>nmbm-mtd.c\<close>: called on a device that is in order and ready,
  each of them returns, leaves the device in order and ready, and reports what it has moved. From
  this, the same for every sequence of requests.
\<close>

section \<open>The handlers\<close>

text \<open>
  \<open>nm_ok\<close>: the instance is usable with every block, the layer above and below agree on the
  geometry, and the page cache has the size of a raw page.
\<close>

definition nm_ok :: "'m mtd_core \<Rightarrow> ('m nm_dev \<Rightarrow> bool) \<Rightarrow> (u64 \<Rightarrow> bool) \<Rightarrow> 'm nmbm_mtd \<Rightarrow> bool" where
  "nm_ok core Q A nm \<longleftrightarrow>
     api_ctx Q A UNIV (nm_ni nm) \<and> mtd_core_ok core \<and>
     mtd_writesize (nm_lower nm) = writesize (lower (nm_ni nm)) \<and>
     mtd_oobsize (nm_lower nm) = oobsize (lower (nm_ni nm)) \<and>
     mtd_writesize_mask (nm_lower nm) = mtd_writesize (nm_lower nm) - 1 \<and>
     mtd_oobsize (nm_upper nm) = mtd_oobsize (nm_lower nm) \<and> mtd_avail (nm_upper nm) = mtd_avail (nm_lower nm) \<and>
     length (nm_page_cache nm) = unat (mtd_writesize (nm_lower nm)) + unat (mtd_oobsize (nm_lower nm))"

text \<open>What a handler may change: the instance (not its lower device) and the contents of the page cache.\<close>

definition nm_step :: "('m nm_dev \<Rightarrow> bool) \<Rightarrow> 'm nmbm_mtd \<Rightarrow> 'm nmbm_mtd \<Rightarrow> bool" where
  "nm_step Q nm nm' \<longleftrightarrow>
     nm_upper nm' = nm_upper nm \<and> nm_lower nm' = nm_lower nm \<and> nm_state nm' = nm_state nm \<and>
     lower (nm_ni nm') = lower (nm_ni nm) \<and> (Q (dev (nm_ni nm)) \<longrightarrow> Q (dev (nm_ni nm')))"

lemma nm_step_refl [simp]: "nm_step Q nm nm"
  by (simp add: nm_step_def)

lemma nm_step_trans: "nm_step Q a b \<Longrightarrow> nm_step Q b c \<Longrightarrow> nm_step Q a c"
  by (simp add: nm_step_def)

lemma nm_ok_update:
  assumes "nm_ok core Q A nm" and "api_ok Q A UNIV (nm_ni nm) ni" and "length pc = length (nm_page_cache nm)"
  shows "nm_ok core Q A (nm\<lparr>nm_ni := ni, nm_page_cache := pc\<rparr>)" and "nm_step Q nm (nm\<lparr>nm_ni := ni, nm_page_cache := pc\<rparr>)"
  using assms api_step_fields(1) [OF api_okD(9) [OF assms(2)]] api_okD(1,9) [OF assms(2)]
  by (simp_all add: nm_ok_def nm_step_def api_step_def)

lemma nm_ok_api: "nm_ok core Q A nm \<Longrightarrow> api_ok Q A UNIV (nm_ni nm) (nm_ni nm)"
  by (simp add: nm_ok_def api_ok_refl)

lemma nm_writesize_pos: "nm_ok core Q A nm \<Longrightarrow> 0 < unat (mtd_writesize (nm_lower nm))"
  by (auto simp: nm_ok_def api_ctx_def geom_wf_def)

lemma nm_oobavail:
  assumes "nm_ok core Q A nm"
  shows "unat (mtd_oobavail core (nm_lower nm) mode) \<le> unat (mtd_oobsize (nm_lower nm))"
    and "mtd_oobavail core (nm_upper nm) mode = mtd_oobavail core (nm_lower nm) mode"
proof -
  have c: "mtd_core_ok core" using assms by (simp add: nm_ok_def)
  then show "unat (mtd_oobavail core (nm_lower nm) mode) \<le> unat (mtd_oobsize (nm_lower nm))"
    unfolding mtd_core_ok_def word_le_nat_alt by blast
  from assms have "mtd_oobsize (nm_upper nm) = mtd_oobsize (nm_lower nm)" "mtd_avail (nm_upper nm) = mtd_avail (nm_lower nm)"
    by (simp_all add: nm_ok_def)
  with c show "mtd_oobavail core (nm_upper nm) mode = mtd_oobavail core (nm_lower nm) mode"
    unfolding mtd_core_ok_def by blast
qed

lemma mapped_in_UNIV [simp]: "mapped_in UNIV ni lo hi"
  by (simp add: mapped_in_def)

lemma read_single_page_ok:
  assumes "api_ok Q A S ni0 ni"
  shows "returns (nmbm_read_single_page ni addr data oob mode) (\<lambda>(ret, data', oob', ni').
    dev_step Q ni ni' \<and> fills data data' \<and> fills oob oob')"
proof (cases "protected ni \<or> addr \<ge> ba2addr ni (data_block_count ni)")
  case True
  then show ?thesis by (auto simp: nmbm_read_single_page_def fills_def)
next
  case False
  then have "unat (addr2ba ni addr) < length (block_mapping ni)" using data_block_mapped(2) [OF assms] by (simp add: not_le)
  with False read_logic_page_post [OF assms this] show ?thesis by (simp add: nmbm_read_single_page_def)
qed

lemma caches_ok:
  assumes "nm_ok core Q A nm"
  obtains d c where "dat_cache nm dat = Some d" and "oob_cache nm oob = Some c"
    and "d = (if dat then Some (take (unat (mtd_writesize (nm_lower nm))) (nm_page_cache nm)) else None)"
    and "c = (if oob then Some (drop (unat (mtd_writesize (nm_lower nm))) (nm_page_cache nm)) else None)"
proof -
  have "length (nm_page_cache nm) = unat (mtd_writesize (nm_lower nm)) + unat (mtd_oobsize (nm_lower nm))"
    using assms by (simp add: nm_ok_def)
  then show ?thesis by (intro that) (auto simp: dat_cache_def oob_cache_def mem_read_def)
qed

lemma store_cache_length:
  "store_cache pc off b = Some pc' \<Longrightarrow> length pc' = length pc"
  by (auto simp: store_cache_def dest: length_mem_write split: option.splits)

lemma read_page_caches_ok:
  assumes ok: "nm_ok core Q A nm"
  shows "returns (read_page_caches nm addr dat oob mode) (\<lambda>(ret, nm'). nm_ok core Q A nm' \<and> nm_step Q nm nm')"
proof -
  let ?w = "unat (mtd_writesize (nm_lower nm))"
  from ok have len: "length (nm_page_cache nm) = ?w + unat (mtd_oobsize (nm_lower nm))" by (simp add: nm_ok_def)
  from caches_ok [OF ok, of dat oob] obtain d c where dc: "dat_cache nm dat = Some d" "oob_cache nm oob = Some c"
    and d: "d = (if dat then Some (take ?w (nm_page_cache nm)) else None)"
    and c: "c = (if oob then Some (drop ?w (nm_page_cache nm)) else None)" .
  from read_single_page_ok [OF nm_ok_api [OF ok], of addr d c mode] obtain ret d' c' ni
    where r: "nmbm_read_single_page (nm_ni nm) addr d c mode = Some (ret, d', c', ni)"
      and st: "dev_step Q (nm_ni nm) ni" and f: "fills d d'" "fills c c'"
    by (auto simp: returns_iff)
  have l: "case d' of None \<Rightarrow> True | Some b \<Rightarrow> length b = ?w" "case c' of None \<Rightarrow> True | Some b \<Rightarrow> ?w + length b = length (nm_page_cache nm)"
    using f len by (auto simp: d c fills_def split: option.splits if_splits)
  obtain pc1 where s1: "store_cache (nm_page_cache nm) 0 d' = Some pc1"
    using l len by (cases d') (auto simp: store_cache_def mem_write_def)
  obtain pc2 where s2: "store_cache pc1 ?w c' = Some pc2"
    using l len store_cache_length [OF s1] by (cases c') (auto simp: store_cache_def mem_write_def)
  have "api_ok Q A UNIV (nm_ni nm) ni" by (rule api_ok_dev_step [OF nm_ok_api [OF ok] st])
  from nm_ok_update [OF ok this, of pc2] store_cache_length [OF s1] store_cache_length [OF s2]
  show ?thesis by (simp add: read_page_caches_def dc r s1 s2)
qed

text \<open>The part of a buffer that is still to be filled or written lies in it.\<close>

definition fits :: "bytes option \<Rightarrow> u64 \<Rightarrow> u64 \<Rightarrow> bool" where
  "fits buf pos n \<longleftrightarrow>
     n = 0 \<or> unat pos + unat n < 2 ^ 64 \<and> (\<exists>d. buf = Some d \<and> unat pos + unat n \<le> length d)"

lemma fits_advance:
  assumes "fits buf pos n" and "c \<le> n" and "fills buf buf'"
  shows "fits buf' (pos + c) (n - c)"
proof (cases "n = 0")
  case True
  with assms(2) have "c = 0" by simp
  with True show ?thesis by (simp add: fits_def)
next
  case False
  have "unat (n - c) = unat n - unat c" "unat c \<le> unat n" using assms(2) by (simp_all add: unat_sub word_le_nat_alt)
  moreover have "unat (pos + c) = unat pos + unat c" if "unat pos + unat n < 2 ^ 64"
    using that \<open>unat c \<le> unat n\<close> by (simp add: unat_word_ariths)
  ultimately show ?thesis
    using assms(1,3) False by (auto simp: fits_def fills_def)
qed

lemma dat_chunk_bounds:
  assumes "unat col < unat (mtd_writesize (nm_lower nm))" and "len \<noteq> 0"
  shows "0 < unat (dat_chunk nm col len)" and "dat_chunk nm col len \<le> len"
    and "unat col + unat (dat_chunk nm col len) \<le> unat (mtd_writesize (nm_lower nm))"
    and "unat (ucast (mtd_writesize (nm_lower nm) - col) - dat_chunk nm col len) =
           unat (mtd_writesize (nm_lower nm)) - unat col - unat (dat_chunk nm col len)"
proof -
  let ?ws = "mtd_writesize (nm_lower nm)"
  have u: "unat (?ws - col) = unat ?ws - unat col" using assms(1) by (simp add: unat_sub word_le_nat_alt)
  have c: "unat (dat_chunk nm col len) = min (unat ?ws - unat col) (unat len)"
    by (auto simp: dat_chunk_def Let_def word_less_nat_alt min_def u)
  have "0 < unat len" using assms(2) by (simp add: unat_gt_0)
  with c assms(1) show "0 < unat (dat_chunk nm col len)" and "dat_chunk nm col len \<le> len"
    and le: "unat col + unat (dat_chunk nm col len) \<le> unat ?ws"
    by (auto simp: word_le_nat_alt)
  have "dat_chunk nm col len \<le> ucast (?ws - col)" using c by (simp add: word_le_nat_alt u)
  then show "unat (ucast (?ws - col) - dat_chunk nm col len) = unat ?ws - unat col - unat (dat_chunk nm col len)"
    by (simp add: unat_sub u)
qed

lemma oob_chunk_bounds:
  assumes "unat offs < unat maxooblen" and "ooblen \<noteq> 0"
  shows "0 < unat (oob_chunk maxooblen offs ooblen)" and "oob_chunk maxooblen offs ooblen \<le> ooblen"
    and "unat offs + unat (oob_chunk maxooblen offs ooblen) \<le> unat maxooblen"
proof -
  have u: "unat (maxooblen - ucast offs) = unat maxooblen - unat offs" using assms(1) by (simp add: unat_sub word_le_nat_alt)
  have c: "unat (oob_chunk maxooblen offs ooblen) = min (unat maxooblen - unat offs) (unat ooblen)"
    by (auto simp: oob_chunk_def Let_def word_less_nat_alt min_def u)
  have "0 < unat ooblen" using assms(2) by (simp add: unat_gt_0)
  with c assms(1) show "0 < unat (oob_chunk maxooblen offs ooblen)" and "oob_chunk maxooblen offs ooblen \<le> ooblen"
    and "unat offs + unat (oob_chunk maxooblen offs ooblen) \<le> unat maxooblen"
    by (auto simp: word_le_nat_alt)
qed

text \<open>What is left of a request: the bytes that are still to be moved fit into the buffers.\<close>

definition todo_ok :: "'m nmbm_mtd \<Rightarrow> u64 \<Rightarrow> mtd_oob_ops \<Rightarrow> u64 \<Rightarrow> u32 \<Rightarrow> u64 \<Rightarrow> u32 \<Rightarrow> bool" where
  "todo_ok nm maxooblen ops len col ooblen offs \<longleftrightarrow>
     unat col < unat (mtd_writesize (nm_lower nm)) \<and> unat offs < unat maxooblen \<and>
     unat maxooblen \<le> unat (mtd_oobsize (nm_lower nm)) \<and>
     fits (datbuf ops) (ops_retlen ops) len \<and> fits (oobbuf ops) (ops_oobretlen ops) ooblen"

text \<open>Only buffers and return lengths of a request change, and what is moved is counted.\<close>

definition ops_step :: "mtd_oob_ops \<Rightarrow> u64 \<Rightarrow> u64 \<Rightarrow> mtd_oob_ops \<Rightarrow> u64 \<Rightarrow> u64 \<Rightarrow> bool" where
  "ops_step ops len ooblen ops' len' ooblen' \<longleftrightarrow>
     ops_mode ops' = ops_mode ops \<and> ops_len ops' = ops_len ops \<and> ops_ooblen ops' = ops_ooblen ops \<and>
     ops_ooboffs ops' = ops_ooboffs ops \<and> fills (datbuf ops) (datbuf ops') \<and> fills (oobbuf ops) (oobbuf ops') \<and>
     ops_retlen ops' + len' = ops_retlen ops + len \<and> ops_oobretlen ops' + ooblen' = ops_oobretlen ops + ooblen"

lemma ops_step_refl [simp]: "ops_step ops len ooblen ops len ooblen"
  by (simp add: ops_step_def fills_def)

lemma ops_step_trans:
  "ops_step a l m b l' m' \<Longrightarrow> ops_step b l' m' c l'' m'' \<Longrightarrow> ops_step a l m c l'' m''"
  by (simp add: ops_step_def fills_def)

lemma move_data_out_ok:
  assumes ok: "nm_ok core Q A nm" and todo: "todo_ok nm mx ops len col ooblen offs"
  shows "returns (move_data_out nm ops len col) (\<lambda>(ops', len', col').
    todo_ok nm mx ops' len' col' ooblen offs \<and> ops_step ops len ooblen ops' len' ooblen \<and>
    (len \<noteq> 0 \<longrightarrow> unat len' < unat len) \<and> (len = 0 \<longrightarrow> len' = 0))"
proof (cases "len = 0")
  case True
  with todo show ?thesis by (simp add: move_data_out_def)
next
  case False
  let ?c = "dat_chunk nm col len"
  have col: "unat col < unat (mtd_writesize (nm_lower nm))" using todo by (simp add: todo_ok_def)
  note b = dat_chunk_bounds [OF col False]
  from todo False obtain d where d: "datbuf ops = Some d" "unat (ops_retlen ops) + unat len \<le> length d"
    and f: "fits (Some d) (ops_retlen ops) len"
    by (auto simp: todo_ok_def fits_def)
  have len: "length (nm_page_cache nm) = unat (mtd_writesize (nm_lower nm)) + unat (mtd_oobsize (nm_lower nm))"
    using ok by (simp add: nm_ok_def)
  obtain d' where w: "mem_write d (unat (ops_retlen ops)) (take (unat ?c) (drop (unat col) (nm_page_cache nm))) = Some d'"
    using b(2,3) d(2) len by (auto simp: mem_write_def word_le_nat_alt)
  then have fl: "fills (Some d) (Some d')" by (simp add: fills_def length_mem_write)
  have "mem_read (nm_page_cache nm) (unat col) (unat ?c) = Some (take (unat ?c) (drop (unat col) (nm_page_cache nm)))"
    using b(3) len by (simp add: mem_read_def)
  then have e: "move_data_out nm ops len col =
      Some (ops\<lparr>datbuf := Some d', ops_retlen := ops_retlen ops + ?c\<rparr>, len - ?c, 0)"
    using False d w by (simp add: move_data_out_def Let_def)
  have "unat (len - ?c) < unat len" using b(1,2) by (simp add: unat_sub word_le_nat_alt)
  moreover have "fits (Some d') (ops_retlen ops + ?c) (len - ?c)" by (rule fits_advance [OF f b(2) fl])
  moreover have "ops_step ops len ooblen (ops\<lparr>datbuf := Some d', ops_retlen := ops_retlen ops + ?c\<rparr>) (len - ?c) ooblen"
    using fl d by (simp add: ops_step_def fills_def)
  ultimately show ?thesis using False todo col by (simp add: e todo_ok_def)
qed

lemma move_oob_out_ok:
  assumes ok: "nm_ok core Q A nm" and todo: "todo_ok nm mx ops len col ooblen offs"
  shows "returns (move_oob_out nm mx ops ooblen offs) (\<lambda>(ops', ooblen', offs').
    todo_ok nm mx ops' len col ooblen' offs' \<and> ops_step ops len ooblen ops' len ooblen' \<and>
    (ooblen \<noteq> 0 \<longrightarrow> unat ooblen' < unat ooblen) \<and> (ooblen = 0 \<longrightarrow> ooblen' = 0))"
proof (cases "ooblen = 0")
  case True
  with todo show ?thesis by (simp add: move_oob_out_def)
next
  case False
  let ?c = "oob_chunk mx offs ooblen" and ?w = "unat (mtd_writesize (nm_lower nm))"
  have o: "unat offs < unat mx" "unat mx \<le> unat (mtd_oobsize (nm_lower nm))" using todo by (simp_all add: todo_ok_def)
  note b = oob_chunk_bounds [OF o(1) False]
  from todo False obtain d where d: "oobbuf ops = Some d" "unat (ops_oobretlen ops) + unat ooblen \<le> length d"
    and f: "fits (Some d) (ops_oobretlen ops) ooblen"
    by (auto simp: todo_ok_def fits_def)
  have len: "length (nm_page_cache nm) = ?w + unat (mtd_oobsize (nm_lower nm))"
    using ok by (simp add: nm_ok_def)
  obtain d' where w: "mem_write d (unat (ops_oobretlen ops)) (take (unat ?c) (drop (?w + unat offs) (nm_page_cache nm))) = Some d'"
    using b(2,3) d(2) len o(2) by (auto simp: mem_write_def word_le_nat_alt)
  then have fl: "fills (Some d) (Some d')" by (simp add: fills_def length_mem_write)
  have "mem_read (nm_page_cache nm) (?w + unat offs) (unat ?c) = Some (take (unat ?c) (drop (?w + unat offs) (nm_page_cache nm)))"
    using b(3) o(2) len by (simp add: mem_read_def)
  then have e: "move_oob_out nm mx ops ooblen offs =
      Some (ops\<lparr>oobbuf := Some d', ops_oobretlen := ops_oobretlen ops + ?c\<rparr>, ooblen - ?c, 0)"
    using False d w by (simp add: move_oob_out_def Let_def)
  have "unat (ooblen - ?c) < unat ooblen" using b(1,2) by (simp add: unat_sub word_le_nat_alt)
  moreover have "fits (Some d') (ops_oobretlen ops + ?c) (ooblen - ?c)" by (rule fits_advance [OF f b(2) fl])
  moreover have "ops_step ops len ooblen (ops\<lparr>oobbuf := Some d', ops_oobretlen := ops_oobretlen ops + ?c\<rparr>) len (ooblen - ?c)"
    using fl d by (simp add: ops_step_def fills_def)
  ultimately show ?thesis using False todo o by (simp add: e todo_ok_def)
qed

lemma todo_ok_nm: "nm_step Q nm nm' \<Longrightarrow> todo_ok nm' mx ops len col ooblen offs = todo_ok nm mx ops len col ooblen offs"
  by (simp add: todo_ok_def nm_step_def)

lemma read_move_ok:
  assumes ok: "nm_ok core Q A nm" and todo: "todo_ok nm mx ops len col ooblen offs"
    and ne: "\<not> (len = 0 \<and> ooblen = 0)"
  obtains ops1 len1 col1 ops2 ooblen2 offs2 where "move_data_out nm ops len col = Some (ops1, len1, col1)"
    and "move_oob_out nm mx ops1 ooblen offs = Some (ops2, ooblen2, offs2)"
    and "todo_ok nm mx ops2 len1 col1 ooblen2 offs2" and "ops_step ops len ooblen ops2 len1 ooblen2"
    and "unat len1 + unat ooblen2 < unat len + unat ooblen"
proof -
  from move_data_out_ok [OF ok todo] obtain ops1 len1 col1 where m1: "move_data_out nm ops len col = Some (ops1, len1, col1)"
    and t1: "todo_ok nm mx ops1 len1 col1 ooblen offs" and s1: "ops_step ops len ooblen ops1 len1 ooblen"
    and l1: "len \<noteq> 0 \<longrightarrow> unat len1 < unat len" "len = 0 \<longrightarrow> len1 = 0"
    by (auto simp: returns_iff)
  from move_oob_out_ok [OF ok t1] obtain ops2 ooblen2 offs2 where m2: "move_oob_out nm mx ops1 ooblen offs = Some (ops2, ooblen2, offs2)"
    and t2: "todo_ok nm mx ops2 len1 col1 ooblen2 offs2" and s2: "ops_step ops1 len1 ooblen ops2 len1 ooblen2"
    and l2: "ooblen \<noteq> 0 \<longrightarrow> unat ooblen2 < unat ooblen" "ooblen = 0 \<longrightarrow> ooblen2 = 0"
    by (auto simp: returns_iff)
  have "unat len1 + unat ooblen2 < unat len + unat ooblen"
    using l1 l2 ne by (cases "len = 0"; cases "ooblen = 0") auto
  with m1 m2 t2 ops_step_trans [OF s1 s2] show ?thesis by (rule that)
qed

definition read_done ::
  "'m mtd_core \<Rightarrow> ('m nm_dev \<Rightarrow> bool) \<Rightarrow> (u64 \<Rightarrow> bool) \<Rightarrow> 'm nmbm_mtd \<Rightarrow> mtd_oob_ops \<Rightarrow> u64 \<Rightarrow> u64
     \<Rightarrow> int \<times> mtd_oob_ops \<times> 'm nmbm_mtd \<Rightarrow> bool" where
  "read_done core Q A nm ops len ooblen = (\<lambda>(ret, ops', nm').
     nm_ok core Q A nm' \<and> nm_step Q nm nm' \<and>
     (\<exists>l o'. ops_step ops len ooblen ops' l o' \<and> (ret < 0 \<and> ret \<noteq> - EBADMSG \<or> l = 0 \<and> o' = 0)))"

lemma mtd_read_loop_ok:
  "nm_ok core Q A nm \<Longrightarrow> todo_ok nm mx ops len col ooblen offs \<Longrightarrow>
   returns (mtd_read_loop nm mx mode dat oob addr col offs len ooblen ops ecc bf)
     (read_done core Q A nm ops len ooblen)"
proof (induction "unat len + unat ooblen" arbitrary: nm addr col offs len ooblen ops ecc bf rule: less_induct)
  case less
  show ?case
  proof (cases "len = 0 \<and> ooblen = 0")
    case True
    then have "read_done core Q A nm ops len ooblen (r, ops, nm)" for r
      using less.prems by (auto simp: read_done_def intro!: exI [of _ 0])
    with True show ?thesis by (subst mtd_read_loop.simps) simp
  next
    case False
    from read_page_caches_ok [OF less.prems(1), of addr dat oob mode] obtain ret nm1
      where r: "read_page_caches nm addr dat oob mode = Some (ret, nm1)"
        and ok1: "nm_ok core Q A nm1" and st1: "nm_step Q nm nm1"
      by (auto simp: returns_iff)
    show ?thesis
    proof (cases "ret < 0 \<and> ret \<noteq> - EBADMSG")
      case True
      have "ops_step ops len ooblen ops len ooblen" by simp
      then have "read_done core Q A nm ops len ooblen (ret, ops, nm1)" using True ok1 st1 unfolding read_done_def by blast
      with True False r show ?thesis by (subst mtd_read_loop.simps) auto
    next
      case ok: False
      have "todo_ok nm1 mx ops len col ooblen offs" using less.prems(2) todo_ok_nm [OF st1] by simp
      from read_move_ok [OF ok1 this False] obtain ops1 len1 col1 ops2 ooblen2 offs2
        where m: "move_data_out nm1 ops len col = Some (ops1, len1, col1)"
          "move_oob_out nm1 mx ops1 ooblen offs = Some (ops2, ooblen2, offs2)"
          and t: "todo_ok nm1 mx ops2 len1 col1 ooblen2 offs2" and os: "ops_step ops len ooblen ops2 len1 ooblen2"
          and lt: "unat len1 + unat ooblen2 < unat len + unat ooblen" .
      note ih = less.hyps [OF lt ok1 t]
      have "read_done core Q A nm ops len ooblen x" if "read_done core Q A nm1 ops2 len1 ooblen2 x" for x
        using that nm_step_trans [OF st1] ops_step_trans [OF os] unfolding read_done_def by (cases x) blast
      from returns_mono [OF ih this] show ?thesis
        using False ok r m by (subst mtd_read_loop.simps) (auto simp: Let_def)
    qed
  qed
qed

text \<open>
  What the kernel has checked and set before it calls a handler: the buffers are large enough, there
  are no data without a buffer, the return lengths are zero, the range does not wrap.
\<close>

definition req_ok :: "u64 \<Rightarrow> mtd_oob_ops \<Rightarrow> bool" where
  "req_ok addr ops \<longleftrightarrow>
     unat addr + unat (ops_len ops) < 2 ^ 64 \<and> ops_retlen ops = 0 \<and> ops_oobretlen ops = 0 \<and>
     (case datbuf ops of None \<Rightarrow> ops_len ops = 0 | Some d \<Rightarrow> unat (ops_len ops) \<le> length d) \<and>
     (case oobbuf ops of None \<Rightarrow> True | Some c \<Rightarrow> unat (ops_ooblen ops) \<le> length c)"

definition served :: "mtd_oob_ops \<Rightarrow> mtd_oob_ops \<Rightarrow> bool" where
  "served ops ops' \<longleftrightarrow> ops_retlen ops' = ops_len ops \<and> (oobbuf ops \<noteq> None \<longrightarrow> ops_oobretlen ops' = ops_ooblen ops)"

lemma page_col_less:
  assumes "nm_ok core Q A nm"
  shows "unat (page_col nm addr) < unat (mtd_writesize (nm_lower nm))"
proof -
  let ?m = "mtd_writesize (nm_lower nm) - 1"
  have p: "0 < unat (mtd_writesize (nm_lower nm))" by (rule nm_writesize_pos [OF assms])
  then have m: "unat ?m = unat (mtd_writesize (nm_lower nm)) - 1" by (simp add: unat_minus_one unat_gt_0)
  have "addr AND ucast ?m \<le> ucast ?m" by (rule word_and_le1)
  then have "unat (addr AND ucast ?m) \<le> unat ?m" by (simp add: word_le_nat_alt)
  moreover have "mtd_writesize_mask (nm_lower nm) = ?m" using assms by (simp add: nm_ok_def)
  ultimately show ?thesis
    using p m mod_less_eq_dividend [of "unat (addr AND ucast ?m)" "2 ^ 32"]
    by (simp add: page_col_def unat_ucast_mod)
qed

lemma fits_start: "(\<exists>d. buf = Some d \<and> unat n \<le> length d) \<or> n = 0 \<Longrightarrow> fits buf 0 n"
  using unat_u64_less [of n] by (auto simp: fits_def)

lemma todo_start:
  assumes ok: "nm_ok core Q A nm" and req: "req_ok addr ops" and oob: "oobbuf ops \<noteq> None"
    and offs: "ops_ooboffs ops < mtd_oobavail core (nm_upper nm) (ops_mode ops)"
  shows "todo_ok nm (ucast (mtd_oobavail core (nm_lower nm) (ops_mode ops))) ops (ops_len ops) (page_col nm addr)
           (ops_ooblen ops) (ops_ooboffs ops)"
proof -
  have "fits (datbuf ops) 0 (ops_len ops)"
    using req by (intro fits_start) (auto simp: req_ok_def split: option.splits)
  moreover have "fits (oobbuf ops) 0 (ops_ooblen ops)"
    using req oob by (intro fits_start) (auto simp: req_ok_def)
  ultimately show ?thesis
    using req offs page_col_less [OF ok] nm_oobavail [OF ok]
    by (simp add: todo_ok_def req_ok_def word_less_nat_alt)
qed

lemma get_device_ready: "nm_state nm = FL_READY \<Longrightarrow> nmbm_get_device nm st = Some (nm\<lparr>nm_state := st\<rparr>)"
  by (simp add: nmbm_get_device_def get_device_locked_def)

lemma nm_ok_state [simp]: "nm_ok core Q A (nm\<lparr>nm_state := st\<rparr>) = nm_ok core Q A nm"
  by (simp add: nm_ok_def)

lemma nm_step_released:
  "nm_step Q (nm\<lparr>nm_state := st\<rparr>) nm' \<Longrightarrow> nm_state nm = FL_READY \<Longrightarrow> nm_step Q nm (nmbm_release_device nm')"
  by (simp add: nm_step_def nmbm_release_device_def)

lemma nm_ok_released [simp]: "nm_ok core Q A (nmbm_release_device nm) = nm_ok core Q A nm"
  by (simp add: nmbm_release_device_def)

text \<open>A handler that hands the instance over to an operation of the core and stores it back.\<close>

lemma nm_ok_instance:
  assumes "nm_ok core Q A nm" and "api_ok Q A UNIV (nm_ni nm) ni" and "nm_state nm = FL_READY"
  shows "nm_ok core Q A (nmbm_release_device (nm\<lparr>nm_state := st, nm_ni := ni\<rparr>))"
    and "nm_step Q nm (nmbm_release_device (nm\<lparr>nm_state := st, nm_ni := ni\<rparr>))"
  using nm_ok_update [OF assms(1,2), of "nm_page_cache nm"] assms(3)
  by (simp_all add: nm_ok_def nm_step_def nmbm_release_device_def)

definition handler_post ::
  "'m mtd_core \<Rightarrow> ('m nm_dev \<Rightarrow> bool) \<Rightarrow> (u64 \<Rightarrow> bool) \<Rightarrow> 'm nmbm_mtd \<Rightarrow> mtd_oob_ops \<Rightarrow> (int \<Rightarrow> bool)
     \<Rightarrow> int \<times> mtd_oob_ops \<times> 'm nmbm_mtd \<Rightarrow> bool" where
  "handler_post core Q A nm ops good = (\<lambda>(ret, ops', nm').
     nm_ok core Q A nm' \<and> nm_step Q nm nm' \<and> fills (datbuf ops) (datbuf ops') \<and> fills (oobbuf ops) (oobbuf ops') \<and>
     (good ret \<longrightarrow> served ops ops'))"

lemma mtd_read_oob_data:
  assumes ok: "nm_ok core Q A nm" and st: "nm_state nm = FL_READY" and req: "req_ok from ops"
    and d: "datbuf ops = Some d" and none: "oobbuf ops = None"
  obtains ret retlen d' ni where "nmbm_read_range (nm_ni nm) from (ops_len ops) d mode = Some (ret, retlen, d', ni)"
    and "handler_post core Q A nm ops (\<lambda>r. 0 \<le> r \<or> r = - EBADMSG)
      (ret, ops\<lparr>datbuf := Some d', ops_retlen := (case retlen of None \<Rightarrow> ops_retlen ops | Some n \<Rightarrow> n)\<rparr>,
       nmbm_release_device (nm\<lparr>nm_state := FL_READING, nm_ni := ni\<rparr>))"
proof -
  have "unat from + unat (ops_len ops) < 2 ^ 64" "unat (ops_len ops) \<le> length d" and z: "ops_retlen ops = 0"
    using req d by (simp_all add: req_ok_def)
  from read_range_post [OF nm_ok_api [OF ok] this(1,2), of mode] obtain ret retlen d' ni
    where r: "nmbm_read_range (nm_ni nm) from (ops_len ops) d mode = Some (ret, retlen, d', ni)"
      and ds: "dev_step Q (nm_ni nm) ni" and l: "length d' = length d"
      and p: "case retlen of
         None \<Rightarrow> ni = nm_ni nm \<and> d' = d \<and> (ret = - EROFS \<or> ret = - EINVAL \<or> ret = 0 \<and> ops_len ops = 0)
       | Some n \<Rightarrow> n \<le> ops_len ops \<and> (n = ops_len ops \<longleftrightarrow> 0 \<le> ret \<or> ret = - EBADMSG)"
    by (auto simp: returns_iff)
  have s: "(case retlen of None \<Rightarrow> ops_retlen ops | Some n \<Rightarrow> n) = ops_len ops" if "0 \<le> ret \<or> ret = - EBADMSG"
    using p that z by (cases retlen) (auto simp: EROFS_def EINVAL_def EBADMSG_def)
  from r show ?thesis
    by (rule that)
      (use nm_ok_instance [OF ok api_ok_dev_step [OF nm_ok_api [OF ok] ds] st, of FL_READING] s l d none in
        \<open>simp add: handler_post_def served_def fills_def\<close>)
qed

lemma mtd_read_oob_both:
  assumes ok: "nm_ok core Q A nm" and st: "nm_state nm = FL_READY" and req: "req_ok from ops" and oob: "oobbuf ops \<noteq> None"
    and offs: "ops_ooboffs ops < mtd_oobavail core (nm_upper nm) (ops_mode ops)"
  obtains ret ops' nm' where "nmbm_mtd_read_data core (nm\<lparr>nm_state := FL_READING\<rparr>) from ops mode = Some (ret, ops', nm')"
    and "handler_post core Q A nm ops (\<lambda>r. 0 \<le> r \<or> r = - EBADMSG) (ret, ops', nmbm_release_device nm')"
proof -
  let ?nm = "nm\<lparr>nm_state := FL_READING\<rparr>"
  have z: "ops\<lparr>ops_oobretlen := 0, ops_retlen := 0\<rparr> = ops" using req by (simp add: req_ok_def)
  have ok': "nm_ok core Q A ?nm" using ok by simp
  have "todo_ok ?nm (ucast (mtd_oobavail core (nm_lower nm) (ops_mode ops))) ops (ops_len ops) (page_col ?nm from)
      (ops_ooblen ops) (ops_ooboffs ops)"
    using todo_start [OF ok' req oob] offs by simp
  from mtd_read_loop_ok [OF ok' this, of mode "ops_len ops \<noteq> 0" "ops_ooblen ops \<noteq> 0" "page_addr ?nm from" False 0]
  obtain ret ops' nm' where r: "nmbm_mtd_read_data core ?nm from ops mode = Some (ret, ops', nm')"
    and p: "read_done core Q A ?nm ops (ops_len ops) (ops_ooblen ops) (ret, ops', nm')"
    by (auto simp: returns_iff nmbm_mtd_read_data_def z)
  have "handler_post core Q A nm ops (\<lambda>r. 0 \<le> r \<or> r = - EBADMSG) (ret, ops', nmbm_release_device nm')"
    using p nm_step_released [OF _ st] req
    by (auto simp: read_done_def handler_post_def ops_step_def served_def req_ok_def)
  with r show ?thesis by (rule that)
qed

lemma handler_post_unchanged:
  "nm_ok core Q A nm \<Longrightarrow> (good ret \<Longrightarrow> served ops ops) \<Longrightarrow> handler_post core Q A nm ops good (ret, ops, nm)"
  by (simp add: handler_post_def fills_def)

lemma nmbm_mtd_read_oob_ok:
  assumes ok: "nm_ok core Q A nm" and st: "nm_state nm = FL_READY" and req: "req_ok from ops"
  shows "returns (nmbm_mtd_read_oob core nm from ops) (handler_post core Q A nm ops (\<lambda>r. 0 \<le> r \<or> r = - EBADMSG))"
proof -
  let ?good = "\<lambda>r :: int. 0 \<le> r \<or> r = - EBADMSG"
  have bad: "handler_post core Q A nm ops ?good (- EINVAL, ops, nm)" "handler_post core Q A nm ops ?good (- ENOTSUPP, ops, nm)"
    using ok by (auto intro!: handler_post_unchanged simp: EINVAL_def ENOTSUPP_def EBADMSG_def)
  show ?thesis
  proof (cases "nmbm_mode (ops_mode ops)")
    case None
    then show ?thesis using bad req ok
      by (auto simp: nmbm_mtd_read_oob_def Let_def served_def req_ok_def intro!: handler_post_unchanged)
  next
    case (Some mode)
    show ?thesis
    proof (cases "oobbuf ops")
      case none: None
      show ?thesis
      proof (cases "datbuf ops")
        case None
        then show ?thesis using none bad req ok
          by (auto simp: nmbm_mtd_read_oob_def Let_def served_def req_ok_def intro!: handler_post_unchanged)
      next
        case d: (Some d)
        from mtd_read_oob_data [OF ok st req d none, of mode] obtain ret retlen d' ni
          where r: "nmbm_read_range (nm_ni nm) from (ops_len ops) d mode = Some (ret, retlen, d', ni)"
            and "handler_post core Q A nm ops ?good (ret, ops\<lparr>datbuf := Some d',
              ops_retlen := (case retlen of None \<Rightarrow> ops_retlen ops | Some n \<Rightarrow> n)\<rparr>,
              nmbm_release_device (nm\<lparr>nm_state := FL_READING, nm_ni := ni\<rparr>))" .
        then show ?thesis using none d Some bad(1) r st
          by (simp add: nmbm_mtd_read_oob_def Let_def get_device_ready)
      qed
    next
      case oob: (Some c)
      show ?thesis
      proof (cases "ops_ooboffs ops < mtd_oobavail core (nm_upper nm) (ops_mode ops)")
        case False
        then show ?thesis using oob Some bad by (simp add: nmbm_mtd_read_oob_def Let_def not_less)
      next
        case True
        from mtd_read_oob_both [OF ok st req _ True, of mode] oob obtain ret ops' nm'
          where "nmbm_mtd_read_data core (nm\<lparr>nm_state := FL_READING\<rparr>) from ops mode = Some (ret, ops', nm')"
            and "handler_post core Q A nm ops ?good (ret, ops', nmbm_release_device nm')"
          by auto
        then show ?thesis using oob Some bad True st
          by (simp add: nmbm_mtd_read_oob_def Let_def get_device_ready not_le)
      qed
    qed
  qed
qed

lemma write_single_page_ok:
  assumes "api_ok Q A UNIV ni0 ni"
  shows "returns (nmbm_write_single_page crc ni addr data oob mode) (\<lambda>(ret, ni'). api_ok Q A UNIV ni0 ni')"
proof (cases "protected ni \<or> read_only ni \<or> addr \<ge> ba2addr ni (data_block_count ni)")
  case True
  with assms show ?thesis by (auto simp: nmbm_write_single_page_def)
next
  case False
  then have "unat (addr2ba ni addr) < length (block_mapping ni)"
    using data_block_mapped(2) [OF assms] by (simp add: not_le)
  from write_logic_page_post [OF assms this, of crc data oob mode] False show ?thesis
    by (auto simp: nmbm_write_single_page_def elim!: returns_mono)
qed

lemma mem_write_ok:
  assumes "off + length d \<le> length b"
  obtains b' where "mem_write b off d = Some b'" and "length b' = length b"
proof -
  have "mem_write b off d = Some (take off b @ d @ drop (off + length d) b)" using assms by (simp add: mem_write_def)
  from this length_mem_write [OF this] show ?thesis by (rule that)
qed

lemma nm_ok_cache:
  assumes "nm_ok core Q A nm" and "length pc = length (nm_page_cache nm)"
  shows "nm_ok core Q A (nm\<lparr>nm_page_cache := pc\<rparr>)" and "nm_step Q nm (nm\<lparr>nm_page_cache := pc\<rparr>)"
  using assms by (simp_all add: nm_ok_def nm_step_def)

lemma move_data_in_ok:
  assumes ok: "nm_ok core Q A nm" and todo: "todo_ok nm mx ops len col ooblen offs"
  shows "returns (move_data_in nm ops len col) (\<lambda>(nm', ops', len', col').
    nm_ok core Q A nm' \<and> nm_step Q nm nm' \<and> nm_ni nm' = nm_ni nm \<and>
    todo_ok nm' mx ops' len' col' ooblen offs \<and> ops_step ops len ooblen ops' len' ooblen \<and>
    (len \<noteq> 0 \<longrightarrow> unat len' < unat len) \<and> (len = 0 \<longrightarrow> len' = 0))"
proof (cases "len = 0")
  case True
  with todo ok show ?thesis by (simp add: move_data_in_def)
next
  case False
  let ?c = "dat_chunk nm col len" and ?w = "mtd_writesize (nm_lower nm)"
  have col: "unat col < unat ?w" using todo by (simp add: todo_ok_def)
  note b = dat_chunk_bounds [OF col False]
  from todo False obtain d where d: "datbuf ops = Some d" "unat (ops_retlen ops) + unat len \<le> length d"
    and f: "fits (Some d) (ops_retlen ops) len"
    by (auto simp: todo_ok_def fits_def)
  have len: "length (nm_page_cache nm) = unat ?w + unat (mtd_oobsize (nm_lower nm))"
    using ok by (simp add: nm_ok_def)
  obtain pc1 where p1: "mem_write (nm_page_cache nm) 0 (replicate (unat col) 0xff) = Some pc1" "length pc1 = length (nm_page_cache nm)"
    by (rule mem_write_ok [of 0 "replicate (unat col) 0xff" "nm_page_cache nm"]) (use col len in auto)
  obtain c where c: "mem_read d (unat (ops_retlen ops)) (unat ?c) = Some c" "length c = unat ?c"
    using d(2) b(2) by (auto simp: mem_read_def word_le_nat_alt)
  obtain pc2 where p2: "mem_write pc1 (unat col) c = Some pc2" "length pc2 = length (nm_page_cache nm)"
    by (rule mem_write_ok [of "unat col" c pc1]) (use b(3) len p1 c in auto)
  obtain pc3 where p3: "mem_write pc2 (unat col + unat ?c) (replicate (unat (ucast (?w - col) - ?c)) 0xff) = Some pc3"
      "length pc3 = length (nm_page_cache nm)"
    by (rule mem_write_ok [of "unat col + unat ?c" "replicate (unat (ucast (?w - col) - ?c)) 0xff" pc2])
      (use b(3,4) len p2 in auto)
  have e: "move_data_in nm ops len col =
      Some (nm\<lparr>nm_page_cache := pc3\<rparr>, ops\<lparr>ops_retlen := ops_retlen ops + ?c\<rparr>, len - ?c, 0)"
    using False d p1 c p2 p3 by (simp add: move_data_in_def Let_def)
  have "unat (len - ?c) < unat len" using b(1,2) by (simp add: unat_sub word_le_nat_alt)
  moreover have "fits (Some d) (ops_retlen ops + ?c) (len - ?c)"
    by (rule fits_advance [OF f b(2)]) (simp add: fills_def)
  moreover have "ops_step ops len ooblen (ops\<lparr>ops_retlen := ops_retlen ops + ?c\<rparr>) (len - ?c) ooblen"
    by (simp add: ops_step_def fills_def)
  ultimately show ?thesis
    using False todo col d nm_ok_cache [OF ok p3(2)] by (simp add: e todo_ok_def)
qed

lemma move_oob_in_ok:
  assumes ok: "nm_ok core Q A nm" and todo: "todo_ok nm mx ops len col ooblen offs"
  shows "returns (move_oob_in nm mx ops ooblen offs) (\<lambda>(nm', ops', ooblen', offs').
    nm_ok core Q A nm' \<and> nm_step Q nm nm' \<and> nm_ni nm' = nm_ni nm \<and>
    todo_ok nm' mx ops' len col ooblen' offs' \<and> ops_step ops len ooblen ops' len ooblen' \<and>
    (ooblen \<noteq> 0 \<longrightarrow> unat ooblen' < unat ooblen) \<and> (ooblen = 0 \<longrightarrow> ooblen' = 0))"
proof (cases "ooblen = 0")
  case True
  with todo ok show ?thesis by (simp add: move_oob_in_def)
next
  case False
  let ?c = "oob_chunk mx offs ooblen" and ?w = "unat (mtd_writesize (nm_lower nm))" and ?o = "mtd_oobsize (nm_lower nm)"
  have o: "unat offs < unat mx" "unat mx \<le> unat ?o" using todo by (simp_all add: todo_ok_def)
  note b = oob_chunk_bounds [OF o(1) False]
  from todo False obtain d where d: "oobbuf ops = Some d" "unat (ops_oobretlen ops) + unat ooblen \<le> length d"
    and f: "fits (Some d) (ops_oobretlen ops) ooblen"
    by (auto simp: todo_ok_def fits_def)
  have len: "length (nm_page_cache nm) = ?w + unat ?o" using ok by (simp add: nm_ok_def)
  have u: "unat (?o - offs) = unat ?o - unat offs" using o by (simp add: unat_sub word_le_nat_alt)
  have "?c \<le> ucast (?o - offs)" using b(3) o(2) by (simp add: word_le_nat_alt u)
  then have rest: "unat (ucast (?o - offs) - ?c) = unat ?o - unat offs - unat ?c" by (simp add: unat_sub u)
  obtain pc1 where p1: "mem_write (nm_page_cache nm) ?w (replicate (unat offs) 0xff) = Some pc1" "length pc1 = length (nm_page_cache nm)"
    by (rule mem_write_ok [of ?w "replicate (unat offs) 0xff" "nm_page_cache nm"]) (use o len in auto)
  obtain c where c: "mem_read d (unat (ops_oobretlen ops)) (unat ?c) = Some c" "length c = unat ?c"
    using d(2) b(2) by (auto simp: mem_read_def word_le_nat_alt)
  obtain pc2 where p2: "mem_write pc1 (?w + unat offs) c = Some pc2" "length pc2 = length (nm_page_cache nm)"
    by (rule mem_write_ok [of "?w + unat offs" c pc1]) (use b(3) o len p1 c in auto)
  obtain pc3 where p3: "mem_write pc2 (?w + unat offs + unat ?c) (replicate (unat (ucast (?o - offs) - ?c)) 0xff) = Some pc3"
      "length pc3 = length (nm_page_cache nm)"
    by (rule mem_write_ok [of "?w + unat offs + unat ?c" "replicate (unat (ucast (?o - offs) - ?c)) 0xff" pc2])
      (use b(3) o rest len p2 in auto)
  have e: "move_oob_in nm mx ops ooblen offs =
      Some (nm\<lparr>nm_page_cache := pc3\<rparr>, ops\<lparr>ops_oobretlen := ops_oobretlen ops + ?c\<rparr>, ooblen - ?c, 0)"
    using False d p1 c p2 p3 by (simp add: move_oob_in_def Let_def)
  have "unat (ooblen - ?c) < unat ooblen" using b(1,2) by (simp add: unat_sub word_le_nat_alt)
  moreover have "fits (Some d) (ops_oobretlen ops + ?c) (ooblen - ?c)"
    by (rule fits_advance [OF f b(2)]) (simp add: fills_def)
  moreover have "ops_step ops len ooblen (ops\<lparr>ops_oobretlen := ops_oobretlen ops + ?c\<rparr>) len (ooblen - ?c)"
    by (simp add: ops_step_def fills_def)
  ultimately show ?thesis
    using False todo o d nm_ok_cache [OF ok p3(2)] by (simp add: e todo_ok_def)
qed

definition write_done ::
  "'m mtd_core \<Rightarrow> ('m nm_dev \<Rightarrow> bool) \<Rightarrow> (u64 \<Rightarrow> bool) \<Rightarrow> 'm nmbm_mtd \<Rightarrow> mtd_oob_ops \<Rightarrow> u64 \<Rightarrow> u64
     \<Rightarrow> int \<times> mtd_oob_ops \<times> 'm nmbm_mtd \<Rightarrow> bool" where
  "write_done core Q A nm ops len ooblen = (\<lambda>(ret, ops', nm').
     nm_ok core Q A nm' \<and> nm_step Q nm nm' \<and>
     (\<exists>l o'. ops_step ops len ooblen ops' l o' \<and> (ret \<noteq> 0 \<or> l = 0 \<and> o' = 0)))"

text \<open>One round of the loop: the caches are filled, the page is written.\<close>

lemma write_move_ok:
  assumes ok: "nm_ok core Q A nm" and todo: "todo_ok nm mx ops len col ooblen offs"
    and ne: "\<not> (len = 0 \<and> ooblen = 0)"
  obtains nm1 ops1 len1 col1 nm2 ops2 ooblen2 offs2 where "move_data_in nm ops len col = Some (nm1, ops1, len1, col1)"
    and "move_oob_in nm1 mx ops1 ooblen offs = Some (nm2, ops2, ooblen2, offs2)"
    and "nm_ok core Q A nm2" and "nm_step Q nm nm2"
    and "todo_ok nm2 mx ops2 len1 col1 ooblen2 offs2" and "ops_step ops len ooblen ops2 len1 ooblen2"
    and "unat len1 + unat ooblen2 < unat len + unat ooblen"
proof -
  from move_data_in_ok [OF ok todo] obtain nm1 ops1 len1 col1 where m1: "move_data_in nm ops len col = Some (nm1, ops1, len1, col1)"
    and o1: "nm_ok core Q A nm1" and n1: "nm_step Q nm nm1"
    and t1: "todo_ok nm1 mx ops1 len1 col1 ooblen offs" and s1: "ops_step ops len ooblen ops1 len1 ooblen"
    and l1: "len \<noteq> 0 \<longrightarrow> unat len1 < unat len" "len = 0 \<longrightarrow> len1 = 0"
    by (auto simp: returns_iff)
  from move_oob_in_ok [OF o1 t1] obtain nm2 ops2 ooblen2 offs2
    where m2: "move_oob_in nm1 mx ops1 ooblen offs = Some (nm2, ops2, ooblen2, offs2)"
    and o2: "nm_ok core Q A nm2" and n2: "nm_step Q nm1 nm2"
    and t2: "todo_ok nm2 mx ops2 len1 col1 ooblen2 offs2" and s2: "ops_step ops1 len1 ooblen ops2 len1 ooblen2"
    and l2: "ooblen \<noteq> 0 \<longrightarrow> unat ooblen2 < unat ooblen" "ooblen = 0 \<longrightarrow> ooblen2 = 0"
    by (auto simp: returns_iff)
  have "unat len1 + unat ooblen2 < unat len + unat ooblen"
    using l1 l2 ne by (cases "len = 0"; cases "ooblen = 0") auto
  with m1 m2 o2 nm_step_trans [OF n1 n2] t2 ops_step_trans [OF s1 s2] show ?thesis by (rule that)
qed

lemma write_caches_ok:
  assumes ok: "nm_ok core Q A nm"
  obtains d c ret ni where "dat_cache nm dat = Some d" and "oob_cache nm oob = Some c"
    and "nmbm_write_single_page crc (nm_ni nm) addr d c mode = Some (ret, ni)"
    and "nm_ok core Q A (nm\<lparr>nm_ni := ni\<rparr>)" and "nm_step Q nm (nm\<lparr>nm_ni := ni\<rparr>)"
proof -
  from caches_ok [OF ok, of dat oob] obtain d c where dc: "dat_cache nm dat = Some d" "oob_cache nm oob = Some c" .
  from write_single_page_ok [OF nm_ok_api [OF ok], of crc addr d c mode] obtain ret ni
    where w: "nmbm_write_single_page crc (nm_ni nm) addr d c mode = Some (ret, ni)" and a: "api_ok Q A UNIV (nm_ni nm) ni"
    by (auto simp: returns_iff)
  from dc w show ?thesis
    by (rule that) (use nm_ok_update [OF ok a, of "nm_page_cache nm"] in simp_all)
qed

lemma mtd_write_loop_ok:
  "nm_ok core Q A nm \<Longrightarrow> todo_ok nm mx ops len col ooblen offs \<Longrightarrow>
   returns (mtd_write_loop crc nm mx mode dat oob addr col offs len ooblen ops)
     (write_done core Q A nm ops len ooblen)"
proof (induction "unat len + unat ooblen" arbitrary: nm addr col offs len ooblen ops rule: less_induct)
  case less
  show ?case
  proof (cases "len = 0 \<and> ooblen = 0")
    case True
    then have "write_done core Q A nm ops len ooblen (0, ops, nm)"
      using less.prems by (auto simp: write_done_def intro!: exI [of _ 0])
    with True show ?thesis by (subst mtd_write_loop.simps) simp
  next
    case False
    from write_move_ok [OF less.prems False] obtain nm1 ops1 len1 col1 nm2 ops2 ooblen2 offs2
      where m: "move_data_in nm ops len col = Some (nm1, ops1, len1, col1)"
        "move_oob_in nm1 mx ops1 ooblen offs = Some (nm2, ops2, ooblen2, offs2)"
        and o2: "nm_ok core Q A nm2" and n2: "nm_step Q nm nm2"
        and t: "todo_ok nm2 mx ops2 len1 col1 ooblen2 offs2" and os: "ops_step ops len ooblen ops2 len1 ooblen2"
        and lt: "unat len1 + unat ooblen2 < unat len + unat ooblen" .
    from write_caches_ok [OF o2, of dat oob crc addr mode] obtain d c ret ni
      where w: "dat_cache nm2 dat = Some d" "oob_cache nm2 oob = Some c"
        "nmbm_write_single_page crc (nm_ni nm2) addr d c mode = Some (ret, ni)"
        and o3: "nm_ok core Q A (nm2\<lparr>nm_ni := ni\<rparr>)" and n3: "nm_step Q nm2 (nm2\<lparr>nm_ni := ni\<rparr>)" .
    note n = nm_step_trans [OF n2 n3]
    show ?thesis
    proof (cases "ret = 0")
      case ret: False
      then have "write_done core Q A nm ops len ooblen (ret, ops2, nm2\<lparr>nm_ni := ni\<rparr>)"
        using o3 n os unfolding write_done_def by blast
      with False ret m w show ?thesis by (subst mtd_write_loop.simps) (auto simp: Let_def)
    next
      case True
      have "todo_ok (nm2\<lparr>nm_ni := ni\<rparr>) mx ops2 len1 col1 ooblen2 offs2" using t by (simp add: todo_ok_def)
      note ih = less.hyps [OF lt o3 this]
      have "write_done core Q A nm ops len ooblen x" if "write_done core Q A (nm2\<lparr>nm_ni := ni\<rparr>) ops2 len1 ooblen2 x" for x
        using that nm_step_trans [OF n] ops_step_trans [OF os] unfolding write_done_def by (cases x) blast
      from returns_mono [OF ih this] show ?thesis
        using False True m w by (subst mtd_write_loop.simps) (auto simp: Let_def)
    qed
  qed
qed

lemma mtd_write_oob_data:
  assumes ok: "nm_ok core Q A nm" and st: "nm_state nm = FL_READY" and req: "req_ok to ops"
    and d: "datbuf ops = Some d" and none: "oobbuf ops = None"
  obtains ret retlen ni where "nmbm_write_range crc (nm_ni nm) to (ops_len ops) d mode = Some (ret, retlen, ni)"
    and "handler_post core Q A nm ops (\<lambda>r. r = 0)
      (ret, ops\<lparr>ops_retlen := (case retlen of None \<Rightarrow> ops_retlen ops | Some n \<Rightarrow> n)\<rparr>,
       nmbm_release_device (nm\<lparr>nm_state := FL_WRITING, nm_ni := ni\<rparr>))"
proof -
  have "unat to + unat (ops_len ops) < 2 ^ 64" "unat (ops_len ops) \<le> length d" and z: "ops_retlen ops = 0"
    using req d by (simp_all add: req_ok_def)
  from write_range_post [OF nm_ok_api [OF ok] this(1,2), of crc mode] obtain ret retlen ni
    where r: "nmbm_write_range crc (nm_ni nm) to (ops_len ops) d mode = Some (ret, retlen, ni)"
      and a: "api_ok Q A UNIV (nm_ni nm) ni"
      and p: "case retlen of
         None \<Rightarrow> ni = nm_ni nm \<and> (ret = - EROFS \<or> ret = - EINVAL \<or> ret = 0 \<and> ops_len ops = 0)
       | Some n \<Rightarrow> n \<le> ops_len ops \<and> (if n = ops_len ops then ret = 0 else ret = - EIO)"
    by (auto simp: returns_iff)
  have s: "(case retlen of None \<Rightarrow> ops_retlen ops | Some n \<Rightarrow> n) = ops_len ops" if "ret = 0"
    using p that z by (cases retlen) (auto simp: EROFS_def EINVAL_def EIO_def split: if_splits)
  from r show ?thesis
    by (rule that) (use nm_ok_instance [OF ok a st, of FL_WRITING] s d none in
      \<open>simp add: handler_post_def served_def fills_def\<close>)
qed

lemma mtd_write_oob_both:
  assumes ok: "nm_ok core Q A nm" and st: "nm_state nm = FL_READY" and req: "req_ok to ops" and oob: "oobbuf ops \<noteq> None"
    and offs: "ops_ooboffs ops < mtd_oobavail core (nm_upper nm) (ops_mode ops)"
  obtains ret ops' nm' where "nmbm_mtd_write_data core crc (nm\<lparr>nm_state := FL_WRITING\<rparr>) to ops mode = Some (ret, ops', nm')"
    and "handler_post core Q A nm ops (\<lambda>r. r = 0) (ret, ops', nmbm_release_device nm')"
proof -
  let ?nm = "nm\<lparr>nm_state := FL_WRITING\<rparr>"
  have z: "ops\<lparr>ops_oobretlen := 0, ops_retlen := 0\<rparr> = ops" using req by (simp add: req_ok_def)
  have ok': "nm_ok core Q A ?nm" using ok by simp
  have "todo_ok ?nm (ucast (mtd_oobavail core (nm_lower nm) (ops_mode ops))) ops (ops_len ops) (page_col ?nm to)
      (ops_ooblen ops) (ops_ooboffs ops)"
    using todo_start [OF ok' req oob] offs by simp
  from mtd_write_loop_ok [OF ok' this, of crc mode "ops_len ops \<noteq> 0" "ops_ooblen ops \<noteq> 0" "page_addr ?nm to"]
  obtain ret ops' nm' where r: "nmbm_mtd_write_data core crc ?nm to ops mode = Some (ret, ops', nm')"
    and p: "write_done core Q A ?nm ops (ops_len ops) (ops_ooblen ops) (ret, ops', nm')"
    by (auto simp: returns_iff nmbm_mtd_write_data_def z)
  have "handler_post core Q A nm ops (\<lambda>r. r = 0) (ret, ops', nmbm_release_device nm')"
    using p nm_step_released [OF _ st] req
    by (auto simp: write_done_def handler_post_def ops_step_def served_def req_ok_def)
  with r show ?thesis by (rule that)
qed

lemma nmbm_mtd_write_oob_ok:
  assumes ok: "nm_ok core Q A nm" and st: "nm_state nm = FL_READY" and req: "req_ok to ops"
  shows "returns (nmbm_mtd_write_oob core crc nm to ops) (handler_post core Q A nm ops (\<lambda>r. r = 0))"
proof -
  have bad: "handler_post core Q A nm ops (\<lambda>r. r = 0) (- EINVAL, ops, nm)"
    "handler_post core Q A nm ops (\<lambda>r. r = 0) (- ENOTSUPP, ops, nm)"
    using ok by (auto intro!: handler_post_unchanged simp: EINVAL_def ENOTSUPP_def)
  show ?thesis
  proof (cases "nmbm_mode (ops_mode ops)")
    case None
    then show ?thesis using bad req ok
      by (auto simp: nmbm_mtd_write_oob_def Let_def served_def req_ok_def intro!: handler_post_unchanged)
  next
    case (Some mode)
    consider "oobbuf ops = None" "datbuf ops = None" | d where "oobbuf ops = None" "datbuf ops = Some d"
      | c where "oobbuf ops = Some c" by (cases "oobbuf ops"; cases "datbuf ops") auto
    then show ?thesis
    proof cases
      case 1
      then show ?thesis using bad req ok
        by (auto simp: nmbm_mtd_write_oob_def Let_def served_def req_ok_def intro!: handler_post_unchanged)
    next
      case (2 d)
      from mtd_write_oob_data [OF ok st req 2(2,1), of crc mode] obtain ret retlen ni
        where "nmbm_write_range crc (nm_ni nm) to (ops_len ops) d mode = Some (ret, retlen, ni)"
          and "handler_post core Q A nm ops (\<lambda>r. r = 0)
            (ret, ops\<lparr>ops_retlen := (case retlen of None \<Rightarrow> ops_retlen ops | Some n \<Rightarrow> n)\<rparr>,
             nmbm_release_device (nm\<lparr>nm_state := FL_WRITING, nm_ni := ni\<rparr>))" .
      then show ?thesis using 2 Some bad(1) st
        by (simp add: nmbm_mtd_write_oob_def Let_def get_device_ready)
    next
      case (3 c)
      show ?thesis
      proof (cases "ops_ooboffs ops < mtd_oobavail core (nm_upper nm) (ops_mode ops)")
        case False
        then show ?thesis using 3 Some bad by (simp add: nmbm_mtd_write_oob_def Let_def not_less)
      next
        case True
        from mtd_write_oob_both [OF ok st req _ True, of crc mode] 3 obtain ret ops' nm'
          where "nmbm_mtd_write_data core crc (nm\<lparr>nm_state := FL_WRITING\<rparr>) to ops mode = Some (ret, ops', nm')"
            and "handler_post core Q A nm ops (\<lambda>r. r = 0) (ret, ops', nmbm_release_device nm')"
          by auto
        then show ?thesis using 3 Some bad True st
          by (simp add: nmbm_mtd_write_oob_def Let_def get_device_ready not_le)
      qed
    qed
  qed
qed

lemma nmbm_mtd_erase_ok:
  assumes ok: "nm_ok core Q A nm" and st: "nm_state nm = FL_READY" and ov: "unat addr + unat len < 2 ^ 64"
  shows "returns (nmbm_mtd_erase crc nm addr len) (\<lambda>(ret, fail_addr, nm').
    nm_ok core Q A nm' \<and> nm_step Q nm nm' \<and> (ret = 0 \<or> ret = - EIO))"
proof -
  from erase_block_range_post [OF nm_ok_api [OF ok] ov, of crc] obtain ret fa ni
    where "nmbm_erase_block_range crc (nm_ni nm) addr len = Some (ret, fa, ni)" and a: "api_ok Q A UNIV (nm_ni nm) ni"
    by (auto simp: returns_iff)
  with nm_ok_instance [OF ok a st, of FL_ERASING] show ?thesis
    by (simp add: nmbm_mtd_erase_def get_device_ready [OF st] Let_def)
qed

lemma check_bad_block_ok:
  assumes ok: "api_ok Q A S ni0 ni"
  shows "returns (nmbm_check_bad_block ni addr) (\<lambda>ret. ret = 0 \<or> ret = 1 \<or> ret = - EINVAL)"
proof (cases "addr \<ge> ba2addr ni (data_block_count ni)")
  case True
  then show ?thesis by (simp add: nmbm_check_bad_block_def)
next
  case False
  then have lb: "unat (addr2ba ni addr) < length (block_mapping ni)"
    using data_block_mapped(2) [OF ok] by (simp add: not_le)
  define pb where "pb = block_mapping ni ! unat (addr2ba ni addr)"
  have "unat pb < 16 * length (block_state ni)" if "\<not> sint pb < 0"
    by (rule map_entry_bound [OF ok _ that]) (simp add: pb_def lb)
  with False lb show ?thesis
    by (simp add: nmbm_check_bad_block_def returns_simps pb_def [symmetric])
qed

lemma nmbm_mtd_block_isbad_ok:
  assumes ok: "nm_ok core Q A nm" and st: "nm_state nm = FL_READY"
  shows "returns (nmbm_mtd_block_isbad nm offs) (\<lambda>(ret, nm'). nm' = nm \<and> (ret = 0 \<or> ret = 1 \<or> ret = - EINVAL))"
proof -
  from check_bad_block_ok [OF nm_ok_api [OF ok], of offs] obtain ret
    where "nmbm_check_bad_block (nm_ni nm) offs = Some ret" and "ret = 0 \<or> ret = 1 \<or> ret = - EINVAL"
    by (auto simp: returns_iff)
  moreover have "nmbm_release_device (nm\<lparr>nm_state := FL_READING\<rparr>) = nm" using st by (simp add: nmbm_release_device_def)
  ultimately show ?thesis by (simp add: nmbm_mtd_block_isbad_def get_device_ready [OF st])
qed

lemma nmbm_mtd_block_markbad_ok:
  assumes ok: "nm_ok core Q A nm" and st: "nm_state nm = FL_READY"
  shows "returns (nmbm_mtd_block_markbad crc nm offs) (\<lambda>(ret, nm'). nm_ok core Q A nm' \<and> nm_step Q nm nm')"
proof -
  let ?ni = "nm_ni nm"
  have "\<exists>ret ni. nmbm_mark_bad_block crc ?ni offs = Some (ret, ni) \<and> api_ok Q A UNIV ?ni ni"
  proof (cases "protected ?ni \<or> read_only ?ni \<or> offs \<ge> ba2addr ?ni (data_block_count ?ni)")
    case True
    with nm_ok_api [OF ok] show ?thesis by (auto simp: nmbm_mark_bad_block_def)
  next
    case False
    then have "offs < ba2addr ?ni (data_block_count ?ni)" "\<not> protected ?ni" "\<not> read_only ?ni" by auto
    from mark_bad_block_post [OF nm_ok_api [OF ok] this(1) _ this(2,3), of crc] show ?thesis
      by (auto simp: returns_iff)
  qed
  then obtain ret ni where "nmbm_mark_bad_block crc ?ni offs = Some (ret, ni)" and a: "api_ok Q A UNIV ?ni ni" by blast
  with nm_ok_instance [OF ok a st, of FL_WRITING] show ?thesis
    by (simp add: nmbm_mtd_block_markbad_def get_device_ready [OF st])
qed

section \<open>Sequences of requests\<close>

text \<open>The handlers as the kernel calls them through the upper device.\<close>

datatype mtd_request =
  Req_erase u64 u64 | Req_read u64 mtd_oob_ops | Req_write u64 mtd_oob_ops | Req_isbad u64 | Req_markbad u64

fun run_request :: "'m mtd_core \<Rightarrow> crc_fn \<Rightarrow> 'm nmbm_mtd \<Rightarrow> mtd_request \<Rightarrow> 'm nmbm_mtd option" where
  "run_request core crc nm (Req_erase addr len) = map_option (\<lambda>(_, _, nm'). nm') (nmbm_mtd_erase crc nm addr len)"
| "run_request core crc nm (Req_read from ops) = map_option (\<lambda>(_, _, nm'). nm') (nmbm_mtd_read_oob core nm from ops)"
| "run_request core crc nm (Req_write to ops) = map_option (\<lambda>(_, _, nm'). nm') (nmbm_mtd_write_oob core crc nm to ops)"
| "run_request core crc nm (Req_isbad offs) = map_option snd (nmbm_mtd_block_isbad nm offs)"
| "run_request core crc nm (Req_markbad offs) = map_option snd (nmbm_mtd_block_markbad crc nm offs)"

fun run_requests :: "'m mtd_core \<Rightarrow> crc_fn \<Rightarrow> 'm nmbm_mtd \<Rightarrow> mtd_request list \<Rightarrow> 'm nmbm_mtd option" where
  "run_requests core crc nm [] = Some nm"
| "run_requests core crc nm (r # rs) =
     do {
       nm \<leftarrow> run_request core crc nm r;
       run_requests core crc nm rs
     }"

fun request_ok :: "mtd_request \<Rightarrow> bool" where
  "request_ok (Req_erase addr len) \<longleftrightarrow> unat addr + unat len < 2 ^ 64"
| "request_ok (Req_read from ops) \<longleftrightarrow> req_ok from ops"
| "request_ok (Req_write to ops) \<longleftrightarrow> req_ok to ops"
| "request_ok _ \<longleftrightarrow> True"

lemma returns_map_option [returns_simps]: "returns (map_option f m) P = returns m (\<lambda>x. P (f x))"
  by (cases m) simp_all

lemma run_request_ok:
  assumes "nm_ok core Q A nm" and "nm_state nm = FL_READY" and "request_ok r"
  shows "returns (run_request core crc nm r) (\<lambda>nm'. nm_ok core Q A nm' \<and> nm_step Q nm nm')"
proof (cases r)
  case (Req_erase addr len)
  with assms show ?thesis
    by (auto simp: returns_simps intro: returns_mono [OF nmbm_mtd_erase_ok [OF assms(1,2)]])
next
  case (Req_read a ops)
  with assms show ?thesis
    by (auto simp: returns_simps handler_post_def intro: returns_mono [OF nmbm_mtd_read_oob_ok [OF assms(1,2)]])
next
  case (Req_write a ops)
  with assms show ?thesis
    by (auto simp: returns_simps handler_post_def intro: returns_mono [OF nmbm_mtd_write_oob_ok [OF assms(1,2)]])
next
  case (Req_isbad offs)
  with assms show ?thesis
    by (auto simp: returns_simps intro: returns_mono [OF nmbm_mtd_block_isbad_ok [OF assms(1,2)]])
next
  case (Req_markbad offs)
  with assms show ?thesis
    by (auto simp: returns_simps intro: returns_mono [OF nmbm_mtd_block_markbad_ok [OF assms(1,2)]])
qed

lemma run_requests_ok:
  "nm_ok core Q A nm \<Longrightarrow> nm_state nm = FL_READY \<Longrightarrow> \<forall>r \<in> set rs. request_ok r \<Longrightarrow>
   returns (run_requests core crc nm rs) (\<lambda>nm'. nm_ok core Q A nm' \<and> nm_step Q nm nm')"
proof (induction rs arbitrary: nm)
  case Nil
  then show ?case by simp
next
  case (Cons r rs)
  from run_request_ok [OF Cons.prems(1,2), of r crc] Cons.prems(3) obtain nm1
    where r: "run_request core crc nm r = Some nm1" and ok: "nm_ok core Q A nm1" and st: "nm_step Q nm nm1"
    by (auto simp: returns_iff)
  have "nm_state nm1 = FL_READY" using st Cons.prems(2) by (simp add: nm_step_def)
  from Cons.IH [OF ok this] Cons.prems(3) nm_step_trans [OF st] show ?case
    by (auto simp: r elim!: returns_mono)
qed

end
