(* ===== verification/Nmbm_Probe.thy ===== *)
theory Nmbm_Probe
  imports Nmbm_Requests Nmbm_Create
begin

text \<open>
  Probing (\<open>nmbm_probe\<close>) put together with the core and the handlers: on a chip without signature,
  a device for which probing succeeds is in order and ready for requests.
\<close>

section \<open>The references to the lower device\<close>

lemma find_lower_error: "find_lower np = Some (Inl err) \<Longrightarrow> err \<noteq> 0"
  by (auto simp: find_lower_def EPROBE_DEFER_def split: lower_lookup.splits)

lemma put_mtd_device_refs: "lower_refs (put_mtd_device (g\<lparr>lower_refs := n + 1\<rparr>)) = n"
  "nmbm_devs (put_mtd_device g) = nmbm_devs g"
  by (simp_all add: put_mtd_device_def)

section \<open>A chip without signature\<close>

abbreviation always :: "'a \<Rightarrow> bool" where "always \<equiv> \<lambda>_. True"

definition probe_attach ::
  "'m mtd_core \<Rightarrow> crc_fn \<Rightarrow> 'm nmbm_node \<Rightarrow> mtd_info \<Rightarrow> 'm \<Rightarrow> bytes \<Rightarrow> (int \<times> 'm nm_dev nmbm_instance) option" where
  "probe_attach core crc np l m sig =
     (let nld = probe_lower_device core np l in
      nmbm_attach crc nld (zero_instance \<lparr>nd_lower = m, nd_ecc = \<lparr>corrected = 0, failed = 0\<rparr>\<rparr>)
        (replicate (unat (nmbm_calc_structure_size nld)) 0) sig)"

text \<open>What the lower device and the node have to be like for the core to accept them.\<close>

definition probe_ctx :: "'m mtd_core \<Rightarrow> 'm nmbm_node \<Rightarrow> mtd_info \<Rightarrow> bytes \<Rightarrow> bool" where
  "probe_ctx core np l sig \<longleftrightarrow>
     mtd_core_ok core \<and> length sig = 48 \<and> forced_create np \<and>
     nmbm_check_lower_members (probe_lower_device core np l) \<noteq> None \<and>
     chip_fits (probe_lower_device core np l) \<and> 16 \<le> chip_blocks (probe_lower_device core np l) \<and>
     mtd_writesize_mask l = mtd_writesize l - 1"

text \<open>The search for a signature, as attaching makes it, finds none.\<close>

definition no_signature :: "'m mtd_core \<Rightarrow> crc_fn \<Rightarrow> 'm nmbm_node \<Rightarrow> mtd_info \<Rightarrow> 'm \<Rightarrow> bytes \<Rightarrow> bool" where
  "no_signature core crc np l m sig \<longleftrightarrow>
     (let nld = probe_lower_device core np l;
          raw = zero_instance \<lparr>nd_lower = m, nd_ecc = \<lparr>corrected = 0, failed = 0\<rparr>\<rparr> in
      \<forall>nld' ni. nmbm_check_lower_members nld = Some nld' \<longrightarrow>
        nmbm_init_structure (raw\<lparr>log_display_level := NMBM_LOG_INFO, lower := nld'\<rparr>)
          (replicate (unat (nmbm_calc_structure_size nld)) 0) = Some ni \<longrightarrow>
        (\<forall>found ni'. nmbm_find_signature crc ni sig = Some (found, ni') \<longrightarrow> found = None))"

text \<open>On a chip of which nothing can be read, none is found.\<close>

lemma find_in_pages_unreadable:
  assumes rd: "\<And>ni addr sig ret sig' ni'. P ni \<Longrightarrow> nmbn_read_data ni addr sig 0 48 = Some (ret, sig', ni') \<Longrightarrow> ret \<noteq> 0 \<and> P ni'"
  shows "P ni \<Longrightarrow> find_in_pages crc ni addr offs sig = Some (found, sig', ni') \<Longrightarrow> \<not> found \<and> P ni'"
proof (induction offs arbitrary: ni sig)
  case (Cons off offs)
  from Cons.prems(2) obtain ret sig1 ni1 where r: "nmbn_read_data ni (addr + off) sig 0 48 = Some (ret, sig1, ni1)"
    by (auto simp: Option.bind_eq_Some_conv)
  from rd [OF Cons.prems(1) r] Cons.prems(2) r Cons.IH [of ni1 sig1] show ?case by simp
qed simp

lemma find_signature_unreadable:
  assumes rd: "\<And>ni addr sig ret sig' ni'. P ni \<Longrightarrow> nmbn_read_data ni addr sig 0 48 = Some (ret, sig', ni') \<Longrightarrow> ret \<noteq> 0 \<and> P ni'"
    and bad: "\<And>ni b r ni'. P ni \<Longrightarrow> nmbm_check_bad_phys_block ni b = Some (r, ni') \<Longrightarrow> P ni'"
    and "P ni" and "nmbm_find_signature crc ni sig = Some (found, ni')"
  shows "found = None"
proof -
  have none: "P ni \<longrightarrow> fst res = None" if "find_loop crc ni ba limit sig = Some res" for ni ba limit sig res
    using that
  proof (rule find_loop.raw_induct [rotated], intro impI)
    fix f crc ni ba limit sig y
    assume ih: "\<And>crc ni ba limit sig y. f crc ni ba limit sig = Some y \<Longrightarrow> P ni \<longrightarrow> fst y = None"
      and body: "(if limit \<le> ba then nmbm_check_bad_phys_block ni (ba - 1) \<bind> (\<lambda>(bad, ni).
          if bad then f crc ni (ba - 1) limit sig
          else find_in_pages crc ni (ba2addr ni (ba - 1)) (page_offsets (erasesize (lower ni)) (writesize (lower ni))) sig
            \<bind> (\<lambda>(found, sig, ni). if found then Some (Some (ba - 1, sig), ni) else f crc ni (ba - 1) limit sig))
        else Some (None, ni)) = Some y" and "P ni"
    show "fst y = None"
    proof (cases "limit \<le> ba")
      case True
      with body obtain r ni1 where c: "nmbm_check_bad_phys_block ni (ba - 1) = Some (r, ni1)"
        by (auto simp: Option.bind_eq_Some_conv)
      note p1 = bad [OF \<open>P ni\<close> c]
      show ?thesis
      proof (cases r)
        case True
        with body c \<open>limit \<le> ba\<close> ih p1 show ?thesis by simp
      next
        case False
        with body c \<open>limit \<le> ba\<close> obtain found sig1 ni2 where g: "find_in_pages crc ni1 (ba2addr ni1 (ba - 1))
            (page_offsets (erasesize (lower ni1)) (writesize (lower ni1))) sig = Some (found, sig1, ni2)"
          by (auto simp: Option.bind_eq_Some_conv)
        have "\<not> found \<and> P ni2" by (rule find_in_pages_unreadable [where P = P, OF _ p1 g]) (rule rd)
        with body c g \<open>limit \<le> ba\<close> False ih show ?thesis by simp
      qed
    next
      case False
      with body show ?thesis by auto
    qed
  qed
  from assms(4) obtain res ba limit where "find_loop crc ni ba limit sig = Some res"
    and "found = map_option (\<lambda>(ba, sig). (ba, sig_of_bytes sig)) (fst res)"
    by (auto simp: nmbm_find_signature_def Let_def Option.bind_eq_Some_conv)
  with none [of ni] assms(3) show ?thesis by fastforce
qed

lemma check_lower_members_eq:
  "nmbm_check_lower_members nld = Some l \<Longrightarrow> l = (if max_ratio nld = 0 then nld\<lparr>max_ratio := 1\<rparr> else nld)"
  by (auto simp: nmbm_check_lower_members_def Let_def split: if_splits)

lemma probe_flags:
  "forced_create np \<Longrightarrow> flags (probe_lower_device core np l) AND NMBM_F_CREATE \<noteq> 0"
  "flags (probe_lower_device core np l) AND NMBM_F_READ_ONLY = 0"
  by (simp_all add: probe_lower_device_def NMBM_F_CREATE_def NMBM_F_EMPTY_PAGE_ECC_OK_def NMBM_F_READ_ONLY_def)

lemma probe_attach_ctx:
  assumes p: "probe_ctx core np l sig" and c: "nmbm_check_lower_members (probe_lower_device core np l) = Some nld"
  shows "attach_ctx always always (probe_lower_device core np l) nld (zero_instance d)
      (replicate (unat (nmbm_calc_structure_size (probe_lower_device core np l))) 0) sig"
proof -
  note e = check_lower_members_eq [OF c]
  have "nmbm_calc_structure_size nld = nmbm_calc_structure_size (probe_lower_device core np l)"
      "chip_fits nld = chip_fits (probe_lower_device core np l)" "chip_blocks nld = chip_blocks (probe_lower_device core np l)"
      "lower_ok nld = lower_ok (probe_lower_device core np l)"
    unfolding e by (simp_all add: nmbm_calc_structure_size_def chip_fits_def chip_blocks_def lower_ok_def)
  moreover have "lower_ok (probe_lower_device core np l)" using p by (simp add: probe_ctx_def probe_lower_ok)
  ultimately show ?thesis
    using p c by (simp add: attach_ctx_def probe_ctx_def blk_allowed_def dev_frame_def zero_instance_def)
qed

lemma api_ctx_all: "api_ctx always always S ni \<Longrightarrow> api_ctx always always UNIV ni"
  by (simp add: api_ctx_def blk_allowed_def)

lemma probe_attach_new:
  assumes p: "probe_ctx core np l sig" and n: "no_signature core crc np l m sig"
  shows "returns (probe_attach core crc np l m sig) (\<lambda>(rc, ni).
    rc = 0 \<longrightarrow> api_ctx always always UNIV ni \<and> writesize (lower ni) = mtd_writesize l \<and> oobsize (lower ni) = mtd_oobsize l)"
proof -
  let ?nld = "probe_lower_device core np l" and ?raw = "zero_instance \<lparr>nd_lower = m, nd_ecc = \<lparr>corrected = 0, failed = 0\<rparr>\<rparr>"
  let ?mem = "replicate (unat (nmbm_calc_structure_size ?nld)) 0"
  from p obtain nld where c: "nmbm_check_lower_members ?nld = Some nld" by (auto simp: probe_ctx_def)
  note e = check_lower_members_eq [OF c]
  have f: "flags nld AND NMBM_F_CREATE \<noteq> 0" "flags nld AND NMBM_F_READ_ONLY = 0"
      "writesize nld = mtd_writesize l" "oobsize nld = mtd_oobsize l"
    using probe_flags [where core = core and np = np and l = l] p unfolding e by (auto simp: probe_ctx_def probe_lower_device_def)
  note ac = probe_attach_ctx [OF p c, of "\<lparr>nd_lower = m, nd_ecc = \<lparr>corrected = 0, failed = 0\<rparr>\<rparr>"]
  obtain ni0 found ni1
    where i: "nmbm_init_structure (?raw\<lparr>log_display_level := NMBM_LOG_INFO, lower := nld\<rparr>) ?mem = Some ni0"
      and s: "nmbm_find_signature crc ni0 sig = Some (found, ni1)"
      and a: "found = None \<longrightarrow> returns (nmbm_attach crc ?nld ?raw ?mem sig) (\<lambda>(rc, ni').
        \<exists>ok. rc = (if ok then 0 else - ENODEV) \<and> create_new_post always always ni1 (ok, ni'))"
    by (rule nmbm_attach_new [OF ac, of crc]) (use f(1) in \<open>auto elim: returns_mono\<close>)
  have "found = None" using n c i s unfolding no_signature_def Let_def by blast
  with a have r: "returns (nmbm_attach crc ?nld ?raw ?mem sig) (\<lambda>(rc, ni').
      \<exists>ok. rc = (if ok then 0 else - ENODEV) \<and> create_new_post always always ni1 (ok, ni'))" by simp
  have "lower ni1 = nld"
    by (rule attach_fresh [OF ac, of "?raw\<lparr>log_display_level := NMBM_LOG_INFO, lower := nld\<rparr>" crc])
      (use i s in \<open>auto simp: init_post_def dev_step_fields\<close>)
  with r f show ?thesis
    unfolding probe_attach_def Let_def
    by (auto simp: create_new_post_def read_only_def ENODEV_def split: if_splits dest: api_ctx_all elim!: returns_mono)
qed

section \<open>Probing\<close>

text \<open>
  What is required of the kernel's \<open>mtd_device_register\<close>: it uses the new device through its handlers
  only, as it may use every device.
\<close>

definition register_ok :: "'m mtd_core \<Rightarrow> crc_fn \<Rightarrow> ('m nmbm_mtd \<Rightarrow> int \<times> 'm nmbm_mtd) \<Rightarrow> bool" where
  "register_ok core crc register \<longleftrightarrow>
     (\<forall>nm. nm_ok core always always nm \<and> nm_state nm = FL_READY \<longrightarrow>
        (\<exists>rs. (\<forall>r \<in> set rs. request_ok r) \<and> run_requests core crc nm rs = Some (snd (register nm))))"

lemma register_keeps:
  assumes "register_ok core crc register" and "nm_ok core always always nm" and "nm_state nm = FL_READY"
    and "register nm = (ret, nm')"
  shows "nm_ok core always always nm' \<and> nm_state nm' = FL_READY"
proof -
  from assms obtain rs where rs: "\<forall>r \<in> set rs. request_ok r" "run_requests core crc nm rs = Some nm'"
    unfolding register_ok_def by fastforce
  with run_requests_ok [OF assms(2,3) rs(1), of crc] assms(3) show ?thesis by (simp add: nm_step_def)
qed

lemma detach_returns:
  assumes "api_ctx Q A S ni"
  shows "returns (nmbm_detach crc ni) (\<lambda>_. True)"
  using update_info_table_api [OF api_ok_refl [OF assms], of crc]
  by (auto simp: nmbm_detach_def returns_iff)

lemma probed_nm_ok:
  assumes "probe_ctx core np l sig" and "api_ctx always always UNIV ni" and "writesize (lower ni) = mtd_writesize l"
    and "oobsize (lower ni) = mtd_oobsize l"
  shows "nm_ok core always always \<lparr>nm_upper = probe_upper l ni, nm_lower = l, nm_ni = ni,
    nm_page_cache = replicate (unat (mtd_writesize l) + unat (mtd_oobsize l)) 0, nm_state = FL_READY\<rparr>"
  using assms by (simp add: nm_ok_def probe_ctx_def probe_upper_def)

definition probe_post ::
  "'m mtd_core \<Rightarrow> 'l nmbm_globals \<Rightarrow> int \<times> 'm nmbm_mtd option \<times> 'l nmbm_globals \<Rightarrow> bool" where
  "probe_post core g = (\<lambda>(ret, res, g').
     case res of
       None \<Rightarrow> ret \<noteq> 0 \<and> lower_refs g' = lower_refs g \<and> nmbm_devs g' = nmbm_devs g
     | Some nm \<Rightarrow> ret = 0 \<and> lower_refs g' = lower_refs g + 1 \<and> nm_ok core always always nm \<and> nm_state nm = FL_READY)"

lemma nmbm_probe_new:
  assumes low: "find_lower np = Some (Inr (l, m))" and p: "probe_ctx core np l sig"
    and n: "no_signature core crc np l m sig" and reg: "register_ok core crc register"
  shows "returns (nmbm_probe core crc list_add_tail register alloc sig np node g) (probe_post core g)"
proof (cases alloc)
  case False
  then show ?thesis by (simp add: nmbm_probe_def low probe_post_def put_mtd_device_refs ENOMEM_def put_mtd_device_def)
next
  case True
  from probe_attach_new [OF p n] obtain rc ni where a: "probe_attach core crc np l m sig = Some (rc, ni)"
    and ni: "rc = 0 \<longrightarrow> api_ctx always always UNIV ni \<and> writesize (lower ni) = mtd_writesize l \<and> oobsize (lower ni) = mtd_oobsize l"
    by (auto simp: returns_iff)
  note a' = a [unfolded probe_attach_def Let_def]
  show ?thesis
  proof (cases "rc = 0")
    case False
    then show ?thesis using True a' by (simp add: nmbm_probe_def low Let_def probe_post_def put_mtd_device_def)
  next
    case rc: True
    let ?nm = "\<lparr>nm_upper = probe_upper l ni, nm_lower = l, nm_ni = ni,
      nm_page_cache = replicate (unat (mtd_writesize l) + unat (mtd_oobsize l)) 0, nm_state = FL_READY\<rparr>"
    obtain ret nm' where r: "register ?nm = (ret, nm')" by (cases "register ?nm")
    have ok: "nm_ok core always always nm' \<and> nm_state nm' = FL_READY"
      by (rule register_keeps [OF reg probed_nm_ok [OF p] _ r]) (use ni rc in simp_all)
    then have "returns (nmbm_detach crc (nm_ni nm')) (\<lambda>_. True)" by (auto simp: nm_ok_def intro: detach_returns)
    then obtain x where "nmbm_detach crc (nm_ni nm') = Some x" by (auto simp: returns_iff)
    then show ?thesis using True rc a' r ok
      by (simp add: nmbm_probe_def low Let_def probe_post_def put_mtd_device_def)
  qed
qed

end
