(* ===== verification/Nmbm_Mtd_Spec.thy ===== *)
theory Nmbm_Mtd_Spec
  imports Nmbm_Probe Nmbm_Example Mtd_Crc
begin

text \<open>
  The properties of the MTD layer over NMBM, with the small chip of \<open>Nmbm_Example\<close> behind an MTD
  device on which their hypotheses hold.
\<close>

section \<open>An MTD device\<close>

text \<open>A page that has not been written since it was erased cannot be read: its ECC does not match.\<close>

definition ex_core :: "chip mtd_core" where
  "ex_core = \<lparr>mtd_oobavail = (\<lambda>l mode. mtd_oobsize l),
     mtd_read_oob = (\<lambda>m a ops. (if m a = [] then - EIO else 0,
        map_option (\<lambda>b. fit (length b) (m a)) (datbuf ops), oobbuf ops, m)),
     mtd_write_oob = (\<lambda>m a ops. (0, case datbuf ops of None \<Rightarrow> m | Some b \<Rightarrow> m(a := b))),
     mtd_erase = (\<lambda>m a n. ex_erase_block m a),
     mtd_block_isbad = (\<lambda>m a. (0, m)), mtd_block_markbad = (\<lambda>m a. (0, m)),
     ecc_stats_of = (\<lambda>_. \<lparr>corrected = 0, failed = 0\<rparr>)\<rparr>"

definition ex_mtd :: mtd_info where
  "ex_mtd = \<lparr>mtd_type = 4, mtd_flags = 0, mtd_size = 65536, mtd_erasesize = 2048, mtd_writesize = 512,
     mtd_writebufsize = 512, mtd_oobsize = 16, mtd_avail = 16, mtd_erasesize_shift = 11, mtd_writesize_shift = 9,
     mtd_erasesize_mask = 2047, mtd_writesize_mask = 511, mtd_bitflip_threshold = 3, mtd_ecc_step_size = 512,
     mtd_ecc_strength = 4\<rparr>"

definition ex_node :: "chip nmbm_node" where
  "ex_node = \<lparr>lower_mtd_device = Found ex_mtd (\<lambda>_. []), lower_mtd_name = Not_named, prop_max_ratio = None,
     prop_max_reserved_blocks = None, forced_create = True, empty_page_ecc_protected = False\<rparr>"

definition ex_dev :: "chip nm_dev" where
  "ex_dev = \<lparr>nd_lower = (\<lambda>_. []), nd_ecc = \<lparr>corrected = 0, failed = 0\<rparr>\<rparr>"

text \<open>The instance of \<open>Nmbm_Example\<close>, on the device above.\<close>

definition ex_mtd_ni :: "chip nm_dev nmbm_instance" where
  "ex_mtd_ni = (zero_instance ex_dev)\<lparr>lower := probe_lower_device ex_core ex_node ex_mtd,
     rawpage_size := rawpage_size ex_ni, rawblock_size := rawblock_size ex_ni, rawchip_size := rawchip_size ex_ni,
     writesize_mask := writesize_mask ex_ni, erasesize_mask := erasesize_mask ex_ni,
     writesize_shift := writesize_shift ex_ni, erasesize_shift := erasesize_shift ex_ni,
     signature := signature ex_ni, info_table_cache := info_table_cache ex_ni,
     info_table_size := info_table_size ex_ni, info_table_spare_blocks := info_table_spare_blocks ex_ni,
     info_table := info_table ex_ni, block_state := block_state ex_ni,
     block_state_changed := block_state_changed ex_ni, state_table_size := state_table_size ex_ni,
     block_mapping := block_mapping ex_ni, mapping_table_size := mapping_table_size ex_ni,
     page_cache := page_cache ex_ni, block_count := block_count ex_ni, data_block_count := data_block_count ex_ni,
     mgmt_start_ba := mgmt_start_ba ex_ni, main_table_ba := main_table_ba ex_ni,
     backup_table_ba := backup_table_ba ex_ni, mapping_blocks_ba := mapping_blocks_ba ex_ni,
     mapping_blocks_top_ba := mapping_blocks_top_ba ex_ni, signature_ba := signature_ba ex_ni\<rparr>"

definition ex_nm :: "chip nmbm_mtd" where
  "ex_nm = \<lparr>nm_upper = probe_upper ex_mtd ex_mtd_ni, nm_lower = ex_mtd, nm_ni = ex_mtd_ni,
     nm_page_cache = replicate 528 0, nm_state = FL_READY\<rparr>"

lemma ex_core_ok: "mtd_core_ok ex_core"
  by (auto simp: mtd_core_ok_def ex_core_def fills_def option.map_comp comp_def)

lemma ex_probe_lower:
  "erasesize (probe_lower_device core np ex_mtd) = 2048" "writesize (probe_lower_device core np ex_mtd) = 512"
  "oobsize (probe_lower_device core np ex_mtd) = 16"
  by (simp_all add: probe_lower_device_def ex_mtd_def)

lemma ex_lower_sizes: "erasesize (lower ex_ni) = 2048" "writesize (lower ex_ni) = 512" "oobsize (lower ex_ni) = 16"
  by (simp_all add: ex_ni_def ex_lower_def)

lemma ex_mtd_ni_wf:
  "dev_wf ex_mtd_ni" "geom_wf ex_mtd_ni" "table_wf ex_mtd_ni" "order_wf ex_mtd_ni" "map_wf ex_mtd_ni"
proof -
  show "dev_wf ex_mtd_ni"
    using ex_dev_wf probe_lower_ok [OF ex_core_ok, of ex_node ex_mtd]
    by (simp add: dev_wf_def ex_mtd_ni_def zero_instance_def ex_probe_lower ex_lower_sizes)
  show "geom_wf ex_mtd_ni"
    using ex_geom_wf by (simp add: geom_wf_def ex_mtd_ni_def ex_probe_lower ex_lower_sizes)
  show "table_wf ex_mtd_ni" using ex_table_wf by (simp add: table_wf_def ex_mtd_ni_def)
  show "order_wf ex_mtd_ni" using ex_order_wf by (simp add: order_wf_def ex_mtd_ni_def)
  show "map_wf ex_mtd_ni" using ex_map_wf by (simp add: map_wf_def ex_mtd_ni_def)
qed

lemma ex_nm_ok: "nm_ok ex_core (\<lambda>_. True) (\<lambda>_. True) ex_nm" "nm_state ex_nm = FL_READY"
proof -
  have "api_ctx (\<lambda>_. True) (\<lambda>_. True) UNIV ex_mtd_ni"
    using ex_mtd_ni_wf by (simp add: api_ctx_def dev_frame_def blk_allowed_def)
  moreover have "lower ex_mtd_ni = probe_lower_device ex_core ex_node ex_mtd" by (simp add: ex_mtd_ni_def)
  ultimately show "nm_ok ex_core (\<lambda>_. True) (\<lambda>_. True) ex_nm"
    using ex_core_ok by (simp add: nm_ok_def ex_nm_def ex_probe_lower) (simp add: ex_mtd_def probe_upper_def)
qed (simp add: ex_nm_def)

section \<open>The lock\<close>





text \<open>
  C28: once the device has been suspended by a shutdown it stays suspended, and no task reads, writes
  or erases any more.
\<close>

theorem no_access_after_shutdown:
  assumes "dev_use\<^sup>*\<^sup>* users_start u" and "dev_state u = FL_PM_SUSPENDED" and "dev_use\<^sup>*\<^sup>* u u'"
  shows "dev_state u' = FL_PM_SUSPENDED \<and> tasks u' t \<notin> {Inside FL_READING, Inside FL_WRITING, Inside FL_ERASING}"
  using suspended_forever [OF assms(3) users_inv_reachable [OF assms(1)] assms(2)] users_invD(1) [of u' t] by auto

theorem no_access_after_shutdown_witness:
  "\<exists>u. dev_use\<^sup>*\<^sup>* users_start u \<and> tasks u 0 = Inside FL_PM_SUSPENDED \<and> dev_state u = FL_PM_SUSPENDED"
proof -
  define u1 where "u1 = users_start\<lparr>tasks := (tasks users_start)(0 := Getting FL_PM_SUSPENDED)\<rparr>"
  define u2 where "u2 = u1\<lparr>dev_state := FL_PM_SUSPENDED, tasks := (tasks u1)(0 := Inside FL_PM_SUSPENDED)\<rparr>"
  have "dev_use users_start u1" unfolding u1_def by (rule dev_use.call) (simp_all add: users_start_def)
  moreover have "dev_use u1 u2" unfolding u2_def
    by (rule dev_use.got) (simp_all add: u1_def users_start_def get_device_locked_def)
  ultimately have r: "dev_use\<^sup>*\<^sup>* users_start u2" by (metis converse_rtranclp_into_rtranclp rtranclp.rtrancl_refl)
  have "dev_state u2 = FL_PM_SUSPENDED" "tasks u2 0 = Inside FL_PM_SUSPENDED" by (simp_all add: u2_def)
  with r no_access_after_shutdown [OF r _ rtranclp.rtrancl_refl, of 0] show ?thesis by blast
qed

section \<open>Requests\<close>

text \<open>
  C26: on a device that is in order and ready, every sequence of requests as the kernel issues them is
  carried out: each handler returns and leaves the device in order and ready for the next one.
\<close>

theorem requests_served:
  assumes "nm_ok core Q A nm" and "nm_state nm = FL_READY" and "\<forall>r \<in> set rs. request_ok r"
  shows "returns (run_requests core crc nm rs) (\<lambda>nm'. nm_ok core Q A nm' \<and> nm_state nm' = FL_READY)"
  using run_requests_ok [OF assms, of crc] assms(2) by (auto simp: nm_step_def elim!: returns_mono)

definition ex_ops :: mtd_oob_ops where
  "ex_ops = \<lparr>ops_mode = MTD_OPS_PLACE_OOB, ops_len = 700, ops_retlen = 0, ops_ooblen = 20, ops_oobretlen = 0,
     ops_ooboffs = 4, datbuf = Some (replicate 700 1), oobbuf = Some (replicate 20 2)\<rparr>"

lemma ex_req_ok: "unat a < 2 ^ 32 \<Longrightarrow> req_ok a ex_ops"
  by (simp add: req_ok_def ex_ops_def)

theorem requests_served_witness:
  "returns (run_requests ex_core crc32 ex_nm [Req_write 600 ex_ops, Req_read 600 ex_ops, Req_markbad 0, Req_erase 0 4096])
     (\<lambda>nm'. nm_state nm' = FL_READY)"
  using requests_served [OF ex_nm_ok, of "[Req_write 600 ex_ops, Req_read 600 ex_ops, Req_markbad 0, Req_erase 0 4096]" crc32]
  by (auto simp: ex_req_ok elim!: returns_mono)



text \<open>
  A write with spare bytes returns and keeps the device in order; if it succeeds, everything has
  been written.
\<close>

lemma write_oob_served:
  assumes "nm_ok core Q A nm" and "nm_state nm = FL_READY" and "req_ok to ops"
  shows "returns (nmbm_mtd_write_oob core crc nm to ops) (\<lambda>(ret, ops', nm').
    nm_ok core Q A nm' \<and> nm_state nm' = FL_READY \<and>
    (ret = 0 \<longrightarrow> ops_retlen ops' = ops_len ops \<and> (oobbuf ops \<noteq> None \<longrightarrow> ops_oobretlen ops' = ops_ooblen ops)))"
  by (rule returns_mono [OF nmbm_mtd_write_oob_ok [OF assms]])
    (use assms(2) in \<open>auto simp: handler_post_def nm_step_def served_def\<close>)

text \<open>
  C30: reads and writes with spare bytes use the address modulo 4 GiB: a page 4 GiB further is not
  accessed, the page at the lower address is accessed instead.
\<close>

theorem oob_access_wraps:
  "nmbm_mtd_read_data core nm (addr + 0x100000000) ops mode = nmbm_mtd_read_data core nm addr ops mode \<and>
   nmbm_mtd_write_data core crc nm (addr + 0x100000000) ops mode = nmbm_mtd_write_data core crc nm addr ops mode"
proof -
  have t: "take_bit 32 (addr + 0x100000000) = take_bit 32 (addr :: u64)"
    by (rule word_unat_eq_iff [THEN iffD2]) (simp add: unsigned_take_bit_eq take_bit_eq_mod unat_word_ariths mod_mod_cancel)
  have "x AND ucast (w :: u32) = take_bit 32 x AND ucast w" for x :: u64 and w
    by (rule bit_word_eqI) (auto simp: bit_simps dest: bit_imp_le_length)
  then have "(addr + 0x100000000) AND ucast w = addr AND ucast (w :: u32)" for w using t by metis
  then show ?thesis by (simp add: nmbm_mtd_read_data_def nmbm_mtd_write_data_def page_addr_def page_col_def)
qed

section \<open>Probing\<close>

text \<open>
  C25: probing a chip without signature returns. If it fails, no reference to the lower device is
  kept and the list of devices is unchanged. If it succeeds, the lower device is held once more, and
  the new device carries out every sequence of requests.
\<close>

theorem probed_device_serves:
  assumes "find_lower np = Some (Inr (l, m))" and "probe_ctx core np l sig"
    and "no_signature core crc np l m sig" and "register_ok core crc register"
  shows "returns (nmbm_probe core crc list_add_tail register alloc sig np node g) (\<lambda>(ret, res, g').
    case res of
      None \<Rightarrow> ret \<noteq> 0 \<and> lower_refs g' = lower_refs g \<and> nmbm_devs g' = nmbm_devs g
    | Some nm \<Rightarrow> ret = 0 \<and> lower_refs g' = lower_refs g + 1 \<and>
        (\<forall>rs. (\<forall>r \<in> set rs. request_ok r) \<longrightarrow>
           returns (run_requests core crc nm rs) (\<lambda>nm'. nm_ok core always always nm' \<and> nm_state nm' = FL_READY)))"
proof -
  have "returns (run_requests core crc nm rs) (\<lambda>nm'. nm_ok core always always nm' \<and> nm_state nm' = FL_READY)"
    if "nm_ok core always always nm" "nm_state nm = FL_READY" "\<forall>r \<in> set rs. request_ok r" for nm rs
    using run_requests_ok [OF that, of crc] that(2) by (auto simp: nm_step_def elim!: returns_mono)
  then show ?thesis
    using nmbm_probe_new [OF assms, of list_add_tail alloc node g]
    by (auto simp: probe_post_def split: option.splits elim!: returns_mono)
qed

text \<open>The erased chip cannot be read, hence has no signature.\<close>

definition ex_erased :: "chip nm_dev nmbm_lower_device \<Rightarrow> chip nm_dev nmbm_instance \<Rightarrow> bool" where
  "ex_erased nld ni \<longleftrightarrow>
     lower ni = nld \<and> nd_lower (dev ni) = (\<lambda>_. []) \<and> reset_chip nld = None \<and>
     read_page nld = Some (nmbm_lower_read_page ex_core ex_mtd) \<and>
     is_bad_block nld = Some (nmbm_lower_is_bad_block ex_core)"

lemma ex_erased_read:
  assumes "ex_erased nld ni" and "nmbm_read_phys_page ni addr d c mode = Some (ret, d', c', ni')"
  shows "ret = - EIO \<and> ex_erased nld ni'"
  using assms
  by (auto simp: nmbm_read_phys_page_def NMBM_TRY_COUNT_def numeral_3_eq_3 ex_erased_def nmbm_lower_read_page_def
      ex_core_def nmbm_reset_chip_def EIO_def EUCLEAN_def Let_def)

lemma ex_erased_cache:
  assumes "ex_erased nld ni" and "read_page_cache ni addr mode = Some (ret, ni')"
  shows "ret = - EIO \<and> ex_erased nld ni'"
  using assms(2) ex_erased_read [OF assms(1)]
  by (auto simp: read_page_cache_def Option.bind_eq_Some_conv) (auto simp: ex_erased_def)

lemma ex_erased_data:
  assumes e: "ex_erased nld ni" and r: "nmbn_read_data ni addr sig 0 48 = Some (ret, sig', ni')"
  shows "ret \<noteq> 0 \<and> ex_erased nld ni'"
proof -
  note r' = r [unfolded nmbn_read_data_def, unfolded read_data_loop.simps [of ni]]
  show ?thesis
    using r' by (auto simp: Let_def Option.bind_eq_Some_conv EIO_def split: if_splits
        dest!: ex_erased_read [OF e] ex_erased_cache [OF e])
qed

lemma ex_no_signature: "no_signature ex_core crc ex_node ex_mtd (\<lambda>_. []) sig"
proof -
  have none: "found = None" if c: "nmbm_check_lower_members (probe_lower_device ex_core ex_node ex_mtd) = Some nld"
    and i: "nmbm_init_structure (raw\<lparr>log_display_level := NMBM_LOG_INFO, lower := nld\<rparr>) mem = Some ni"
    and d: "nd_lower (dev raw) = (\<lambda>_. [])"
    and f: "nmbm_find_signature crc ni sig = Some (found, ni')" for nld raw mem ni found ni'
  proof -
    have "lower ni = nld" "dev ni = dev raw"
      using i by (auto simp: nmbm_init_structure_def Let_def Option.bind_eq_Some_conv)
    then have e: "ex_erased nld ni"
      using check_lower_members_eq [OF c] d by (simp add: ex_erased_def probe_lower_device_def)
    show ?thesis
    proof (rule find_signature_unreadable [where P = "ex_erased nld", OF _ _ e f])
      show "ex_erased nld ni'" if "ex_erased nld ni" "nmbm_check_bad_phys_block ni b = Some (r, ni')" for ni b r ni'
        using that by (auto simp: nmbm_check_bad_phys_block_def ex_erased_def nmbm_lower_is_bad_block_def ex_core_def Let_def)
    qed (rule ex_erased_data)
  qed
  have d: "nd_lower (dev (zero_instance \<lparr>nd_lower = (\<lambda>_. []), nd_ecc = e\<rparr>)) = (\<lambda>_. [])" for e :: ecc_stats
    by (simp add: zero_instance_def)
  show ?thesis unfolding no_signature_def Let_def using none [OF _ _ d] by blast
qed

lemma ex_probe_ctx: "probe_ctx ex_core ex_node ex_mtd (replicate 48 0)"
proof -
  have "nmbm_check_lower_members (probe_lower_device ex_core ex_node ex_mtd) \<noteq> None"
    by (simp add: nmbm_check_lower_members_def probe_lower_device_def ex_node_def ex_mtd_def is_power_of_2_def
        is_power_of_2_u64_def NMBM_MAX_RATIO_DEFAULT_def NMBM_MAX_BLOCKS_DEFAULT_def NMBM_MGMT_DIV_def
        NMBM_MGMT_BLOCKS_MIN_def Let_def word_le_nat_alt)
  then show ?thesis
    using ex_core_ok
    by (simp add: probe_ctx_def chip_fits_def chip_blocks_def ex_node_def) (simp add: probe_lower_device_def ex_mtd_def)
qed

theorem probed_device_serves_witness:
  "returns (nmbm_probe ex_core crc32 (\<lambda>n ns. ns @ [n]) (\<lambda>nm. (0, nm)) True (replicate 48 0) ex_node 7
       \<lparr>nmbm_devs = [], lower_refs = 0\<rparr>)
     (\<lambda>(ret, res, g'). lower_refs g' = (if ret = 0 then 1 else 0))"
proof -
  have f: "find_lower ex_node = Some (Inr (ex_mtd, \<lambda>_. []))" by (simp add: find_lower_def ex_node_def)
  have "register_ok ex_core crc32 (\<lambda>nm. (0, nm))" unfolding register_ok_def by (auto intro!: exI [of _ "[]"])
  from probed_device_serves [OF f ex_probe_ctx ex_no_signature this, of "\<lambda>n ns. ns @ [n]" True 7
      "\<lparr>nmbm_devs = [], lower_refs = 0\<rparr>"]
  show ?thesis by (auto split: option.splits elim!: returns_mono)
qed

end
