(* ===== verification/Mtdsplit.thy ===== *)
theory Mtdsplit
  imports Prelude
begin

text \<open>
  What the partition parsers of \<open>drivers/mtd/mtdsplit\<close> share (\<open>mtdsplit.c\<close>, \<open>mtdsplit.h\<close>, and the
  rounding functions that \<open>404-mtd-add-more-helper-functions.patch\<close> adds to the kernel's
  \<open>mtd.h\<close>): finding a root file system on a flash, and the partitions a parser reports.

  A flash is the record \<open>split_mtd\<close>. The kernel's functions on it are fields: \<open>mtd_read\<close> gives the
  error code and the bytes that were read, of which there may be less than asked for. So is the
  byte order of the processor. \<open>size_t\<close> and \<open>loff_t\<close> are 64 bits wide. \<open>kzalloc_ok n\<close> says whether
  the n-th allocation succeeds. Messages are not modelled.
\<close>

section \<open>Structures\<close>

record split_mtd =
  sm_name :: string
  sm_size :: u64
  sm_erasesize :: u32
  cpu_be :: bool
  mtd_read :: "u64 \<Rightarrow> nat \<Rightarrow> int \<times> bytes"
  mtd_div_by_eb :: "u64 \<Rightarrow> u32"
  mtd_mod_by_eb :: "u64 \<Rightarrow> u32"
  kzalloc_ok :: "nat \<Rightarrow> bool"

record mtd_partition =
  part_name :: string
  part_offset :: u64
  part_size :: u64
  part_mask_flags :: u32

datatype mtdsplit_part_type =
  MTDSPLIT_PART_TYPE_UNK | MTDSPLIT_PART_TYPE_SQUASHFS | MTDSPLIT_PART_TYPE_JFFS2 | MTDSPLIT_PART_TYPE_UBI

definition KERNEL_PART_NAME :: string where "KERNEL_PART_NAME = ''kernel''"
definition ROOTFS_PART_NAME :: string where "ROOTFS_PART_NAME = ''rootfs''"
definition UBI_PART_NAME :: string where "UBI_PART_NAME = ''ubi''"
definition ROOTFS_SPLIT_NAME :: string where "ROOTFS_SPLIT_NAME = ''rootfs_data''"

definition SQUASHFS_MAGIC :: u32 where "SQUASHFS_MAGIC = 0x73717368"
definition UBI_EC_MAGIC :: u32 where "UBI_EC_MAGIC = 0x55424923"

text \<open>
  The outcome of a parser: \<open>Inl\<close> an error code, \<open>Inr\<close> the partitions. \<open>None\<close> is a parser that
  does not return, or whose behaviour is undefined.
\<close>

type_synonym parse_result = "(int + mtd_partition list) option"

section \<open>Reading\<close>

text \<open>A field of a structure, by its offset, in the byte order of the processor.\<close>

definition cpu16 :: "split_mtd \<Rightarrow> bytes \<Rightarrow> nat \<Rightarrow> u16" where
  "cpu16 m bs off = (if cpu_be m then of_be16 (drop off bs) else of_le16 (drop off bs))"

definition cpu32 :: "split_mtd \<Rightarrow> bytes \<Rightarrow> nat \<Rightarrow> u32" where
  "cpu32 m bs off = (if cpu_be m then of_be32 (drop off bs) else of_le32 (drop off bs))"

definition cpu64 :: "split_mtd \<Rightarrow> bytes \<Rightarrow> nat \<Rightarrow> u64" where
  "cpu64 m bs off = (if cpu_be m then of_be64 (drop off bs) else of_le64 (drop off bs))"

text \<open>A read that is refused if it is not complete, which most parsers write out.\<close>

definition read_exact :: "split_mtd \<Rightarrow> u64 \<Rightarrow> nat \<Rightarrow> int + bytes" where
  "read_exact m offset len =
     (let (err, bs) = mtd_read m offset len in
      if err \<noteq> 0 then Inl err else if length bs \<noteq> len then Inl (- EIO) else Inr bs)"

section \<open>Erase blocks\<close>

definition mtd_roundup_to_eb :: "u64 \<Rightarrow> split_mtd \<Rightarrow> u64" where
  "mtd_roundup_to_eb sz m =
     (if mtd_mod_by_eb m sz = 0 then sz else ucast ((mtd_div_by_eb m sz + 1) * sm_erasesize m))"

definition mtd_rounddown_to_eb :: "u64 \<Rightarrow> split_mtd \<Rightarrow> u64" where
  "mtd_rounddown_to_eb sz m =
     (if mtd_mod_by_eb m sz = 0 then sz else ucast (mtd_div_by_eb m sz * sm_erasesize m))"

definition mtd_next_eb :: "split_mtd \<Rightarrow> u64 \<Rightarrow> u64" where
  "mtd_next_eb m offset = mtd_rounddown_to_eb offset m + ucast (sm_erasesize m)"

section \<open>Root file systems\<close>

definition mtd_get_squashfs_len :: "split_mtd \<Rightarrow> u64 \<Rightarrow> int + u64" where
  "mtd_get_squashfs_len m offset =
     (let (err, sb) = mtd_read m offset 48 in
      if err \<noteq> 0 \<or> length sb \<noteq> 48 then Inl (- EIO)
      else if of_le32 sb \<noteq> SQUASHFS_MAGIC then Inl (- EINVAL)
      else let retlen = of_le64 (drop 40 sb) in
        if retlen = 0 then Inl (- ENODEV)
        else if offset + retlen > sm_size m then Inl (- EINVAL)
        else Inr retlen)"

definition mtd_check_rootfs_magic :: "split_mtd \<Rightarrow> u64 \<Rightarrow> int + mtdsplit_part_type" where
  "mtd_check_rootfs_magic m offset =
     (case read_exact m offset 4 of
        Inl err \<Rightarrow> Inl err
      | Inr bs \<Rightarrow>
          if of_le32 bs = SQUASHFS_MAGIC then Inr MTDSPLIT_PART_TYPE_SQUASHFS
          else if cpu32 m bs 0 = 0x19852003 then Inr MTDSPLIT_PART_TYPE_JFFS2
          else if of_be32 bs = UBI_EC_MAGIC then Inr MTDSPLIT_PART_TYPE_UBI
          else Inl (- EINVAL))"

partial_function (option) mtd_find_rootfs_from ::
  "split_mtd \<Rightarrow> u64 \<Rightarrow> u64 \<Rightarrow> (int + u64 \<times> mtdsplit_part_type) option" where
  "mtd_find_rootfs_from m offset limit =
     (if offset < limit then
        (case mtd_check_rootfs_magic m offset of
           Inl err \<Rightarrow> mtd_find_rootfs_from m (mtd_next_eb m offset) limit
         | Inr type \<Rightarrow> Some (Inr (offset, type)))
      else Some (Inl (- ENODEV)))"

declare mtd_find_rootfs_from.simps [code]

text \<open>An entry of a zeroed array of partitions of which name, offset and size are set.\<close>

definition part :: "string \<Rightarrow> u64 \<Rightarrow> u64 \<Rightarrow> mtd_partition" where
  "part nm off sz = \<lparr>part_name = nm, part_offset = off, part_size = sz, part_mask_flags = 0\<rparr>"

text \<open>The name of the second partition in the parsers that distinguish UBI.\<close>

definition rootfs_name :: "mtdsplit_part_type \<Rightarrow> string" where
  "rootfs_name type = (if type = MTDSPLIT_PART_TYPE_UBI then UBI_PART_NAME else ROOTFS_PART_NAME)"

section \<open>What the kernel promises\<close>

text \<open>
  Erase blocks have a size, the flash has at most 4 GiB, the two functions divide by the size of an
  erase block, and a read at or behind the end of the flash fails.
\<close>

definition split_ok :: "split_mtd \<Rightarrow> bool" where
  "split_ok m \<longleftrightarrow>
     0 < unat (sm_erasesize m) \<and> unat (sm_size m) \<le> 2 ^ 32 \<and>
     (\<forall>x. mtd_div_by_eb m x = ucast (x div ucast (sm_erasesize m))) \<and>
     (\<forall>x. mtd_mod_by_eb m x = ucast (x mod ucast (sm_erasesize m))) \<and>
     (\<forall>off n. sm_size m \<le> off \<longrightarrow> fst (mtd_read m off n) \<noteq> 0)"

lemma read_exact_inside:
  assumes "split_ok m" and "read_exact m off n = Inr bs"
  shows "off < sm_size m" and "length bs = n"
proof -
  from assms(2) show "length bs = n" by (simp add: read_exact_def split: prod.splits if_splits)
  from assms(2) have "fst (mtd_read m off n) = 0" by (simp add: read_exact_def split: prod.splits if_splits)
  moreover have "sm_size m \<le> off \<longrightarrow> fst (mtd_read m off n) \<noteq> 0" using assms(1) unfolding split_ok_def by blast
  ultimately show "off < sm_size m" by (auto simp: not_le [symmetric])
qed

lemma check_magic_inside: "split_ok m \<Longrightarrow> mtd_check_rootfs_magic m off = Inr type \<Longrightarrow> off < sm_size m"
  by (auto simp: mtd_check_rootfs_magic_def dest: read_exact_inside(1) split: sum.splits)

lemma mod_by_eb_0:
  assumes "split_ok m"
  shows "mtd_mod_by_eb m x = 0 \<longleftrightarrow> unat x mod unat (sm_erasesize m) = 0"
proof -
  have e: "0 < unat (sm_erasesize m)" using assms by (simp add: split_ok_def)
  have "unat x mod unat (sm_erasesize m) < 2 ^ 32"
    using less_trans [OF mod_less_divisor [OF e] unat_u32_less] by simp
  then have "unat (mtd_mod_by_eb m x) = unat x mod unat (sm_erasesize m)"
    using assms by (simp add: split_ok_def unat_ucast_mod unat_mod_distrib)
  then show ?thesis by (metis unat_eq_zero)
qed

lemma unat_rounddown:
  assumes "split_ok m" and "unat x < 2 ^ 32"
  shows "unat (mtd_rounddown_to_eb x m) = unat x div unat (sm_erasesize m) * unat (sm_erasesize m)"
proof -
  let ?e = "unat (sm_erasesize m)"
  have le: "unat x div ?e * ?e \<le> unat x" by (rule div_times_less_eq_dividend)
  have "unat x div ?e < 2 ^ 32" using assms(2) div_le_dividend [of "unat x" ?e] by linarith
  then have "unat (mtd_div_by_eb m x) = unat x div ?e"
    using assms by (simp add: split_ok_def unat_ucast_mod unat_div_distrib)
  moreover have "unat x div ?e * ?e < 2 ^ 32" using le assms(2) by linarith
  ultimately have "unat (mtd_div_by_eb m x * sm_erasesize m) = unat x div ?e * ?e"
    by (simp add: unat_word_ariths)
  then show ?thesis
    using mod_by_eb_0 [OF assms(1), of x] by (auto simp: mtd_rounddown_to_eb_def mod_0_imp_dvd)
qed

lemma unat_next_eb:
  assumes "split_ok m" and "unat x < 2 ^ 32"
  shows "unat (mtd_next_eb m x) = (unat x div unat (sm_erasesize m) + 1) * unat (sm_erasesize m)"
proof -
  have "unat x div unat (sm_erasesize m) * unat (sm_erasesize m) \<le> unat x" by simp
  moreover have "(2 :: nat) ^ 32 + 4294967296 \<le> 2 ^ 64" by simp
  ultimately have "unat x div unat (sm_erasesize m) * unat (sm_erasesize m) + unat (sm_erasesize m) < 2 ^ 64"
    using assms(2) unat_u32_less [of "sm_erasesize m"] by linarith
  then show ?thesis by (simp add: mtd_next_eb_def unat_word_ariths unat_rounddown [OF assms])
qed

section \<open>The search\<close>

text \<open>The offsets that are tried: the first one, and the starts of the erase blocks behind it.\<close>

definition tried :: "split_mtd \<Rightarrow> nat \<Rightarrow> nat \<Rightarrow> bool" where
  "tried m start k \<longleftrightarrow> k = start \<or> start < k \<and> unat (sm_erasesize m) dvd k"

lemma tried_next:
  assumes "0 < e" and e: "e = unat (sm_erasesize m)"
  shows "tried m start k \<longleftrightarrow> k = start \<or> tried m ((start div e + 1) * e) k"
proof -
  have "start < (start div e + 1) * e" using assms(1) by (simp add: dividend_less_div_times add.commute)
  moreover have "(start div e + 1) * e \<le> k" if lt: "start < k" and dv: "e dvd k"
  proof -
    obtain q where k: "k = q * e" using dv by (auto simp: dvd_def mult.commute)
    have "start div e < q" using lt assms(1) by (simp add: k div_less_iff_less_mult)
    then have "start div e + 1 \<le> q" by simp
    then show ?thesis unfolding k by (rule mult_le_mono1)
  qed
  moreover have "e dvd (start div e + 1) * e" by simp
  ultimately show ?thesis unfolding tried_def e [symmetric] by (metis le_neq_implies_less less_trans)
qed

definition first_rootfs ::
  "split_mtd \<Rightarrow> nat \<Rightarrow> u64 \<Rightarrow> int + u64 \<times> mtdsplit_part_type \<Rightarrow> bool" where
  "first_rootfs m start limit res \<longleftrightarrow>
     (case res of
        Inr (off, type) \<Rightarrow>
          tried m start (unat off) \<and> off < limit \<and> mtd_check_rootfs_magic m off = Inr type \<and>
          (\<forall>k. tried m start k \<longrightarrow> k < unat off \<longrightarrow> (\<exists>e. mtd_check_rootfs_magic m (of_nat k) = Inl e))
      | Inl err \<Rightarrow>
          err = - ENODEV \<and>
          (\<forall>k. tried m start k \<longrightarrow> k < unat limit \<longrightarrow> (\<exists>e. mtd_check_rootfs_magic m (of_nat k) = Inl e)))"

lemma mtd_find_rootfs_from_returns:
  assumes ok: "split_ok m" and lim: "limit \<le> sm_size m"
  shows "returns (mtd_find_rootfs_from m off limit) (first_rootfs m (unat off) limit)"
proof (induction "unat limit - unat off" arbitrary: off rule: less_induct)
  case less
  let ?e = "unat (sm_erasesize m)"
  have e: "0 < ?e" using ok by (simp add: split_ok_def)
  show ?case
  proof (cases "off < limit")
    case False
    have "\<not> k < unat limit" if "tried m (unat off) k" for k
      using that False by (auto simp: tried_def word_less_nat_alt)
    with False show ?thesis by (subst mtd_find_rootfs_from.simps) (simp add: first_rootfs_def)
  next
    case True
    then have o: "unat off < unat limit" "unat off < 2 ^ 32"
      using lim ok by (auto simp: word_less_nat_alt word_le_nat_alt split_ok_def)
    show ?thesis
    proof (cases "mtd_check_rootfs_magic m off")
      case (Inr type)
      have "\<not> k < unat off" if "tried m (unat off) k" for k using that by (auto simp: tried_def)
      with True Inr show ?thesis by (subst mtd_find_rootfs_from.simps) (simp add: first_rootfs_def tried_def)
    next
      case (Inl err)
      let ?n = "mtd_next_eb m off"
      note n = unat_next_eb [OF ok o(2)]
      have gt: "unat off < unat ?n" using e by (simp add: n dividend_less_div_times add.commute)
      then have "unat limit - unat ?n < unat limit - unat off" using o(1) by simp
      from less.hyps [OF this] have ih: "returns (mtd_find_rootfs_from m ?n limit) (first_rootfs m (unat ?n) limit)" .
      have t: "tried m (unat off) k \<longleftrightarrow> k = unat off \<or> tried m (unat ?n) k" for k
        unfolding n by (rule tried_next [OF e refl])
      have "first_rootfs m (unat off) limit res" if "first_rootfs m (unat ?n) limit res" for res
        using that Inl gt unfolding first_rootfs_def t by (auto split: sum.splits prod.splits)
      from returns_mono [OF ih this] True Inl show ?thesis by (subst mtd_find_rootfs_from.simps) simp
    qed
  qed
qed

text \<open>What is found is in range and has a known magic number, whatever the flash.\<close>

lemma find_rootfs_sound:
  assumes "mtd_find_rootfs_from m off limit = Some (Inr (r, type))"
  shows "r < limit \<and> mtd_check_rootfs_magic m r = Inr type"
proof -
  have "case res of Inl _ \<Rightarrow> True | Inr (r, type) \<Rightarrow> r < limit \<and> mtd_check_rootfs_magic m r = Inr type"
    if "mtd_find_rootfs_from m off limit = Some res" for res
    using that
    by (rule mtd_find_rootfs_from.raw_induct [rotated]) (fastforce split: if_splits sum.splits)
  from this [OF assms] show ?thesis by simp
qed

end
