(* ===== verification/Mtdsplit_Fw.thy ===== *)
theory Mtdsplit_Fw
  imports Mtdsplit
begin

text \<open>
  The parsers that find a kernel image by its header and a root file system behind it:
  \<open>mtdsplit_lzma.c\<close>, \<open>mtdsplit_minor.c\<close>, \<open>mtdsplit_wrgg.c\<close>, \<open>mtdsplit_seama.c\<close>,
  \<open>mtdsplit_tplink.c\<close>, \<open>mtdsplit_eva.c\<close>, \<open>mtdsplit_brnimage.c\<close>, \<open>mtdsplit_elf.c\<close>,
  \<open>mtdsplit_fit.c\<close>, \<open>mtdsplit_cfe_bootfs.c\<close>, \<open>mtdsplit_trx.c\<close>, \<open>mtdsplit_uimage.c\<close>,
  \<open>mtdsplit_jimage.c\<close>; and \<open>mtdsplit_squashfs.c\<close>, which finds the end of the root file system.

  Header fields are read by their offset in the C structure, which the comments of the definitions
  name. Arithmetic on \<open>int\<close> wraps, as the kernel is built.
\<close>

definition two_parts :: "split_mtd \<Rightarrow> mtd_partition \<Rightarrow> mtd_partition \<Rightarrow> int + mtd_partition list" where
  "two_parts m p q = (if kzalloc_ok m 0 then Inr [p, q] else Inl (- ENOMEM))"

text \<open>How a parser goes on when the search for the root file system has ended.\<close>

definition with_rootfs ::
  "(int + u64 \<times> mtdsplit_part_type) option \<Rightarrow> (u64 \<Rightarrow> mtdsplit_part_type \<Rightarrow> int + mtd_partition list)
     \<Rightarrow> parse_result" where
  "with_rootfs r f =
     do {
       found \<leftarrow> r;
       Some (case found of Inl err \<Rightarrow> Inl err | Inr (rootfs_offset, type) \<Rightarrow> f rootfs_offset type)
     }"

section \<open>LZMA, minor, WRGG\<close>

definition mtdsplit_parse_lzma :: "split_mtd \<Rightarrow> parse_result" where
  "mtdsplit_parse_lzma m =
     (case read_exact m 0 13 of
        Inl err \<Rightarrow> Some (Inl err)
      | Inr hdr \<Rightarrow>
          if hdr ! 0 \<ge> 225 then Some (Inl (- EINVAL))
          else if \<not> is_power_of_2 (of_le32 (drop 1 hdr)) then Some (Inl (- EINVAL))
          else if of_le32 (drop 9 hdr) \<noteq> 0 then Some (Inl (- EINVAL))
          else with_rootfs (mtd_find_rootfs_from m (ucast (sm_erasesize m)) (sm_size m)) (\<lambda>r type.
            two_parts m (part KERNEL_PART_NAME 0 r) (part ROOTFS_PART_NAME r (sm_size m - r))))"

definition YAFFS_NAME :: bytes where "YAFFS_NAME = [0x6b, 0x65, 0x72, 0x6e, 0x65, 0x6c, 0]"

text \<open>\<open>yaffs_type\<close> is at 0, \<open>yaffs_obj_id\<close> at 4, \<open>yaffs_sum_unused\<close> at 8, \<open>yaffs_name\<close> at 10.\<close>

definition mtdsplit_parse_minor :: "split_mtd \<Rightarrow> parse_result" where
  "mtdsplit_parse_minor m =
     (case read_exact m 0 20 of
        Inl err \<Rightarrow> Some (Inl err)
      | Inr hdr \<Rightarrow>
          if cpu32 m hdr 0 \<noteq> 1 then Some (Inl (- EINVAL))
          else if cpu32 m hdr 4 \<noteq> 1 then Some (Inl (- EINVAL))
          else if cpu16 m hdr 8 \<noteq> 0xFFFF then Some (Inl (- EINVAL))
          else if take 7 (drop 10 hdr) \<noteq> YAFFS_NAME then Some (Inl (- EINVAL))
          else with_rootfs (mtd_find_rootfs_from m (ucast (sm_erasesize m)) (sm_size m)) (\<lambda>r type.
            two_parts m (part KERNEL_PART_NAME 0 r) (part ROOTFS_PART_NAME r (sm_size m - r))))"

definition WRGG03_MAGIC :: u32 where "WRGG03_MAGIC = 0x20080321"
definition WRG_MAGIC :: u32 where "WRG_MAGIC = 0x20040220"
definition WRGG_MIN_ROOTFS_OFFS :: u64 where "WRGG_MIN_ROOTFS_OFFS = 0x80000"

text \<open>\<open>magic1\<close> is at 32; \<open>size\<close> is at 104 of a \<open>wrgg03_header\<close> and at 40 of a \<open>wrg_header\<close>.\<close>

definition wrgg_kernel_size :: "split_mtd \<Rightarrow> bytes \<Rightarrow> u64 option" where
  "wrgg_kernel_size m hdr =
     (if of_le32 (drop 32 hdr) = WRGG03_MAGIC then
        let sz = 160 + ucast (of_be32 (drop 104 hdr));
            sz = (if sz > sm_size m then 160 + ucast (of_le32 (drop 104 hdr)) else sz)
        in if sz > sm_size m then None else Some sz
      else if of_le32 (drop 32 hdr) = WRG_MAGIC then Some (96 + ucast (of_le32 (drop 40 hdr)))
      else None)"

definition mtdsplit_parse_wrgg :: "split_mtd \<Rightarrow> parse_result" where
  "mtdsplit_parse_wrgg m =
     (case read_exact m 0 160 of
        Inl err \<Rightarrow> Some (Inl err)
      | Inr hdr \<Rightarrow>
          (case wrgg_kernel_size m hdr of
             None \<Rightarrow> Some (Inl (- EINVAL))
           | Some kernel_ent_size \<Rightarrow>
               if kernel_ent_size > sm_size m then Some (Inl (- EINVAL))
               else with_rootfs (mtd_find_rootfs_from m WRGG_MIN_ROOTFS_OFFS (sm_size m)) (\<lambda>r type.
                 two_parts m (part KERNEL_PART_NAME 0 r) (part ROOTFS_PART_NAME r (sm_size m - r)))))"

section \<open>Seama, TP-Link, EVA\<close>

definition SEAMA_MAGIC :: u32 where "SEAMA_MAGIC = 0x5EA3A417"
definition SEAMA_MIN_ROOTFS_OFFS :: u64 where "SEAMA_MIN_ROOTFS_OFFS = 0x80000"

text \<open>\<open>magic\<close> is at 0, \<open>metasize\<close> at 6, \<open>size\<close> at 8; the header has 28 bytes.\<close>

definition mtdsplit_parse_seama :: "split_mtd \<Rightarrow> parse_result" where
  "mtdsplit_parse_seama m =
     (case read_exact m 0 28 of
        Inl err \<Rightarrow> Some (Inl err)
      | Inr hdr \<Rightarrow>
          if of_be32 hdr \<noteq> SEAMA_MAGIC then Some (Inl (- EINVAL))
          else let metasize = ucast (of_be16 (drop 6 hdr)) :: u64;
                   kernel_ent_size = 28 + ucast (of_be32 (drop 8 hdr)) + metasize in
            if kernel_ent_size > sm_size m then Some (Inl (- EINVAL))
            else with_rootfs
              (case mtd_check_rootfs_magic m kernel_ent_size of
                 Inr type \<Rightarrow> Some (Inr (kernel_ent_size, type))
               | Inl _ \<Rightarrow> mtd_find_rootfs_from m SEAMA_MIN_ROOTFS_OFFS (sm_size m))
              (\<lambda>r type. two_parts m (part KERNEL_PART_NAME (28 + metasize) (r - (28 + metasize)))
                                   (part (rootfs_name type) r (sm_size m - r))))"

definition TPLINK_MIN_ROOTFS_OFFS :: u64 where "TPLINK_MIN_ROOTFS_OFFS = 0x80000"

text \<open>
  The fields \<open>kernel_ofs\<close>, \<open>kernel_len\<close> and \<open>rootfs_ofs\<close>, which are at 128, 132 and 136 of a header of
  version 1, and at 116, 120 and 124 of a header of version 2 or 3. The header has 512 bytes.
\<close>

definition tplink_fields :: "bytes \<Rightarrow> (u32 \<times> u32 \<times> u32) option" where
  "tplink_fields hdr =
     (let version = of_le32 hdr; field = (\<lambda>off. of_be32 (drop off hdr)) in
      if version = 1 then Some (field 128, field 132, field 136)
      else if version = 2 \<or> version = 3 then Some (field 116, field 120, field 124)
      else None)"

definition mtdsplit_parse_tplink :: "split_mtd \<Rightarrow> parse_result" where
  "mtdsplit_parse_tplink m =
     (case read_exact m 0 512 of
        Inl err \<Rightarrow> Some (Inl err)
      | Inr hdr \<Rightarrow>
          (case tplink_fields hdr of
             None \<Rightarrow> Some (Inl (- EINVAL))
           | Some (kernel_ofs, kernel_len, rootfs_ofs) \<Rightarrow>
               if kernel_ofs \<noteq> 512 then Some (Inl (- EINVAL))
               else let kernel_size = 512 + ucast kernel_len :: u64 in
                 if kernel_size > sm_size m then Some (Inl (- EINVAL))
                 else with_rootfs
                   (case mtd_check_rootfs_magic m (ucast rootfs_ofs) of
                      Inr type \<Rightarrow> Some (Inr (ucast rootfs_ofs, type))
                    | Inl _ \<Rightarrow> mtd_find_rootfs_from m TPLINK_MIN_ROOTFS_OFFS (sm_size m))
                   (\<lambda>r type. two_parts m (part KERNEL_PART_NAME 0 kernel_size)
                                        (part ROOTFS_PART_NAME r (sm_size m - r)))))"

definition EVA_MAGIC :: u32 where "EVA_MAGIC = 0xfeed1281"
definition EVA_FOOTER_SIZE :: u32 where "EVA_FOOTER_SIZE = 0x18"
definition EVA_DUMMY_SQUASHFS_SIZE :: u64 where "EVA_DUMMY_SQUASHFS_SIZE = 0x100"

text \<open>The kernel's \<open>round_up\<close> to a multiple of 0x10000.\<close>

definition round_up_64k :: "u64 \<Rightarrow> u64" where
  "round_up_64k x = ((x - 1) OR 0xffff) + 1"

text \<open>The footer size is added in 32 bits.\<close>

definition mtdsplit_parse_eva :: "split_mtd \<Rightarrow> parse_result" where
  "mtdsplit_parse_eva m =
     (case read_exact m 0 8 of
        Inl err \<Rightarrow> Some (Inl err)
      | Inr hdr \<Rightarrow>
          if of_le32 hdr \<noteq> EVA_MAGIC then Some (Inl (- EINVAL))
          else let kernel_size = ucast (of_le32 (drop 4 hdr) + EVA_FOOTER_SIZE) :: u64;
                   rootfs_offset = round_up_64k kernel_size + EVA_DUMMY_SQUASHFS_SIZE in
            if rootfs_offset \<ge> sm_size m then Some (Inl (- EINVAL))
            else (case mtd_check_rootfs_magic m rootfs_offset of
                Inl err \<Rightarrow> Some (Inl err)
              | Inr _ \<Rightarrow> Some (two_parts m (part KERNEL_PART_NAME 0 kernel_size)
                                (part ROOTFS_PART_NAME rootfs_offset (sm_size m - rootfs_offset)))))"

section \<open>BRN, ELF, FIT, CFE\<close>

definition BRNIMAGE_ALIGN_BYTES :: u64 where "BRNIMAGE_ALIGN_BYTES = 0x400"
definition BRNIMAGE_FOOTER_SIZE :: u64 where "BRNIMAGE_FOOTER_SIZE = 12"
definition BRNIMAGE_MIN_OVERHEAD :: u64 where "BRNIMAGE_MIN_OVERHEAD = BRNIMAGE_FOOTER_SIZE"
definition BRNIMAGE_MAX_OVERHEAD :: u64 where
  "BRNIMAGE_MAX_OVERHEAD = BRNIMAGE_ALIGN_BYTES + BRNIMAGE_FOOTER_SIZE"

text \<open>The loop, with the result of the last check and the offset it stops at.\<close>

partial_function (option) brnimage_loop :: "split_mtd \<Rightarrow> u64 \<Rightarrow> int \<Rightarrow> (int \<times> u64) option" where
  "brnimage_loop m rootfs_offset ret =
     (if rootfs_offset < sm_size m then
        (case mtd_check_rootfs_magic m rootfs_offset of
           Inr _ \<Rightarrow> Some (0, rootfs_offset)
         | Inl ret \<Rightarrow> brnimage_loop m (rootfs_offset + BRNIMAGE_ALIGN_BYTES) ret)
      else Some (ret, rootfs_offset))"

declare brnimage_loop.simps [code]

definition mtdsplit_parse_brnimage :: "split_mtd \<Rightarrow> parse_result" where
  "mtdsplit_parse_brnimage m =
     do {
       (ret, rootfs_offset) \<leftarrow> brnimage_loop m 0 0;
       Some (
         if ret \<noteq> 0 then Inl ret
         else if rootfs_offset \<ge> sm_size m then Inl (- EINVAL)
         else case read_exact m (rootfs_offset - BRNIMAGE_FOOTER_SIZE) 4 of
           Inl err \<Rightarrow> Inl err
         | Inr buf \<Rightarrow>
             let kernel_size = ucast (of_le32 buf) in
             if kernel_size > rootfs_offset - BRNIMAGE_MIN_OVERHEAD then Inl (- EINVAL)
             else if kernel_size < rootfs_offset - BRNIMAGE_MAX_OVERHEAD then Inl (- EINVAL)
             else two_parts m (part KERNEL_PART_NAME 0 kernel_size)
                    (part ROOTFS_PART_NAME rootfs_offset (sm_size m - rootfs_offset - BRNIMAGE_FOOTER_SIZE)))
     }"

definition ELF_MAGIC :: u32 where "ELF_MAGIC = 0x7f454c46"

text \<open>The product of two 16-bit fields is an \<open>int\<close>.\<close>

definition table_len :: "u16 \<Rightarrow> u16 \<Rightarrow> u32" where
  "table_len entsize num = ucast entsize * ucast num"

text \<open>
  The program header table: \<open>offset\<close> and \<open>filesize\<close> are at 4 and 16 of a 32-bit header of 28 bytes,
  at 8 and 32 of a 64-bit header of 48 bytes.
\<close>

partial_function (option) elf32_ph_loop :: "split_mtd \<Rightarrow> u64 \<Rightarrow> u64 \<Rightarrow> u16 \<Rightarrow> u64 \<Rightarrow> (int + u64) option" where
  "elf32_ph_loop m ph_entry ph_table_end phentsize sz =
     (if ph_entry < ph_table_end then
        (case read_exact m ph_entry 28 of
           Inl err \<Rightarrow> Some (Inl err)
         | Inr ph \<Rightarrow>
             let section_end = ucast (cpu32 m ph 4 + cpu32 m ph 16) in
             elf32_ph_loop m (ph_entry + ucast phentsize) ph_table_end phentsize
               (if section_end > sz then section_end else sz))
      else Some (Inr sz))"

declare elf32_ph_loop.simps [code]

partial_function (option) elf64_ph_loop :: "split_mtd \<Rightarrow> u64 \<Rightarrow> u64 \<Rightarrow> u16 \<Rightarrow> u64 \<Rightarrow> (int + u64) option" where
  "elf64_ph_loop m ph_entry ph_table_end phentsize sz =
     (if ph_entry < ph_table_end then
        (case read_exact m ph_entry 48 of
           Inl err \<Rightarrow> Some (Inl err)
         | Inr ph \<Rightarrow>
             let section_end = cpu64 m ph 8 + cpu64 m ph 32 in
             elf64_ph_loop m (ph_entry + ucast phentsize) ph_table_end phentsize
               (if section_end > sz then section_end else sz))
      else Some (Inr sz))"

declare elf64_ph_loop.simps [code]

text \<open>
  In the header with its 16 bytes of identification, \<open>phoff\<close>, \<open>shoff\<close>, \<open>phentsize\<close>, \<open>phnum\<close>,
  \<open>shentsize\<close>, \<open>shnum\<close> are at 28, 32, 42, 44, 46, 48 (32-bit) and at 32, 40, 54, 56, 58, 60 (64-bit).
\<close>

definition elf32_determine_size :: "split_mtd \<Rightarrow> bytes \<Rightarrow> (int + u64) option" where
  "elf32_determine_size m hdr =
     (let phoff = cpu32 m hdr 28; shoff = cpu32 m hdr 32 in
      if shoff > 0 then Some (Inr (ucast (shoff + table_len (cpu16 m hdr 46) (cpu16 m hdr 48))))
      else elf32_ph_loop m (ucast phoff) (ucast (phoff + table_len (cpu16 m hdr 42) (cpu16 m hdr 44)))
             (cpu16 m hdr 42) 0)"

definition elf64_determine_size :: "split_mtd \<Rightarrow> bytes \<Rightarrow> (int + u64) option" where
  "elf64_determine_size m hdr =
     (let phoff = cpu64 m hdr 32; shoff = cpu64 m hdr 40 in
      if shoff > 0 then Some (Inr (shoff + scast (table_len (cpu16 m hdr 58) (cpu16 m hdr 60))))
      else elf64_ph_loop m phoff (phoff + scast (table_len (cpu16 m hdr 54) (cpu16 m hdr 56)))
             (cpu16 m hdr 54) 0)"

definition mtdsplit_parse_elf :: "split_mtd \<Rightarrow> parse_result" where
  "mtdsplit_parse_elf m =
     (case read_exact m 0 64 of
        Inl err \<Rightarrow> Some (Inl err)
      | Inr hdr \<Rightarrow>
          if of_be32 hdr \<noteq> ELF_MAGIC then Some (Inl (- EINVAL))
          else do {
            sz \<leftarrow> (if hdr ! 4 = 1 then elf32_determine_size m hdr
                     else if hdr ! 4 = 2 then elf64_determine_size m hdr
                     else Some (Inl (- EINVAL)));
            case sz of
              Inl err \<Rightarrow> Some (Inl err)
            | Inr loader_size \<Rightarrow>
                with_rootfs (mtd_find_rootfs_from m loader_size (sm_size m)) (\<lambda>r type.
                  if r = sm_size m then Inl (- ENODEV)
                  else two_parts m (part KERNEL_PART_NAME 0 r) (part (rootfs_name type) r (sm_size m - r)))
          })"

definition OF_DT_HEADER :: u32 where "OF_DT_HEADER = 0xd00dfeed"

text \<open>
  The loop keeps the header it has read last, \<open>None\<close> if there is none: after the loop that header
  is used whether or not it has the magic number.
\<close>

partial_function (option) fit_loop ::
  "split_mtd \<Rightarrow> u64 \<Rightarrow> bytes option \<Rightarrow> (int + u64 \<times> bytes option) option" where
  "fit_loop m offset hdr =
     (if offset + 40 \<le> sm_size m then
        (case read_exact m offset 40 of
           Inl err \<Rightarrow> Some (Inl err)
         | Inr hdr \<Rightarrow>
             if of_be32 hdr \<noteq> OF_DT_HEADER then fit_loop m (offset + ucast (sm_erasesize m)) (Some hdr)
             else Some (Inr (offset, Some hdr)))
      else Some (Inr (offset, hdr)))"

declare fit_loop.simps [code]

definition mtdsplit_fit_parse :: "split_mtd \<Rightarrow> parse_result" where
  "mtdsplit_fit_parse m =
     do {
       found \<leftarrow> fit_loop m 0 None;
       case found of
         Inl err \<Rightarrow> Some (Inl err)
       | Inr (fit_offset, hdr) \<Rightarrow>
           do {
             hdr \<leftarrow> hdr;
             let fit_size = ucast (of_be32 (drop 4 hdr));
             if fit_size = 0 then Some (Inl (- ENODEV))
             else with_rootfs (mtd_find_rootfs_from m (fit_offset + fit_size) (sm_size m)) (\<lambda>r type.
               two_parts m (part KERNEL_PART_NAME fit_offset (mtd_rounddown_to_eb fit_size m + ucast (sm_erasesize m)))
                           (part ROOTFS_PART_NAME r (sm_size m - r)))
           }
     }"

definition JFFS2_MAGIC_BITMASK :: u16 where "JFFS2_MAGIC_BITMASK = 0x1985"

text \<open>\<open>magic\<close> and \<open>totlen\<close> are at 0 and 4 of a directory entry of 40 bytes.\<close>

partial_function (option) cfe_bootfs_end :: "split_mtd \<Rightarrow> u64 \<Rightarrow> u64 option" where
  "cfe_bootfs_end m offset =
     (case read_exact m offset 40 of
        Inl _ \<Rightarrow> Some offset
      | Inr node \<Rightarrow>
          if cpu16 m node 0 \<noteq> JFFS2_MAGIC_BITMASK then Some offset
          else let offset = (offset + ucast (cpu32 m node 4) + 3) AND NOT 3 in
            if offset < sm_size m then cfe_bootfs_end m offset else Some offset)"

declare cfe_bootfs_end.simps [code]

text \<open>The end of the boot file system is computed and not used.\<close>

definition mtdsplit_cfe_bootfs_parse :: "split_mtd \<Rightarrow> parse_result" where
  "mtdsplit_cfe_bootfs_parse m =
     (if sm_name m \<noteq> ''firmware'' then Some (Inl (- EINVAL))
      else do {
        _ \<leftarrow> cfe_bootfs_end m 0;
        with_rootfs (mtd_find_rootfs_from m (ucast (sm_erasesize m)) (sm_size m)) (\<lambda>r type.
          two_parts m (part ''bootfs'' 0 r) (part (rootfs_name type) r (sm_size m - r)))
      })"

section \<open>TRX, uImage, jImage\<close>

text \<open>
  The search these three parsers share: \<open>f\<close> is the body of the loop up to the size of the image it
  has found, with its header; \<open>None\<close> is \<open>continue\<close>. An image that exceeds the flash is skipped, but
  its size is kept: if it was in the last block, it is what the loop ends with.
\<close>

partial_function (option) image_scan ::
  "split_mtd \<Rightarrow> (u64 \<Rightarrow> (u64 \<times> bytes) option) \<Rightarrow> u64 \<Rightarrow> (u64 \<times> bytes) option
     \<Rightarrow> (u64 \<times> (u64 \<times> bytes) option) option" where
  "image_scan m f offset seen =
     (if offset < sm_size m then
        (case f offset of
           None \<Rightarrow> image_scan m f (offset + ucast (sm_erasesize m)) None
         | Some (sz, hdr) \<Rightarrow>
             if offset + sz > sm_size m
             then image_scan m f (offset + ucast (sm_erasesize m)) (Some (sz, hdr))
             else Some (offset, Some (sz, hdr)))
      else Some (offset, seen))"

declare image_scan.simps [code]

definition TRX_MAGIC :: u32 where "TRX_MAGIC = 0x30524448"

text \<open>\<open>magic\<close>, \<open>len\<close>, \<open>offset[0]\<close>, \<open>offset[1]\<close> are at 0, 4, 16, 20 of a header of 32 bytes.\<close>

definition trx_at :: "split_mtd \<Rightarrow> u64 \<Rightarrow> (u64 \<times> bytes) option" where
  "trx_at m offset =
     (case read_exact m offset 32 of
        Inl _ \<Rightarrow> None
      | Inr hdr \<Rightarrow> if of_le32 hdr \<noteq> TRX_MAGIC then None else Some (ucast (of_le32 (drop 4 hdr)), hdr))"

text \<open>The offsets are added without conversion from little-endian order.\<close>

definition mtdsplit_parse_trx :: "split_mtd \<Rightarrow> parse_result" where
  "mtdsplit_parse_trx m =
     (if \<not> kzalloc_ok m 0 then Some (Inl (- ENOMEM))
      else do {
        (offset, found) \<leftarrow> image_scan m (trx_at m) 0 None;
        Some (case found of
          None \<Rightarrow> Inl (- ENODEV)
        | Some (sz, hdr) \<Rightarrow>
            if sz = 0 then Inl (- ENODEV)
            else let trx_offset = offset + ucast (cpu32 m hdr 16);
                     rootfs_offset = offset + ucast (cpu32 m hdr 20);
                     rootfs_size = sm_size m - rootfs_offset in
              if rootfs_size = 0 then Inl (- ENODEV)
              else Inr [part KERNEL_PART_NAME trx_offset (rootfs_offset - trx_offset),
                        part ROOTFS_PART_NAME rootfs_offset rootfs_size])
      })"

text \<open>
  What uImage and jImage do with the image they have found. In C the type of the root file system
  is known when it is used, since both searches set it on success.
\<close>

definition place_parts :: "split_mtd \<Rightarrow> u64 \<Rightarrow> u64 \<Rightarrow> parse_result" where
  "place_parts m img_offset img_size =
     (if img_offset = 0 then
        with_rootfs (mtd_find_rootfs_from m (img_offset + img_size) (sm_size m)) (\<lambda>r type.
          if sm_size m - r = 0 then Inl (- ENODEV)
          else Inr [part KERNEL_PART_NAME img_offset (r - img_offset),
                    part (rootfs_name type) r (sm_size m - r)])
      else Some (case mtd_check_rootfs_magic m 0 of
          Inl err \<Rightarrow> Inl err
        | Inr type \<Rightarrow> Inr [part (rootfs_name type) 0 img_offset, part KERNEL_PART_NAME img_offset img_size]))"

definition IH_MAGIC :: u32 where "IH_MAGIC = 0x27051956"
definition IH_OS_LINUX :: u8 where "IH_OS_LINUX = 5"
definition IH_TYPE_KERNEL :: u32 where "IH_TYPE_KERNEL = 2"

text \<open>What a node of the device tree that is compatible with \<open>openwrt,uimage\<close> may set.\<close>

record uimage_node =
  dt_padding :: "u32 option"
  dt_ih_magic :: "u32 option"
  dt_ih_type :: "u32 option"
  dt_offset :: "u32 option"
  dt_part_magic :: "u32 option"

record uimage_params =
  extralen :: u32
  ih_magic :: u32
  ih_type :: u32
  header_offset :: u32
  part_magic :: u32

definition uimage_parse_dt :: "uimage_node option \<Rightarrow> uimage_params" where
  "uimage_parse_dt np =
     (let set = (\<lambda>f def. case np of None \<Rightarrow> def | Some n \<Rightarrow> (case f n of None \<Rightarrow> def | Some v \<Rightarrow> v))
      in \<lparr>extralen = set dt_padding 0, ih_magic = set dt_ih_magic IH_MAGIC,
          ih_type = set dt_ih_type IH_TYPE_KERNEL, header_offset = set dt_offset 0,
          part_magic = set dt_part_magic 0\<rparr>)"

text \<open>\<open>ih_magic\<close>, \<open>ih_size\<close>, \<open>ih_os\<close>, \<open>ih_type\<close> are at 0, 12, 28, 30 of a header of 64 bytes.\<close>

definition uimage_verify_default :: "bytes \<Rightarrow> u32 \<Rightarrow> u32 \<Rightarrow> int" where
  "uimage_verify_default hdr magic type =
     (if of_be32 hdr \<noteq> magic then - EINVAL
      else if hdr ! 28 \<noteq> IH_OS_LINUX then - EINVAL
      else if ucast (hdr ! 30) \<noteq> type then - EINVAL
      else 0)"

definition uimage_at :: "split_mtd \<Rightarrow> uimage_params \<Rightarrow> u64 \<Rightarrow> (u64 \<times> bytes) option" where
  "uimage_at m p offset =
     (case read_exact m offset (64 + unat (header_offset p)) of
        Inl _ \<Rightarrow> None
      | Inr buf \<Rightarrow>
          if header_offset p \<noteq> 0 \<and> part_magic p \<noteq> 0 \<and> of_be32 buf \<noteq> part_magic p then None
          else let hdr = drop (unat (header_offset p)) buf in
            if uimage_verify_default hdr (ih_magic p) (ih_type p) < 0 then None
            else Some (64 + ucast (of_be32 (drop 12 hdr)) + ucast (header_offset p) + scast (extralen p), hdr))"

text \<open>\<open>np\<close> is the node, \<open>None\<close> if there is none or it is not compatible.\<close>

definition mtdsplit_parse_uimage :: "split_mtd \<Rightarrow> uimage_node option \<Rightarrow> parse_result" where
  "mtdsplit_parse_uimage m np =
     (if \<not> kzalloc_ok m 0 then Some (Inl (- ENOMEM))
      else if \<not> kzalloc_ok m 1 then Some (Inl (- ENOMEM))
      else do {
        (offset, found) \<leftarrow> image_scan m (uimage_at m (uimage_parse_dt np)) 0 None;
        case found of
          None \<Rightarrow> Some (Inl (- ENODEV))
        | Some (sz, hdr) \<Rightarrow> if sz = 0 then Some (Inl (- ENODEV)) else place_parts m offset sz
      })"

definition STAG_MAGIC :: u16 where "STAG_MAGIC = 0x2B24"
definition STAG_ID :: u8 where "STAG_ID = 0x04"
definition SCH2_MAGIC :: u16 where "SCH2_MAGIC = 0x2124"
definition SCH2_VER :: u8 where "SCH2_VER = 0x02"

text \<open>
  \<open>stag_cmark\<close>, \<open>stag_id\<close>, \<open>stag_magic\<close>, \<open>sch2_magic\<close>, \<open>sch2_version\<close>, \<open>sch2_image_len\<close> are at
  0, 1, 2, 16, 19, 24 of a header of 56 bytes.
\<close>

definition jimage_verify_default :: "split_mtd \<Rightarrow> bytes \<Rightarrow> int" where
  "jimage_verify_default m hdr =
     (if cpu16 m hdr 2 \<noteq> STAG_MAGIC then - EINVAL
      else if cpu16 m hdr 16 \<noteq> SCH2_MAGIC then - EINVAL
      else if hdr ! 0 \<noteq> hdr ! 1 then - EINVAL
      else if hdr ! 1 \<noteq> STAG_ID then - EINVAL
      else if hdr ! 19 \<noteq> SCH2_VER then - EINVAL
      else 0)"

definition jimage_at :: "split_mtd \<Rightarrow> u64 \<Rightarrow> (u64 \<times> bytes) option" where
  "jimage_at m offset =
     (case read_exact m offset 56 of
        Inl _ \<Rightarrow> None
      | Inr hdr \<Rightarrow>
          if jimage_verify_default m hdr < 0 then None
          else Some (56 + ucast (cpu32 m hdr 24), hdr))"

definition mtdsplit_parse_jimage :: "split_mtd \<Rightarrow> parse_result" where
  "mtdsplit_parse_jimage m =
     (if \<not> kzalloc_ok m 0 then Some (Inl (- ENOMEM))
      else if \<not> kzalloc_ok m 1 then Some (Inl (- ENOMEM))
      else do {
        (offset, found) \<leftarrow> image_scan m (jimage_at m) 0 None;
        case found of
          None \<Rightarrow> Some (Inl (- ENODEV))
        | Some (sz, hdr) \<Rightarrow> if sz = 0 then Some (Inl (- ENODEV)) else place_parts m offset sz
      })"

section \<open>The data behind a squashfs\<close>

text \<open>\<open>parent\<close> is the flash that \<open>m\<close> is a partition of, \<open>start\<close> where it starts there.\<close>

definition mtdsplit_parse_squashfs :: "split_mtd \<Rightarrow> split_mtd \<Rightarrow> u64 \<Rightarrow> int + mtd_partition list" where
  "mtdsplit_parse_squashfs m parent start =
     (case mtd_get_squashfs_len m 0 of
        Inl err \<Rightarrow> Inl err
      | Inr squashfs_len \<Rightarrow>
          if \<not> kzalloc_ok m 0 then Inl (- ENOMEM)
          else let off = mtd_roundup_to_eb (start + squashfs_len) parent - start in
            Inr [part ROOTFS_SPLIT_NAME off (mtd_rounddown_to_eb (sm_size m - off) m)])"

end
