(* ===== verification/Mtdsplit_Contracts.thy ===== *)
theory Mtdsplit_Contracts
  imports Mtdsplit_Fw
begin

text \<open>
  What the firmware parsers promise: that they return, and that the partitions they report tile the
  flash and have a root file system where they say.
\<close>

section \<open>Parsers that split at the root file system\<close>

text \<open>The partitions follow each other without gap or overlap, from \<open>lo\<close> to \<open>hi\<close>.\<close>

fun tiles :: "mtd_partition list \<Rightarrow> nat \<Rightarrow> nat \<Rightarrow> bool" where
  "tiles [] lo hi \<longleftrightarrow> lo = hi"
| "tiles (p # ps) lo hi \<longleftrightarrow> unat (part_offset p) = lo \<and> tiles ps (lo + unat (part_size p)) hi"

lemma part_sel [simp]:
  "part_name (part n off sz) = n" "part_offset (part n off sz) = off" "part_size (part n off sz) = sz"
  by (simp_all add: part_def)

lemma with_rootfs_Inr [simp]:
  "with_rootfs r f = Some (Inr ps) \<longleftrightarrow> (\<exists>off type. r = Some (Inr (off, type)) \<and> f off type = Inr ps)"
  by (cases r; cases "the r") (auto simp: with_rootfs_def)

lemma case_sum_parse [simp]:
  "(case x of Inl err \<Rightarrow> Some (Inl err) | Inr y \<Rightarrow> g y) = Some (Inr ps) \<longleftrightarrow> (\<exists>y. x = Inr y \<and> g y = Some (Inr ps))"
  by (cases x) auto

lemma case_option_parse [simp]:
  "(case x of None \<Rightarrow> Some (Inl err) | Some y \<Rightarrow> g y) = Some (Inr ps) \<longleftrightarrow> (\<exists>y. x = Some y \<and> g y = Some (Inr ps))"
  by (cases x) auto

lemma two_parts_Inr [simp]: "two_parts m p q = Inr ps \<longleftrightarrow> kzalloc_ok m 0 \<and> ps = [p, q]"
  by (auto simp: two_parts_def)

text \<open>\<open>halts\<close>: the computation is defined and ends.\<close>

abbreviation halts :: "'a option \<Rightarrow> bool" where
  "halts p \<equiv> returns p (\<lambda>_. True)"

lemma halts_with_rootfs [simp]: "halts (with_rootfs r f) = halts r"
  by (simp add: with_rootfs_def returns_simps)

lemma halts_bind: "halts p \<Longrightarrow> (\<And>x. halts (f x)) \<Longrightarrow> halts (p \<bind> f)"
  by (auto simp: returns_iff)

lemma find_rootfs_halts: "split_ok m \<Longrightarrow> halts (mtd_find_rootfs_from m off (sm_size m))"
  using mtd_find_rootfs_from_returns [of m "sm_size m" off] by (auto elim: returns_mono)

text \<open>The contract: a first partition up to the root file system that was found, a second one from there.\<close>

locale split_parser =
  fixes parse :: "split_mtd \<Rightarrow> parse_result"
  assumes splits: "parse m = Some (Inr ps) \<Longrightarrow>
    \<exists>start r type n1 n2. mtd_find_rootfs_from m start (sm_size m) = Some (Inr (r, type)) \<and>
      ps = [part n1 0 r, part n2 r (sm_size m - r)]"
begin

lemma tiling:
  assumes "parse m = Some (Inr ps)"
  shows "tiles ps 0 (unat (sm_size m)) \<and> (\<exists>type. mtd_check_rootfs_magic m (part_offset (ps ! 1)) = Inr type)"
proof -
  from splits [OF assms] obtain start r type n1 n2
    where f: "mtd_find_rootfs_from m start (sm_size m) = Some (Inr (r, type))"
      and ps: "ps = [part n1 0 r, part n2 r (sm_size m - r)]" by blast
  from find_rootfs_sound [OF f] have "r < sm_size m" "mtd_check_rootfs_magic m r = Inr type" by auto
  then show ?thesis by (simp add: ps unat_sub word_less_nat_alt word_le_nat_alt)
qed

end

text \<open>The same for a parser that returns on every flash.\<close>

locale total_split_parser = split_parser +
  assumes total: "split_ok m \<Longrightarrow> halts (parse m)"
begin

lemma outcome:
  assumes "split_ok m"
  shows "returns (parse m) (\<lambda>res. case res of
    Inl err \<Rightarrow> True
  | Inr ps \<Rightarrow> tiles ps 0 (unat (sm_size m)) \<and> (\<exists>type. mtd_check_rootfs_magic m (part_offset (ps ! 1)) = Inr type))"
  using total [OF assms] tiling by (auto simp: returns_iff split: sum.splits)

end

interpretation lzma: total_split_parser mtdsplit_parse_lzma
  by unfold_locales (auto simp: mtdsplit_parse_lzma_def find_rootfs_halts split: sum.split if_splits)

interpretation minor: total_split_parser mtdsplit_parse_minor
  by unfold_locales (auto simp: mtdsplit_parse_minor_def find_rootfs_halts split: sum.split if_splits)

interpretation wrgg: total_split_parser mtdsplit_parse_wrgg
  by unfold_locales (auto simp: mtdsplit_parse_wrgg_def find_rootfs_halts split: sum.split option.split if_splits)

interpretation cfe_bootfs: split_parser mtdsplit_cfe_bootfs_parse
  by unfold_locales (auto simp: mtdsplit_cfe_bootfs_parse_def Option.bind_eq_Some_conv split: if_splits)

section \<open>Loops that end\<close>

lemma step_up:
  assumes "unat off < unat (sm_size m)" and "split_ok m" and "0 < unat (s :: u64)" and "unat s < 2 ^ 32"
  shows "unat (sm_size m) - unat (off + s) < unat (sm_size m) - unat off"
proof -
  have "unat (sm_size m) \<le> 2 ^ 32" using assms(2) by (simp add: split_ok_def)
  then have "unat off + unat s < 2 ^ 64" using assms(1,4) by simp
  then have "unat (off + s) = unat off + unat s" by (simp add: unat_word_ariths)
  with assms(1,3) show ?thesis by simp
qed

lemma eb_step:
  "split_ok m \<Longrightarrow> off < sm_size m \<Longrightarrow>
   unat (sm_size m) - unat (off + ucast (sm_erasesize m)) < unat (sm_size m) - unat off"
  using unat_u32_less [of "sm_erasesize m"] by (intro step_up) (simp_all add: word_less_nat_alt split_ok_def)

lemma image_scan_halts: "split_ok m \<Longrightarrow> halts (image_scan m f off seen)"
proof (induction "unat (sm_size m) - unat off" arbitrary: off seen rule: less_induct)
  case less
  show ?case
  proof (cases "off < sm_size m")
    case True
    from less.hyps [OF eb_step [OF less.prems True] less.prems] True show ?thesis
      by (subst image_scan.simps) (auto split: option.splits)
  next
    case False
    then show ?thesis by (subst image_scan.simps) simp
  qed
qed

lemma brnimage_loop_halts: "split_ok m \<Longrightarrow> halts (brnimage_loop m off ret)"
proof (induction "unat (sm_size m) - unat off" arbitrary: off ret rule: less_induct)
  case less
  show ?case
  proof (cases "off < sm_size m")
    case True
    then have "unat (sm_size m) - unat (off + BRNIMAGE_ALIGN_BYTES) < unat (sm_size m) - unat off"
      using less.prems by (intro step_up) (simp_all add: word_less_nat_alt BRNIMAGE_ALIGN_BYTES_def)
    from less.hyps [OF this less.prems] True show ?thesis
      by (subst brnimage_loop.simps) (auto split: sum.splits)
  next
    case False
    then show ?thesis by (subst brnimage_loop.simps) simp
  qed
qed

lemma elf32_ph_loop_halts:
  "split_ok m \<Longrightarrow> 0 < unat phentsize \<or> ph_table_end \<le> ph_entry \<Longrightarrow>
   halts (elf32_ph_loop m ph_entry ph_table_end phentsize sz)"
proof (induction "unat (sm_size m) - unat ph_entry" arbitrary: ph_entry sz rule: less_induct)
  case less
  show ?case
  proof (cases "ph_entry < ph_table_end \<and> (\<exists>ph. read_exact m ph_entry 28 = Inr ph)")
    case True
    then obtain ph where ph: "read_exact m ph_entry 28 = Inr ph" by blast
    have z: "0 < unat phentsize" using True less.prems(2) by auto
    have "unat phentsize < 2 ^ 16" using unsigned_less [of phentsize] by simp
    then have "unat (sm_size m) - unat (ph_entry + ucast phentsize) < unat (sm_size m) - unat ph_entry"
      using less.prems(1) z read_exact_inside(1) [OF less.prems(1) ph]
      by (intro step_up) (simp_all add: word_less_nat_alt unat_ucast_mod)
    from less.hyps [OF this less.prems(1)] z ph show ?thesis
      by (subst elf32_ph_loop.simps) (simp add: Let_def)
  next
    case False
    then show ?thesis by (subst elf32_ph_loop.simps) (auto split: sum.splits)
  qed
qed

lemma elf64_ph_loop_halts:
  "split_ok m \<Longrightarrow> 0 < unat phentsize \<or> ph_table_end \<le> ph_entry \<Longrightarrow>
   halts (elf64_ph_loop m ph_entry ph_table_end phentsize sz)"
proof (induction "unat (sm_size m) - unat ph_entry" arbitrary: ph_entry sz rule: less_induct)
  case less
  show ?case
  proof (cases "ph_entry < ph_table_end \<and> (\<exists>ph. read_exact m ph_entry 48 = Inr ph)")
    case True
    then obtain ph where ph: "read_exact m ph_entry 48 = Inr ph" by blast
    have z: "0 < unat phentsize" using True less.prems(2) by auto
    have "unat phentsize < 2 ^ 16" using unsigned_less [of phentsize] by simp
    then have "unat (sm_size m) - unat (ph_entry + ucast phentsize) < unat (sm_size m) - unat ph_entry"
      using less.prems(1) z read_exact_inside(1) [OF less.prems(1) ph]
      by (intro step_up) (simp_all add: word_less_nat_alt unat_ucast_mod)
    from less.hyps [OF this less.prems(1)] z ph show ?thesis
      by (subst elf64_ph_loop.simps) (simp add: Let_def)
  next
    case False
    then show ?thesis by (subst elf64_ph_loop.simps) (auto split: sum.splits)
  qed
qed

text \<open>A table of entries of size zero is empty, so that the loops over it do not run.\<close>

lemma elf_size_halts:
  assumes "split_ok m"
  shows "halts (elf32_determine_size m hdr)" and "halts (elf64_determine_size m hdr)"
proof -
  have z: "0 < unat e \<or> table_len e n = 0" for e n
    by (cases "e = 0") (simp_all add: table_len_def unat_gt_0)
  from z [of "cpu16 m hdr 42" "cpu16 m hdr 44"]
  have "0 < unat (cpu16 m hdr 42) \<or>
      ucast (cpu32 m hdr 28 + table_len (cpu16 m hdr 42) (cpu16 m hdr 44)) \<le> (ucast (cpu32 m hdr 28) :: u64)" by auto
  from elf32_ph_loop_halts [OF assms this] show "halts (elf32_determine_size m hdr)"
    by (simp add: elf32_determine_size_def Let_def)
  from z [of "cpu16 m hdr 54" "cpu16 m hdr 56"]
  have "0 < unat (cpu16 m hdr 54) \<or>
      cpu64 m hdr 32 + scast (table_len (cpu16 m hdr 54) (cpu16 m hdr 56)) \<le> cpu64 m hdr 32" by auto
  from elf64_ph_loop_halts [OF assms this] show "halts (elf64_determine_size m hdr)"
    by (simp add: elf64_determine_size_def Let_def)
qed

interpretation elf: total_split_parser mtdsplit_parse_elf
proof
  fix m ps
  assume "mtdsplit_parse_elf m = Some (Inr ps)"
  then show "\<exists>start r type n1 n2. mtd_find_rootfs_from m start (sm_size m) = Some (Inr (r, type)) \<and>
      ps = [part n1 0 r, part n2 r (sm_size m - r)]"
    by (auto simp: mtdsplit_parse_elf_def Option.bind_eq_Some_conv split: if_splits)
next
  fix m
  assume ok: "split_ok m"
  show "halts (mtdsplit_parse_elf m)"
    using find_rootfs_halts [OF ok] elf_size_halts [OF ok]
    by (auto simp: mtdsplit_parse_elf_def intro!: halts_bind split: sum.split)
qed

lemma fit_loop_halts: "split_ok m \<Longrightarrow> halts (fit_loop m off hdr)"
proof (induction "unat (sm_size m) - unat off" arbitrary: off hdr rule: less_induct)
  case less
  show ?case
  proof (cases "off + 40 \<le> sm_size m \<and> (\<exists>h. read_exact m off 40 = Inr h)")
    case True
    then obtain h where h: "read_exact m off 40 = Inr h" by blast
    have "off < sm_size m" by (rule read_exact_inside(1) [OF less.prems h])
    from less.hyps [OF eb_step [OF less.prems this] less.prems] True h show ?thesis
      by (subst fit_loop.simps) simp
  next
    case False
    then show ?thesis by (subst fit_loop.simps) (auto split: sum.split)
  qed
qed

text \<open>If the flash has room for a header, the loop of the FIT parser ends with one.\<close>

lemma fit_loop_header:
  assumes "fit_loop m off hdr = Some (Inr (o', h))" and "hdr \<noteq> None \<or> off + 40 \<le> sm_size m"
  shows "h \<noteq> None"
proof -
  have "case res of Inl _ \<Rightarrow> True | Inr (o', h) \<Rightarrow> hdr \<noteq> None \<or> off + 40 \<le> sm_size m \<longrightarrow> h \<noteq> None"
    if "fit_loop m off hdr = Some res" for res
    using that
    by (rule fit_loop.raw_induct [rotated]) (fastforce split: if_splits sum.splits)
  from this [OF assms(1)] assms(2) show ?thesis by auto
qed

lemma halts_seama: "split_ok m \<Longrightarrow> halts (mtdsplit_parse_seama m)"
  by (auto simp: mtdsplit_parse_seama_def Let_def find_rootfs_halts split: sum.split)

lemma halts_tplink: "split_ok m \<Longrightarrow> halts (mtdsplit_parse_tplink m)"
  by (auto simp: mtdsplit_parse_tplink_def Let_def find_rootfs_halts split: sum.split option.split)

lemma halts_eva: "halts (mtdsplit_parse_eva m)"
  by (auto simp: mtdsplit_parse_eva_def Let_def split: sum.split)

lemma halts_brnimage: "split_ok m \<Longrightarrow> halts (mtdsplit_parse_brnimage m)"
  by (auto simp: mtdsplit_parse_brnimage_def intro!: halts_bind brnimage_loop_halts)

lemma halts_fit:
  assumes ok: "split_ok m" and sz: "40 \<le> sm_size m"
  shows "halts (mtdsplit_fit_parse m)"
proof -
  from fit_loop_halts [OF ok, of 0 None] obtain res where r: "fit_loop m 0 None = Some res" by (auto simp: returns_iff)
  show ?thesis
  proof (cases res)
    case (Inl err)
    then show ?thesis by (simp add: mtdsplit_fit_parse_def r)
  next
    case (Inr x)
    obtain o' h where x: "x = (o', h)" by (cases x)
    from r Inr x fit_loop_header [of m 0 None o' h] sz obtain hdr where "h = Some hdr" by auto
    then show ?thesis by (simp add: mtdsplit_fit_parse_def r Inr x Let_def find_rootfs_halts [OF ok])
  qed
qed

lemma halts_trx: "split_ok m \<Longrightarrow> halts (mtdsplit_parse_trx m)"
  by (auto simp: mtdsplit_parse_trx_def intro!: halts_bind image_scan_halts)

lemma halts_place_parts: "split_ok m \<Longrightarrow> halts (place_parts m off sz)"
  by (simp add: place_parts_def find_rootfs_halts)

lemma halts_uimage: "split_ok m \<Longrightarrow> halts (mtdsplit_parse_uimage m np)"
  by (auto simp: mtdsplit_parse_uimage_def halts_place_parts intro!: halts_bind image_scan_halts split: option.split)

lemma halts_jimage: "split_ok m \<Longrightarrow> halts (mtdsplit_parse_jimage m)"
  by (auto simp: mtdsplit_parse_jimage_def halts_place_parts intro!: halts_bind image_scan_halts split: option.split)

lemmas parsers_halt =
  lzma.total minor.total wrgg.total elf.total halts_seama halts_tplink halts_eva halts_brnimage
  halts_trx halts_uimage halts_jimage

section \<open>Partitions of the other parsers\<close>

lemma find_rootfs_behind:
  assumes "split_ok m" and "mtd_find_rootfs_from m start (sm_size m) = Some (Inr (r, type))"
  shows "start \<le> r"
  using mtd_find_rootfs_from_returns [OF assms(1), of "sm_size m" start] assms(2)
  by (auto simp: first_rootfs_def tried_def word_le_nat_alt)

text \<open>Seama: the two partitions tile the flash from the end of the header on.\<close>

lemma seama_tiling:
  assumes ok: "split_ok m" and p: "mtdsplit_parse_seama m = Some (Inr ps)"
  shows "\<exists>hdr. read_exact m 0 28 = Inr hdr \<and> tiles ps (28 + unat (of_be16 (drop 6 hdr))) (unat (sm_size m))"
proof -
  from p obtain hdr where h: "read_exact m 0 28 = Inr hdr"
    by (auto simp: mtdsplit_parse_seama_def)
  define meta :: u64 where "meta = ucast (of_be16 (drop 6 hdr))"
  define ent :: u64 where "ent = 28 + ucast (of_be32 (drop 8 hdr)) + meta"
  have m16: "unat (of_be16 (drop 6 hdr)) < 2 ^ 16" using unsigned_less [of "of_be16 (drop 6 hdr)"] by simp
  then have meta: "unat meta = unat (of_be16 (drop 6 hdr))" by (simp add: meta_def unat_ucast_mod)
  have start: "unat (28 + meta) = 28 + unat meta" using m16 meta by (simp add: unat_word_ariths)
  have ent: "unat ent = 28 + unat (of_be32 (drop 8 hdr)) + unat meta"
    using m16 meta unat_u32_less [of "of_be32 (drop 8 hdr)"] by (simp add: ent_def unat_word_ariths)
  from p h obtain r type where ps: "ps = [part KERNEL_PART_NAME (28 + meta) (r - (28 + meta)),
        part (rootfs_name type) r (sm_size m - r)]"
    and r: "r = ent \<and> mtd_check_rootfs_magic m r = Inr type \<or>
        mtd_find_rootfs_from m SEAMA_MIN_ROOTFS_OFFS (sm_size m) = Some (Inr (r, type))"
    by (auto simp: mtdsplit_parse_seama_def Let_def meta_def [symmetric] ent_def [symmetric]
        split: if_splits sum.splits)
  have "28 + meta \<le> r \<and> r < sm_size m"
  proof (cases "r = ent \<and> mtd_check_rootfs_magic m r = Inr type")
    case True
    then show ?thesis using check_magic_inside [OF ok] start ent by (auto simp: word_le_nat_alt)
  next
    case False
    with r have f: "mtd_find_rootfs_from m SEAMA_MIN_ROOTFS_OFFS (sm_size m) = Some (Inr (r, type))" by blast
    from find_rootfs_behind [OF ok f] have "524288 \<le> unat r" by (simp add: SEAMA_MIN_ROOTFS_OFFS_def word_le_nat_alt)
    then show ?thesis using find_rootfs_sound [OF f] start meta m16 by (simp add: word_le_nat_alt)
  qed
  then have "tiles ps (28 + unat meta) (unat (sm_size m))"
    using start by (simp add: ps unat_sub word_le_nat_alt word_less_nat_alt)
  with h meta show ?thesis by auto
qed

text \<open>
  The search for an image ends at one that fits into the flash, or behind the end of the flash.
\<close>

lemma image_scan_result:
  assumes "image_scan m f off seen = Some (o', found)"
  shows "(\<exists>sz hdr. found = Some (sz, hdr) \<and> f o' = Some (sz, hdr) \<and> o' < sm_size m \<and> o' + sz \<le> sm_size m) \<or>
    sm_size m \<le> o'"
proof -
  have "case res of (o', found) \<Rightarrow>
      (\<exists>sz hdr. found = Some (sz, hdr) \<and> f o' = Some (sz, hdr) \<and> o' < sm_size m \<and> o' + sz \<le> sm_size m) \<or> sm_size m \<le> o'"
    if "image_scan m f off seen = Some res" for res
    using that
    by (rule image_scan.raw_induct [rotated]) (fastforce split: if_splits option.splits)
  from this [OF assms] show ?thesis by simp
qed

text \<open>
  Where uImage and jImage put their partitions: the image first and the root file system behind it,
  together the whole flash; or the root file system first and the image behind it, in the flash or
  behind its end.
\<close>

definition image_parts :: "split_mtd \<Rightarrow> mtd_partition list \<Rightarrow> bool" where
  "image_parts m ps \<longleftrightarrow>
     part_name (ps ! 0) = KERNEL_PART_NAME \<and> tiles ps 0 (unat (sm_size m)) \<or>
     (\<exists>n off sz. ps = [part n 0 off, part KERNEL_PART_NAME off sz] \<and>
        (\<exists>type. mtd_check_rootfs_magic m 0 = Inr type) \<and>
        (off < sm_size m \<and> off + sz \<le> sm_size m \<or> sm_size m \<le> off))"

lemma place_parts_image:
  assumes "image_scan m f 0 None = Some (off, Some (sz, hdr))" and p: "place_parts m off sz = Some (Inr ps)"
  shows "image_parts m ps"
proof (cases "off = 0")
  case True
  with p obtain r type where f: "mtd_find_rootfs_from m sz (sm_size m) = Some (Inr (r, type))"
    and ps: "ps = [part KERNEL_PART_NAME 0 r, part (rootfs_name type) r (sm_size m - r)]"
    by (auto simp: place_parts_def split: if_splits)
  from find_rootfs_sound [OF f] have "r < sm_size m" by simp
  then show ?thesis by (simp add: image_parts_def ps unat_sub word_less_nat_alt word_le_nat_alt)
next
  case False
  with p obtain type where "mtd_check_rootfs_magic m 0 = Inr type"
    and "ps = [part (rootfs_name type) 0 off, part KERNEL_PART_NAME off sz]"
    by (auto simp: place_parts_def split: sum.splits)
  moreover have "off < sm_size m \<and> off + sz \<le> sm_size m \<or> sm_size m \<le> off"
    using image_scan_result [OF assms(1)] by auto
  ultimately show ?thesis unfolding image_parts_def by blast
qed

lemma image_parser_parts:
  assumes "image_scan m f 0 None \<bind> (\<lambda>(off, found). case found of
      None \<Rightarrow> Some (Inl (- ENODEV))
    | Some (sz, hdr) \<Rightarrow> if sz = 0 then Some (Inl (- ENODEV)) else place_parts m off sz) = Some (Inr ps)"
  shows "image_parts m ps"
proof -
  from assms obtain off sz hdr where "image_scan m f 0 None = Some (off, Some (sz, hdr))"
    and "place_parts m off sz = Some (Inr ps)"
    by (auto simp: Option.bind_eq_Some_conv split: if_splits)
  then show ?thesis by (rule place_parts_image)
qed

lemma uimage_parts: "mtdsplit_parse_uimage m np = Some (Inr ps) \<Longrightarrow> image_parts m ps"
  by (rule image_parser_parts [of m "uimage_at m (uimage_parse_dt np)"])
    (simp add: mtdsplit_parse_uimage_def split: if_splits)

lemma jimage_parts: "mtdsplit_parse_jimage m = Some (Inr ps) \<Longrightarrow> image_parts m ps"
  by (rule image_parser_parts [of m "jimage_at m"])
    (simp add: mtdsplit_parse_jimage_def split: if_splits)

section \<open>The data behind a squashfs\<close>

lemma unat_roundup:
  assumes "split_ok m" and "unat x + unat (sm_erasesize m) \<le> 2 ^ 32"
  shows "unat x \<le> unat (mtd_roundup_to_eb x m)" and "unat (mtd_roundup_to_eb x m) < unat x + unat (sm_erasesize m)"
    and "unat (sm_erasesize m) dvd unat (mtd_roundup_to_eb x m)"
proof -
  let ?e = "unat (sm_erasesize m)" and ?q = "unat x div unat (sm_erasesize m)" and ?u = "unat (mtd_roundup_to_eb x m)"
  have e: "0 < ?e" using assms(1) by (simp add: split_ok_def)
  have "unat x \<le> ?u \<and> ?u < unat x + ?e \<and> ?e dvd ?u"
  proof (cases "unat x mod ?e = 0")
    case True
    then show ?thesis using e mod_by_eb_0 [OF assms(1), of x] by (auto simp: mtd_roundup_to_eb_def)
  next
    case False
    have x: "unat x = ?q * ?e + unat x mod ?e" by (rule div_mult_mod_eq [symmetric])
    have lt: "unat x mod ?e < ?e" using e by (rule mod_less_divisor)
    have le: "?q * ?e + ?e < 2 ^ 32" using assms(2) False x by linarith
    have "?q * 1 \<le> ?q * ?e" using e by (intro mult_le_mono2) simp
    then have q: "?q + 1 < 2 ^ 32" using le e by linarith
    then have d: "unat (mtd_div_by_eb m x) = ?q"
      using assms(1) by (simp add: split_ok_def unat_ucast_mod unat_div_distrib)
    then have "unat (mtd_div_by_eb m x + 1) = ?q + 1" using q by (simp add: unat_word_ariths)
    moreover have "(?q + 1) * ?e = ?q * ?e + ?e" by simp
    ultimately have "unat ((mtd_div_by_eb m x + 1) * sm_erasesize m) = ?q * ?e + ?e"
      using le by (simp only: unat_word_ariths(2)) simp
    then have u: "?u = ?q * ?e + ?e" using False mod_by_eb_0 [OF assms(1), of x] by (simp add: mtd_roundup_to_eb_def)
    have "unat x \<le> ?u" unfolding u using x lt by linarith
    moreover have "?u < unat x + ?e" unfolding u using x False by linarith
    moreover have "?e dvd ?u" unfolding u by simp
    ultimately show ?thesis by blast
  qed
  then show "unat x \<le> ?u" "?u < unat x + ?e" "?e dvd ?u" by auto
qed

lemma squashfs_len_bound:
  "mtd_get_squashfs_len m 0 = Inr len \<Longrightarrow> 0 < unat len \<and> unat len \<le> unat (sm_size m)"
  by (auto simp: mtd_get_squashfs_len_def Let_def word_le_nat_alt not_less unat_gt_0 split: prod.splits if_splits)

text \<open>
  The partition for data lies in the partition of the root file system, behind the squashfs, and
  consists of whole erase blocks of the flash.
\<close>

lemma squashfs_data:
  assumes ok: "split_ok m" "split_ok parent" and e: "sm_erasesize parent = sm_erasesize m"
    and fit: "unat start + unat (sm_size m) + unat (sm_erasesize m) \<le> 2 ^ 32"
    and al: "unat (sm_erasesize m) dvd unat start + unat (sm_size m)"
    and p: "mtdsplit_parse_squashfs m parent start = Inr ps"
  shows "\<exists>len p. mtd_get_squashfs_len m 0 = Inr len \<and> ps = [p] \<and> part_name p = ROOTFS_SPLIT_NAME \<and>
    unat len \<le> unat (part_offset p) \<and> unat (part_offset p) + unat (part_size p) = unat (sm_size m) \<and>
    unat (sm_erasesize m) dvd unat start + unat (part_offset p) \<and> unat (sm_erasesize m) dvd unat (part_size p)"
proof -
  let ?e = "unat (sm_erasesize m)"
  from p obtain len where l: "mtd_get_squashfs_len m 0 = Inr len"
    and ps: "ps = [part ROOTFS_SPLIT_NAME (mtd_roundup_to_eb (start + len) parent - start)
        (mtd_rounddown_to_eb (sm_size m - (mtd_roundup_to_eb (start + len) parent - start)) m)]"
    by (auto simp: mtdsplit_parse_squashfs_def Let_def split: sum.splits if_splits)
  note lb = squashfs_len_bound [OF l]
  have sl: "unat (start + len) = unat start + unat len"
    using lb fit by (simp add: unat_word_ariths)
  define u where "u = mtd_roundup_to_eb (start + len) parent"
  have u: "unat start + unat len \<le> unat u" "unat u < unat start + unat len + ?e" "?e dvd unat u"
    using unat_roundup [OF ok(2), of "start + len"] lb fit by (simp_all add: u_def e sl)
  have top: "unat u \<le> unat start + unat (sm_size m)"
  proof -
    from al obtain k where k: "unat start + unat (sm_size m) = ?e * k" by (auto simp: dvd_def)
    from u(3) obtain j where j: "unat u = ?e * j" by (auto simp: dvd_def)
    have "?e * j < ?e * (k + 1)" using u(2) lb k j by (simp add: algebra_simps)
    then have "j < k + 1" by (simp only: mult_less_cancel1)
    then have "j \<le> k" by simp
    then show ?thesis unfolding k j by (rule mult_le_mono2)
  qed
  have off: "unat (u - start) = unat u - unat start" using u(1) by (simp add: unat_sub word_le_nat_alt)
  then have rest: "unat (sm_size m - (u - start)) = unat start + unat (sm_size m) - unat u"
    using top u(1) by (simp add: unat_sub word_le_nat_alt)
  have dv: "?e dvd unat start + unat (sm_size m) - unat u" using al u(3) by simp
  have "unat (mtd_rounddown_to_eb (sm_size m - (u - start)) m) = unat start + unat (sm_size m) - unat u"
  proof -
    have "0 < ?e" using ok(1) by (simp add: split_ok_def)
    then have "unat start + unat (sm_size m) - unat u < 2 ^ 32" using fit by linarith
    with unat_rounddown [OF ok(1), of "sm_size m - (u - start)"] rest dv show ?thesis by simp
  qed
  with l ps off u top dv show ?thesis by (auto simp: u_def [symmetric])
qed

section \<open>A parser that may not return\<close>

text \<open>
  The search for the end of the boot file system does not end if it comes to a node after which it
  does not advance.
\<close>

lemma cfe_bootfs_end_stuck:
  assumes "read_exact m off 40 = Inr node" and "cpu16 m node 0 = JFFS2_MAGIC_BITMASK" and "off < sm_size m"
    and "(off + ucast (cpu32 m node 4) + 3) AND NOT 3 = off"
  shows "cfe_bootfs_end m off = None"
proof -
  have "\<not> (m' = m \<and> off' = off)" if "cfe_bootfs_end m' off' = Some y" for m' off' y
    using that
    by (rule cfe_bootfs_end.raw_induct [rotated]) (use assms in \<open>fastforce simp: Let_def split: if_splits sum.splits\<close>)
  then show ?thesis by (cases "cfe_bootfs_end m off") auto
qed

end
