(* ===== verification/Mtdsplit_Wfi.thy ===== *)
theory Mtdsplit_Wfi
  imports Mtdsplit
begin

text \<open>
  The parsers for Broadcom whole flash images (\<open>mtdsplit_bcm_wfi.c\<close>): a JFFS2 file system with the
  kernel in it, followed by UBI; for one image, for two images chosen by the number in the name of
  \<open>cferam\<close>, and for two images chosen by Sercomm boot flags.

  A directory entry of JFFS2 has \<open>magic\<close>, \<open>nodetype\<close>, \<open>totlen\<close>, \<open>ino\<close>, \<open>nsize\<close>, \<open>node_crc\<close> and
  \<open>name\<close> at 0, 2, 4, 20, 28, 32 and 40. The entries are read from a buffer that holds one erase
  block; an access past its end is undefined, hence \<open>None\<close>. \<open>crc\<close> is the kernel's \<open>crc32\<close>. Offsets
  are \<open>loff_t\<close>, hence signed in comparisons.
\<close>

section \<open>JFFS2\<close>

definition JFFS2_MAGIC :: u16 where "JFFS2_MAGIC = 0x1985"
definition JFFS2_NODETYPE_DIRENT :: u16 where "JFFS2_NODETYPE_DIRENT = 0xE001"

definition CFERAM_NAME :: bytes where "CFERAM_NAME = [0x63, 0x66, 0x65, 0x72, 0x61, 0x6d]"
definition KERNEL_NAME :: bytes where
  "KERNEL_NAME = [0x76, 0x6d, 0x6c, 0x69, 0x6e, 0x75, 0x78, 0x2e, 0x6c, 0x7a]"
definition OPENWRT_NAME :: bytes where
  "OPENWRT_NAME = [0x31, 0x2d, 0x6f, 0x70, 0x65, 0x6e, 0x77, 0x72, 0x74]"
definition CFERAM_NAME_MAX_LEN :: nat where "CFERAM_NAME_MAX_LEN = 32"
definition UBI_MAGIC :: u32 where "UBI_MAGIC = 0x55424923"

definition buf16 :: "split_mtd \<Rightarrow> bytes \<Rightarrow> nat \<Rightarrow> u16 option" where
  "buf16 m buf off = map_option (\<lambda>b. cpu16 m b 0) (mem_read buf off 2)"

definition buf32 :: "split_mtd \<Rightarrow> bytes \<Rightarrow> nat \<Rightarrow> u32 option" where
  "buf32 m buf off = map_option (\<lambda>b. cpu32 m b 0) (mem_read buf off 4)"

definition jffs2_dirent_crc :: "crc_fn \<Rightarrow> bytes \<Rightarrow> nat \<Rightarrow> u32 option" where
  "jffs2_dirent_crc crc buf off = map_option (crc 0) (mem_read buf off 32)"

definition jffs2_dirent_valid :: "crc_fn \<Rightarrow> split_mtd \<Rightarrow> bytes \<Rightarrow> nat \<Rightarrow> bool option" where
  "jffs2_dirent_valid crc m buf off =
     do {
       magic \<leftarrow> buf16 m buf off;
       if magic \<noteq> JFFS2_MAGIC then Some False
       else do {
         nodetype \<leftarrow> buf16 m buf (off + 2);
         if nodetype \<noteq> JFFS2_NODETYPE_DIRENT then Some False
         else do {
           ino \<leftarrow> buf32 m buf (off + 20);
           if ino = 0 then Some False
           else do {
             node_crc \<leftarrow> buf32 m buf (off + 32);
             sum \<leftarrow> jffs2_dirent_crc crc buf off;
             Some (node_crc = sum)
           }
         }
       }
     }"

text \<open>\<open>kstrndup\<close>: up to \<open>n\<close> bytes, less if there is a terminator before.\<close>

definition kstrndup :: "bytes \<Rightarrow> nat \<Rightarrow> nat \<Rightarrow> bytes option" where
  "kstrndup buf off n =
     (let s = takeWhile (\<lambda>b. b \<noteq> 0) (take n (drop off buf)) in
      if length s = n \<or> off + length s < length buf then Some s else None)"

text \<open>
  What the caller of the search gets of the entry: \<open>None\<close> if it did not ask, else the copy of the
  name, \<open>None\<close> if there was no memory for it, and the length in the entry. \<open>out\<close> is what it asks
  for, with whether the allocation succeeds.
\<close>

type_synonym file_name = "(bytes option \<times> u8) option"

definition out_file_name :: "bytes \<Rightarrow> nat \<Rightarrow> bool option \<Rightarrow> file_name option" where
  "out_file_name buf off out =
     (case out of
        None \<Rightarrow> Some None
      | Some alloc \<Rightarrow>
          do {
            nsize \<leftarrow> arr_get buf (off + 28);
            name \<leftarrow> kstrndup buf (off + 40) (unat nsize);
            Some (Some (if alloc then Some name else None, nsize))
          })"

text \<open>
  What a block tells: nothing (with whether the marker of OpenWrt has been seen), or the end of the
  search.
\<close>

datatype block_scan = Scan_on bool | Scan_end "int + file_name"

partial_function (option) scan_block ::
  "crc_fn \<Rightarrow> split_mtd \<Rightarrow> bytes \<Rightarrow> bytes \<Rightarrow> bool option \<Rightarrow> u32 \<Rightarrow> bool \<Rightarrow> block_scan option" where
  "scan_block crc m buf name out block_offs valid =
     (if block_offs < sm_erasesize m then
        do {
          let off = unat block_offs;
          ok \<leftarrow> jffs2_dirent_valid crc m buf off;
          if \<not> ok then scan_block crc m buf name out (block_offs + 4) valid
          else do {
            marker \<leftarrow> mem_read buf (off + 40) (length OPENWRT_NAME);
            totlen \<leftarrow> buf32 m buf (off + 4);
            let next_offs = (block_offs + totlen + 3) AND NOT 3;
            if marker = OPENWRT_NAME then scan_block crc m buf name out next_offs True
            else do {
              entry \<leftarrow> mem_read buf (off + 40) (length name);
              if entry = name then
                if \<not> valid then Some (Scan_end (Inl (- EINVAL)))
                else do {
                  file_name \<leftarrow> out_file_name buf off out;
                  Some (Scan_end (Inr file_name))
                }
              else scan_block crc m buf name out next_offs valid
            }
          }
        }
      else Some (Scan_on valid))"

declare scan_block.simps [code]

text \<open>The offset the search ends at is stored through \<open>offs\<close>, also when it fails.\<close>

partial_function (option) jffs2_find_loop ::
  "crc_fn \<Rightarrow> split_mtd \<Rightarrow> bytes \<Rightarrow> bool option \<Rightarrow> u64 \<Rightarrow> u64 \<Rightarrow> bool \<Rightarrow> ((int + file_name) \<times> u64) option" where
  "jffs2_find_loop crc m name out offs limit valid =
     (if word_sless offs limit then
        (case read_exact m offs 2 of
           Inl _ \<Rightarrow> jffs2_find_loop crc m name out (offs + ucast (sm_erasesize m)) limit valid
         | Inr magic \<Rightarrow>
             if cpu16 m magic 0 \<noteq> JFFS2_MAGIC
             then jffs2_find_loop crc m name out (offs + ucast (sm_erasesize m)) limit valid
             else let (rc, buf) = mtd_read m offs (unat (sm_erasesize m)) in
               if rc \<noteq> 0 then Some (Inl rc, offs)
               else if length buf \<noteq> unat (sm_erasesize m) then Some (Inl (- EINVAL), offs)
               else do {
                 r \<leftarrow> scan_block crc m buf name out 0 valid;
                 case r of
                   Scan_on valid \<Rightarrow> jffs2_find_loop crc m name out (offs + ucast (sm_erasesize m)) limit valid
                 | Scan_end res \<Rightarrow> Some (res, offs)
               })
      else Some (Inl (- ENOENT), offs))"

declare jffs2_find_loop.simps [code]

definition jffs2_find_file ::
  "crc_fn \<Rightarrow> split_mtd \<Rightarrow> bytes \<Rightarrow> bool option \<Rightarrow> u64 \<Rightarrow> u64 \<Rightarrow> ((int + file_name) \<times> u64) option" where
  "jffs2_find_file crc m name out offs sz = jffs2_find_loop crc m name out offs (offs + sz) False"

partial_function (option) ubifs_find_loop :: "split_mtd \<Rightarrow> u64 \<Rightarrow> u64 \<Rightarrow> (int \<times> u64) option" where
  "ubifs_find_loop m offs limit =
     (if word_sless offs limit then
        (case read_exact m offs 4 of
           Inl _ \<Rightarrow> ubifs_find_loop m (offs + ucast (sm_erasesize m)) limit
         | Inr magic \<Rightarrow>
             if of_be32 magic = UBI_MAGIC then Some (0, offs)
             else ubifs_find_loop m (offs + ucast (sm_erasesize m)) limit)
      else Some (- ENOENT, offs))"

declare ubifs_find_loop.simps [code]

definition ubifs_find :: "split_mtd \<Rightarrow> u64 \<Rightarrow> u64 \<Rightarrow> (int \<times> u64) option" where
  "ubifs_find m offs sz = ubifs_find_loop m offs (offs + sz)"

section \<open>One image\<close>

definition PART_CFERAM :: string where "PART_CFERAM = ''cferam''"
definition PART_FIRMWARE :: string where "PART_FIRMWARE = ''firmware''"
definition PART_IMAGE_1 :: string where "PART_IMAGE_1 = ''img1''"
definition PART_IMAGE_2 :: string where "PART_IMAGE_2 = ''img2''"
definition MTD_WRITEABLE :: u32 where "MTD_WRITEABLE = 0x400"

text \<open>
  The name that is searched, from the property \<open>brcm,cferam\<close> (without its terminator) or the
  default; the last character is dropped.
\<close>

definition cferam_search_name :: "bytes option \<Rightarrow> bytes" where
  "cferam_search_name prop =
     (let name = (case prop of None \<Rightarrow> CFERAM_NAME | Some n \<Rightarrow> n);
          len = min (length name) CFERAM_NAME_MAX_LEN
      in take (if len > 0 then len - 1 else len) name)"

text \<open>\<open>prop\<close> is the property of the node, \<open>None\<close> if there is none; \<open>n\<close> numbers the allocation.\<close>

definition parse_bcm_wfi ::
  "crc_fn \<Rightarrow> split_mtd \<Rightarrow> bytes option \<Rightarrow> nat \<Rightarrow> u64 \<Rightarrow> u64 \<Rightarrow> bool \<Rightarrow> parse_result" where
  "parse_bcm_wfi crc m prop n off sz cfe_part =
     (let es = ucast (sm_erasesize m) in
      do {
        (ret, cfe_off) \<leftarrow> (if cfe_part
          then jffs2_find_file crc m (cferam_search_name prop) None off sz
          else Some (Inr None, off));
        case ret of
          Inl err \<Rightarrow> Some (Inl err)
        | Inr _ \<Rightarrow>
            do {
              let kernel_off = (if cfe_part then cfe_off + es else off);
              (ret, kernel_off) \<leftarrow> jffs2_find_file crc m KERNEL_NAME None kernel_off (sz - (kernel_off - off));
              case ret of
                Inl err \<Rightarrow> Some (Inl err)
              | Inr _ \<Rightarrow>
                  do {
                    let rootfs_off = kernel_off + es;
                    (ret, rootfs_off) \<leftarrow> ubifs_find m rootfs_off (sz - (rootfs_off - off));
                    Some (
                      if ret \<noteq> 0 then Inl ret
                      else if \<not> kzalloc_ok m n then Inl (- ENOMEM)
                      else Inr (
                        (if cfe_part
                         then [(part PART_CFERAM cfe_off (kernel_off - cfe_off))\<lparr>part_mask_flags := MTD_WRITEABLE\<rparr>]
                         else []) @
                        [part PART_FIRMWARE kernel_off (sz - (kernel_off - off)),
                         part KERNEL_PART_NAME kernel_off (rootfs_off - kernel_off),
                         part UBI_PART_NAME rootfs_off (sz - (rootfs_off - off))]))
                  }
            }
      })"

text \<open>The node of the device tree: the property \<open>brcm,cferam\<close>, and whether there is \<open>brcm,no-cferam\<close>.\<close>

definition mtdsplit_parse_bcm_wfi :: "crc_fn \<Rightarrow> split_mtd \<Rightarrow> (bytes option \<times> bool) option \<Rightarrow> parse_result" where
  "mtdsplit_parse_bcm_wfi crc m np =
     (case np of
        None \<Rightarrow> Some (Inl (- EINVAL))
      | Some (prop, no_cferam) \<Rightarrow>
          if \<not> kzalloc_ok m 0 then Some (Inl (- ENOMEM))
          else parse_bcm_wfi crc m prop 1 0 (sm_size m) (\<not> no_cferam))"

section \<open>Two images\<close>

definition char_to_num :: "u8 \<Rightarrow> int" where
  "char_to_num c = (if c \<ge> 0x30 \<and> c \<le> 0x39 then uint c - 0x30 else 0)"

definition CFE_MAGIC_PFX :: bytes where "CFE_MAGIC_PFX = [0x63, 0x66, 0x65, 0x72, 0x61, 0x6d, 0x2e]"
definition CFE_MAGIC_LEN :: nat where "CFE_MAGIC_LEN = 10"
definition SERCOMM_MAGIC_PFX :: bytes where "SERCOMM_MAGIC_PFX = [0x65, 0x52, 0x63, 0x4f, 0x6d, 0x4d, 0x2e]"
definition SERCOMM_MAGIC_LEN :: nat where "SERCOMM_MAGIC_LEN = 10"

definition three_digits :: "bytes \<Rightarrow> nat \<Rightarrow> int option" where
  "three_digits s i =
     do {
       a \<leftarrow> arr_get s i;
       b \<leftarrow> arr_get s (i + 1);
       c \<leftarrow> arr_get s (i + 2);
       Some (char_to_num a * 100 + char_to_num b * 10 + char_to_num c)
     }"

text \<open>
  The copy of the name ends with a terminator; its length is that of the entry, which may be more.
\<close>

definition cferam_bootflag_value :: "bytes option \<Rightarrow> nat \<Rightarrow> int option" where
  "cferam_bootflag_value name name_len =
     (case name of
        None \<Rightarrow> Some (- ENOENT)
      | Some name \<Rightarrow>
          if name_len < CFE_MAGIC_LEN then Some (- ENOENT)
          else do {
            pfx \<leftarrow> mem_read (name @ [0]) 0 7;
            if pfx \<noteq> CFE_MAGIC_PFX then Some (- ENOENT) else three_digits (name @ [0]) 7
          })"

definition found_bootflag :: "int + file_name \<Rightarrow> int option" where
  "found_bootflag res =
     (case res of
        Inr (Some (name, nsize)) \<Rightarrow> cferam_bootflag_value name (unat nsize)
      | _ \<Rightarrow> cferam_bootflag_value None 0)"

text \<open>
  The end both parsers for two images have, with the value they return and the partitions they
  store: the partitions of the active image and the whole inactive one; or, if the active image
  could not be parsed, both images, with the error code of the failure.
\<close>

definition finish_split ::
  "split_mtd \<Rightarrow> nat \<Rightarrow> bool \<Rightarrow> int + mtd_partition list \<Rightarrow> (int \<times> mtd_partition list option) option" where
  "finish_split m n first res =
     (let img2_off = sm_size m div 2;
          img1 = part PART_IMAGE_1 0 img2_off; img2 = part PART_IMAGE_2 img2_off (sm_size m - img2_off) in
      case res of
        Inr parts \<Rightarrow>
          if \<not> kzalloc_ok m n then Some (- ENOMEM, Some parts)
          else Some (int (length parts) + 1, Some (parts @ [if first then img2 else img1]))
      | Inl err \<Rightarrow> if \<not> kzalloc_ok m n then None else Some (err, Some [img1, img2]))"

definition parse_active ::
  "crc_fn \<Rightarrow> split_mtd \<Rightarrow> bytes option \<Rightarrow> nat \<Rightarrow> bool \<Rightarrow> bool \<Rightarrow> parse_result" where
  "parse_active crc m prop n first cfe_part =
     (let img2_off = sm_size m div 2 in
      if first then parse_bcm_wfi crc m prop n 0 img2_off cfe_part
      else parse_bcm_wfi crc m prop n img2_off (sm_size m - img2_off) cfe_part)"

definition mtdsplit_parse_bcm_wfi_split ::
  "crc_fn \<Rightarrow> split_mtd \<Rightarrow> bytes option \<Rightarrow> (int \<times> mtd_partition list option) option" where
  "mtdsplit_parse_bcm_wfi_split crc m prop =
     (if \<not> kzalloc_ok m 0 then Some (- ENOMEM, None)
      else do {
        let img2_off = sm_size m div 2;
        (cfe1, _) \<leftarrow> jffs2_find_file crc m CFERAM_NAME (Some (kzalloc_ok m 1)) 0 img2_off;
        (cfe2, _) \<leftarrow> jffs2_find_file crc m CFERAM_NAME (Some (kzalloc_ok m 2)) img2_off (sm_size m - img2_off);
        bf1 \<leftarrow> found_bootflag cfe1;
        bf2 \<leftarrow> found_bootflag cfe2;
        res \<leftarrow> parse_active crc m prop 3 (bf1 \<ge> bf2) True;
        finish_split m 4 (bf1 \<ge> bf2) res
      })"

partial_function (option) sercomm_bootflag_loop :: "split_mtd \<Rightarrow> u64 \<Rightarrow> int option" where
  "sercomm_bootflag_loop m offs =
     (if offs < sm_size m then
        (case read_exact m offs SERCOMM_MAGIC_LEN of
           Inl _ \<Rightarrow> sercomm_bootflag_loop m (offs + ucast (sm_erasesize m))
         | Inr buf \<Rightarrow>
             if take 7 buf \<noteq> SERCOMM_MAGIC_PFX
             then sercomm_bootflag_loop m (offs + ucast (sm_erasesize m))
             else three_digits buf 7)
      else Some (- ENOENT))"

declare sercomm_bootflag_loop.simps [code]

definition sercomm_bootflag_value :: "split_mtd \<Rightarrow> int option" where
  "sercomm_bootflag_value m = sercomm_bootflag_loop m 0"

text \<open>
  \<open>bf1\<close> and \<open>bf2\<close> are the devices with the boot flags, \<open>None\<close> if there is no such device. The last
  result is whether the second one is erased.
\<close>

definition mtdsplit_parse_ser_wfi ::
  "crc_fn \<Rightarrow> split_mtd \<Rightarrow> bytes option \<Rightarrow> split_mtd option \<Rightarrow> split_mtd option
     \<Rightarrow> (int \<times> mtd_partition list option \<times> bool) option" where
  "mtdsplit_parse_ser_wfi crc m prop mtd_bf1 mtd_bf2 =
     (case (mtd_bf1, mtd_bf2) of
        (Some m1, Some m2) \<Rightarrow>
          if \<not> kzalloc_ok m 0 then Some (- ENOMEM, None, False)
          else do {
            bf1 \<leftarrow> sercomm_bootflag_value m1;
            bf2 \<leftarrow> sercomm_bootflag_value m2;
            let erase = (bf1 = bf2 \<and> bf2 \<ge> 0);
            let bf2 = (if erase then - ENOENT else bf2);
            res \<leftarrow> parse_active crc m prop 1 (bf1 \<ge> bf2) False;
            (ret, parts) \<leftarrow> finish_split m 2 (bf1 \<ge> bf2) res;
            Some (ret, parts, erase)
          }
      | _ \<Rightarrow> Some (- ENOENT, None, False))"

section \<open>What is found\<close>

lemma case_block_scan_eq:
  "(case r of Scan_on v \<Rightarrow> f v | Scan_end e \<Rightarrow> g e) = z
     \<longleftrightarrow> (\<exists>v. r = Scan_on v \<and> f v = z) \<or> (\<exists>e. r = Scan_end e \<and> g e = z)"
  by (cases r) auto

lemma jffs2_find_sound:
  assumes "jffs2_find_file crc m name out offs sz = Some (Inr x, offs')"
  shows "word_sless offs' (offs + sz) \<and> (\<exists>b. read_exact m offs' 2 = Inr b \<and> cpu16 m b 0 = JFFS2_MAGIC)"
proof -
  have "case res of (Inl _, _) \<Rightarrow> True
      | (Inr _, offs') \<Rightarrow> word_sless offs' limit \<and> (\<exists>b. read_exact m offs' 2 = Inr b \<and> cpu16 m b 0 = JFFS2_MAGIC)"
    if "jffs2_find_loop crc m name out offs limit valid = Some res" for limit valid res
    using that
    by (rule jffs2_find_loop.raw_induct [rotated])
      (fastforce simp: Let_def Option.bind_eq_Some_conv case_block_scan_eq
        split: if_split_asm sum.split_asm sum.split prod.split_asm prod.split)
  from this [of "offs + sz" False "(Inr x, offs')"] assms show ?thesis by (simp add: jffs2_find_file_def)
qed

lemma ubifs_find_sound:
  assumes "ubifs_find m offs sz = Some (0, offs')"
  shows "word_sless offs' (offs + sz) \<and> (\<exists>b. read_exact m offs' 4 = Inr b \<and> of_be32 b = UBI_MAGIC)"
proof -
  have "case res of (ret, offs') \<Rightarrow> ret = 0 \<longrightarrow> word_sless offs' limit \<and> (\<exists>b. read_exact m offs' 4 = Inr b \<and> of_be32 b = UBI_MAGIC)"
    if "ubifs_find_loop m offs limit = Some res" for limit res
    using that
    by (rule ubifs_find_loop.raw_induct [rotated]) (fastforce simp: ENOENT_def split: if_splits sum.splits)
  from this [of "offs + sz" "(0, offs')"] assms show ?thesis by (simp add: ubifs_find_def)
qed

text \<open>
  The partitions of an image: the kernel starts at a block with JFFS2, UBI at a block with its magic
  number, both in the image; \<open>firmware\<close> is the rest of the image from the kernel on.
\<close>

definition wfi_parts :: "split_mtd \<Rightarrow> u64 \<Rightarrow> u64 \<Rightarrow> bool \<Rightarrow> mtd_partition list \<Rightarrow> bool" where
  "wfi_parts m off sz cfe_part ps \<longleftrightarrow>
     (\<exists>cfe_off kernel_off rootfs_off.
        ps = (if cfe_part
              then [(part PART_CFERAM cfe_off (kernel_off - cfe_off))\<lparr>part_mask_flags := MTD_WRITEABLE\<rparr>] else []) @
             [part PART_FIRMWARE kernel_off (off + sz - kernel_off),
              part KERNEL_PART_NAME kernel_off (rootfs_off - kernel_off),
              part UBI_PART_NAME rootfs_off (off + sz - rootfs_off)] \<and>
        (cfe_part \<longrightarrow> word_sless cfe_off (off + sz)) \<and>
        word_sless kernel_off (off + sz) \<and> (\<exists>b. read_exact m kernel_off 2 = Inr b \<and> cpu16 m b 0 = JFFS2_MAGIC) \<and>
        word_sless rootfs_off (off + sz) \<and> (\<exists>b. read_exact m rootfs_off 4 = Inr b \<and> of_be32 b = UBI_MAGIC))"

lemma parse_bcm_wfi_found:
  assumes "parse_bcm_wfi crc m prop n off sz cfe_part = Some (Inr ps)"
  obtains x y cfe_off kernel_off rootfs_off where
    "(if cfe_part then jffs2_find_file crc m (cferam_search_name prop) None off sz
      else Some (Inr None, off)) = Some (Inr x, cfe_off)"
    and "jffs2_find_file crc m KERNEL_NAME None (if cfe_part then cfe_off + ucast (sm_erasesize m) else off)
      (sz - ((if cfe_part then cfe_off + ucast (sm_erasesize m) else off) - off)) = Some (Inr y, kernel_off)"
    and "ubifs_find m (kernel_off + ucast (sm_erasesize m)) (sz - (kernel_off + ucast (sm_erasesize m) - off))
      = Some (0, rootfs_off)"
    and "ps = (if cfe_part then [(part PART_CFERAM cfe_off (kernel_off - cfe_off))\<lparr>part_mask_flags := MTD_WRITEABLE\<rparr>]
               else []) @
              [part PART_FIRMWARE kernel_off (sz - (kernel_off - off)),
               part KERNEL_PART_NAME kernel_off (rootfs_off - kernel_off),
               part UBI_PART_NAME rootfs_off (sz - (rootfs_off - off))]"
proof -
  from assms obtain r cfe_off where c: "(if cfe_part then jffs2_find_file crc m (cferam_search_name prop) None off sz
      else Some (Inr None, off)) = Some (r, cfe_off)"
    by (auto simp: parse_bcm_wfi_def Let_def Option.bind_eq_Some_conv)
  with assms obtain x where r: "r = Inr x" by (cases r) (auto simp: parse_bcm_wfi_def)
  note p1 = assms [unfolded parse_bcm_wfi_def Let_def c [unfolded r] Option.bind.simps prod.case sum.case]
  then obtain r' kernel_off where k: "jffs2_find_file crc m KERNEL_NAME None (if cfe_part then cfe_off + ucast (sm_erasesize m) else off)
      (sz - ((if cfe_part then cfe_off + ucast (sm_erasesize m) else off) - off)) = Some (r', kernel_off)"
    by (auto simp: Option.bind_eq_Some_conv)
  with p1 obtain y where r': "r' = Inr y" by (cases r') auto
  note p2 = p1 [unfolded k [unfolded r'] Option.bind.simps prod.case sum.case]
  then obtain ret rootfs_off where u: "ubifs_find m (kernel_off + ucast (sm_erasesize m))
      (sz - (kernel_off + ucast (sm_erasesize m) - off)) = Some (ret, rootfs_off)"
    by (auto simp: Option.bind_eq_Some_conv)
  with p2 have "ret = 0" by (auto split: if_split_asm)
  with that [OF c [unfolded r] k [unfolded r']] u p2 show ?thesis by (auto split: if_split_asm)
qed

lemma parse_bcm_wfi_parts:
  assumes p: "parse_bcm_wfi crc m prop n off sz cfe_part = Some (Inr ps)"
  shows "wfi_parts m off sz cfe_part ps"
proof -
  have e: "a + (sz - (a - off)) = off + sz" "sz - (a - off) = off + sz - a" for a :: u64 by simp_all
  from p obtain x y cfe_off kernel_off rootfs_off where
    c: "(if cfe_part then jffs2_find_file crc m (cferam_search_name prop) None off sz
      else Some (Inr None, off)) = Some (Inr x, cfe_off)"
    and k: "jffs2_find_file crc m KERNEL_NAME None (if cfe_part then cfe_off + ucast (sm_erasesize m) else off)
      (sz - ((if cfe_part then cfe_off + ucast (sm_erasesize m) else off) - off)) = Some (Inr y, kernel_off)"
    and u: "ubifs_find m (kernel_off + ucast (sm_erasesize m)) (sz - (kernel_off + ucast (sm_erasesize m) - off))
      = Some (0, rootfs_off)"
    and ps: "ps = (if cfe_part then [(part PART_CFERAM cfe_off (kernel_off - cfe_off))\<lparr>part_mask_flags := MTD_WRITEABLE\<rparr>]
               else []) @
              [part PART_FIRMWARE kernel_off (sz - (kernel_off - off)),
               part KERNEL_PART_NAME kernel_off (rootfs_off - kernel_off),
               part UBI_PART_NAME rootfs_off (sz - (rootfs_off - off))]"
    by (rule parse_bcm_wfi_found)
  have "cfe_part \<longrightarrow> word_sless cfe_off (off + sz)" using c jffs2_find_sound by (auto split: if_splits)
  moreover note jffs2_find_sound [OF k, unfolded e(1)] ubifs_find_sound [OF u, unfolded e(1)] ps [unfolded e(2)]
  ultimately show ?thesis unfolding wfi_parts_def by blast
qed

text \<open>An entry after which the search does not advance keeps it in the block for ever.\<close>

lemma scan_block_stuck:
  assumes "jffs2_dirent_valid crc m buf (unat offs) = Some True" and "buf32 m buf (unat offs + 4) = Some totlen"
    and "(offs + totlen + 3) AND NOT 3 = offs" and "offs < sm_erasesize m"
    and "mem_read buf (unat offs + 40) (length name) = Some entry" and "entry \<noteq> name"
  shows "scan_block crc m buf name out offs True = None"
proof -
  have "\<not> (crc' = crc \<and> m' = m \<and> buf' = buf \<and> name' = name \<and> out' = out \<and> offs' = offs \<and> valid' = True)"
    if "scan_block crc' m' buf' name' out' offs' valid' = Some y" for crc' m' buf' name' out' offs' valid' y
    using that
    by (rule scan_block.raw_induct [rotated])
      (use assms in \<open>fastforce simp: Let_def Option.bind_eq_Some_conv split: if_splits\<close>)
  then show ?thesis by (cases "scan_block crc m buf name out offs True") blast+
qed

end
