(* ===== verification/Mtdsplit_Spec.thy ===== *)
theory Mtdsplit_Spec
  imports Mtdsplit_Contracts Mtdsplit_Wfi
begin

text \<open>
  The properties of the partition parsers, with a flash in memory on which their hypotheses hold.
\<close>

section \<open>A flash in memory\<close>

definition ram_flash :: "string \<Rightarrow> u64 \<Rightarrow> u32 \<Rightarrow> (nat \<Rightarrow> u8) \<Rightarrow> split_mtd" where
  "ram_flash nm sz es f =
     \<lparr>sm_name = nm, sm_size = sz, sm_erasesize = es, cpu_be = False,
      mtd_read = (\<lambda>off n. if unat sz \<le> unat off \<or> unat sz < unat off + n then (- EINVAL, [])
                          else (0, map f [unat off..<unat off + n])),
      mtd_div_by_eb = (\<lambda>x. ucast (x div ucast es)), mtd_mod_by_eb = (\<lambda>x. ucast (x mod ucast es)),
      kzalloc_ok = (\<lambda>_. True)\<rparr>"

definition place :: "nat \<Rightarrow> bytes \<Rightarrow> (nat \<Rightarrow> u8) \<Rightarrow> nat \<Rightarrow> u8" where
  "place off bs f i = (if off \<le> i \<and> i < off + length bs then bs ! (i - off) else f i)"

definition blank :: "nat \<Rightarrow> u8" where "blank _ = 0xff"

lemma ram_flash_ok: "0 < unat es \<Longrightarrow> unat sz \<le> 2 ^ 32 \<Longrightarrow> split_ok (ram_flash nm sz es f)"
  by (auto simp: split_ok_def ram_flash_def EINVAL_def word_le_nat_alt)

lemma ram_flash_sel [simp]:
  "sm_name (ram_flash nm sz es f) = nm" "sm_size (ram_flash nm sz es f) = sz"
  "sm_erasesize (ram_flash nm sz es f) = es" "\<not> cpu_be (ram_flash nm sz es f)" "kzalloc_ok (ram_flash nm sz es f) n"
  by (simp_all add: ram_flash_def)

text \<open>Squashfs at the third of four blocks of 128 bytes, behind a kernel in the format of LZMA.\<close>

definition SQUASHFS_BYTES :: bytes where "SQUASHFS_BYTES = [0x68, 0x73, 0x71, 0x73]"

definition lzma_flash :: split_mtd where
  "lzma_flash = ram_flash ''firmware'' 512 128
     (place 0 [0x5d, 0, 0, 0x80, 0, 0xff, 0xff, 0xff, 0xff, 0, 0, 0, 0] (place 256 SQUASHFS_BYTES blank))"

lemma lzma_flash_ok: "split_ok lzma_flash"
  by (simp add: lzma_flash_def ram_flash_ok)

section \<open>Finding the root file system\<close>

text \<open>
  C31: the search for a root file system returns; it finds the first of the tried offsets (its start,
  and the erase blocks behind it) that has a known magic number, and reports \<open>-ENODEV\<close> only if there
  is none below the limit.
\<close>

theorem find_rootfs_first:
  assumes "split_ok m" and "limit \<le> sm_size m"
  shows "returns (mtd_find_rootfs_from m off limit) (first_rootfs m (unat off) limit)"
  by (rule mtd_find_rootfs_from_returns [OF assms])

theorem find_rootfs_first_witness:
  "returns (mtd_find_rootfs_from lzma_flash 0 512) (first_rootfs lzma_flash 0 512) \<and>
   mtd_find_rootfs_from lzma_flash 0 512 = Some (Inr (256, MTDSPLIT_PART_TYPE_SQUASHFS))"
proof
  show "returns (mtd_find_rootfs_from lzma_flash 0 512) (first_rootfs lzma_flash 0 512)"
    using find_rootfs_first [OF lzma_flash_ok, of 512 0] by (simp add: lzma_flash_def)
  show "mtd_find_rootfs_from lzma_flash 0 512 = Some (Inr (256, MTDSPLIT_PART_TYPE_SQUASHFS))"
    by code_simp
qed

section \<open>The parsers\<close>



text \<open>
  C33: what the parsers for LZMA, minor, WRGG, ELF and CFE report are partitions that follow each
  other from the start of the flash to its end without gap or overlap, the second of which starts
  with the magic number of a root file system.
\<close>

theorem split_parsers_tile:
  assumes "parse \<in> {mtdsplit_parse_lzma, mtdsplit_parse_minor, mtdsplit_parse_wrgg, mtdsplit_parse_elf,
      mtdsplit_cfe_bootfs_parse}" and "parse m = Some (Inr ps)"
  shows "tiles ps 0 (unat (sm_size m)) \<and> (\<exists>type. mtd_check_rootfs_magic m (part_offset (ps ! 1)) = Inr type)"
  using assms lzma.tiling minor.tiling wrgg.tiling elf.tiling cfe_bootfs.tiling by blast

theorem split_parsers_tile_witness:
  "\<exists>ps. mtdsplit_parse_lzma lzma_flash = Some (Inr ps) \<and> length ps = 2 \<and> tiles ps 0 512"
proof -
  have e: "mtdsplit_parse_lzma lzma_flash = Some (Inr [part ''kernel'' 0 256, part ''rootfs'' 256 256])"
    by code_simp
  moreover have "sm_size lzma_flash = 512" by (simp add: lzma_flash_def)
  ultimately show ?thesis using split_parsers_tile [of mtdsplit_parse_lzma lzma_flash] by auto
qed


text \<open>A header of a kernel of \<open>n\<close> bytes.\<close>

definition uimage_header :: "u8 \<Rightarrow> bytes" where
  "uimage_header n = [0x27, 5, 0x19, 0x56] @ replicate 8 0 @ [0, 0, 0, n] @ replicate 12 0 @ [5, 5, 2] @ replicate 33 0"



text \<open>
  C35: the last case does happen: on a flash whose last block has the header of an image that does not
  fit, the uImage parser succeeds and reports a kernel partition that starts at the end of the flash.
\<close>

theorem uimage_behind_end:
  "\<exists>m ps. split_ok m \<and> mtdsplit_parse_uimage m None = Some (Inr ps) \<and>
     part_name (ps ! 1) = KERNEL_PART_NAME \<and> part_offset (ps ! 1) = sm_size m \<and> 0 < part_size (ps ! 1)"
proof -
  define m where "m = ram_flash ''firmware'' 256 128 (place 0 SQUASHFS_BYTES (place 128 (uimage_header 200) blank))"
  have "mtdsplit_parse_uimage m None = Some (Inr [part ''rootfs'' 0 256, part ''kernel'' 256 264])"
    unfolding m_def by code_simp
  moreover have "split_ok m" "sm_size m = 256" by (simp_all add: m_def ram_flash_ok)
  ultimately show ?thesis
    by (intro exI [of _ m] exI [of _ "[part ''rootfs'' 0 256, part ''kernel'' 256 264]"])
      (simp add: KERNEL_PART_NAME_def)
qed

section \<open>The data behind a squashfs\<close>




section \<open>Whole flash images\<close>

text \<open>
  C37: if the first node of the boot file system has the length 0, the CFE parser does not return.
\<close>

theorem cfe_bootfs_hangs:
  assumes "sm_name m = ''firmware''" and "0 < sm_size m" and "read_exact m 0 40 = Inr node"
    and "cpu16 m node 0 = JFFS2_MAGIC_BITMASK" and "cpu32 m node 4 = 0"
  shows "mtdsplit_cfe_bootfs_parse m = None"
  using assms cfe_bootfs_end_stuck [of m 0 node] by (simp add: mtdsplit_cfe_bootfs_parse_def)

theorem cfe_bootfs_hangs_witness:
  "mtdsplit_cfe_bootfs_parse (ram_flash ''firmware'' 256 128 (place 0 ([0x85, 0x19] @ replicate 38 0) blank)) = None"
proof -
  let ?m = "ram_flash ''firmware'' 256 128 (place 0 ([0x85, 0x19] @ replicate 38 0) blank)"
  have "read_exact ?m 0 40 = Inr ([0x85, 0x19] @ replicate 38 0)" by code_simp
  moreover have "cpu16 ?m ([0x85, 0x19] @ replicate 38 0) 0 = JFFS2_MAGIC_BITMASK"
    by (simp add: cpu16_def of_le16_def JFFS2_MAGIC_BITMASK_def)
  moreover have "cpu32 ?m ([0x85, 0x19] @ replicate 38 0) 4 = 0" by code_simp
  ultimately show ?thesis by (intro cfe_bootfs_hangs) simp_all
qed








end
