(* ===== verification/Nvram.thy ===== *)
theory Nvram
  imports Nvram_Crc
begin

text \<open>
  The NVRAM library (\<open>package/utils/nvram/src/nvram.c\<close>, \<open>nvram.h\<close>): the variables of a board in a
  hash table, read from and written back to a memory-mapped partition.

  The target is \<open>bcm47xx\<close>, a little-endian 32-bit MIPS: \<open>size_t\<close>, \<open>unsigned long\<close> and pointers have
  32 bits, user addresses are below 2 GiB, \<open>char\<close> is signed. A C string is the list of its bytes
  before the terminating NUL. A linked list is a list, and a bucket a list of tuples. Pointers into
  the mapping are offsets; the mapping is page-aligned, so an address and its offset agree modulo 4.
  The outcomes of the coming calls of \<open>malloc\<close> and \<open>realloc\<close> are a list of Booleans in the handle, and
  where the list ends every further call succeeds.
\<close>

section \<open>Data\<close>

definition NVRAM_MIN_SPACE :: u32 where "NVRAM_MIN_SPACE = 0x8000"
definition NVRAM_MAGIC :: u32 where "NVRAM_MAGIC = 0x48534C46"
definition NVRAM_VERSION :: u32 where "NVRAM_VERSION = 1"
definition NVRAM_CRC_START_POSITION :: nat where "NVRAM_CRC_START_POSITION = 9"

definition SDRAM_REF_EN :: u32 where "SDRAM_REF_EN = 0x8000"
definition SDRAM_REF :: "u32 \<Rightarrow> u32" where "SDRAM_REF p = (p AND 0xff) OR SDRAM_REF_EN"
definition SDRAM_INIT :: u32 where "SDRAM_INIT = 0x419"
definition SDRAM_CONFIG :: u32 where "SDRAM_CONFIG = 0x0000"
definition SDRAM_REFRESH :: u32 where "SDRAM_REFRESH = SDRAM_REF 0x40"

lemmas sdram_value_defs =
  SDRAM_REF_EN_def SDRAM_REF_def SDRAM_INIT_def SDRAM_CONFIG_def SDRAM_REFRESH_def

record nvram_header_t =
  nvh_magic :: u32
  nvh_len :: u32
  crc_ver_init :: u32
  config_refresh :: u32
  config_ncdl :: u32

record nvram_tuple =
  t_name :: bytes
  t_value :: "bytes option"

record nvram_handle =
  nv_mmap :: bytes
  nv_length :: u32
  nv_offset :: u32
  nvram_hash :: "nvram_tuple list list"
  nvram_dead :: "nvram_tuple list"
  nv_mem :: "bool list"

definition nvh_bytes :: "nvram_header_t \<Rightarrow> bytes" where
  "nvh_bytes h = le32 (nvh_magic h) @ le32 (nvh_len h) @ le32 (crc_ver_init h) @
     le32 (config_refresh h) @ le32 (config_ncdl h)"

definition nvh_of_bytes :: "bytes \<Rightarrow> nvram_header_t" where
  "nvh_of_bytes bs =
     \<lparr>nvh_magic = of_le32 (take 4 bs), nvh_len = of_le32 (take 4 (drop 4 bs)),
      crc_ver_init = of_le32 (take 4 (drop 8 bs)), config_refresh = of_le32 (take 4 (drop 12 bs)),
      config_ncdl = of_le32 (take 4 (drop 16 bs))\<rparr>"

section \<open>The C library\<close>

text \<open>A string literal, and the string that starts a memory area: undefined without a NUL.\<close>

definition cs :: "string \<Rightarrow> bytes" where
  "cs s = map of_char s"

fun c_string :: "bytes \<Rightarrow> bytes option" where
  "c_string [] = None"
| "c_string (b # bs) = (if b = 0 then Some [] else map_option ((#) b) (c_string bs))"

text \<open>\<open>strchr\<close>: how far the character is, or that the string ends before it.\<close>

fun strchr :: "bytes \<Rightarrow> u8 \<Rightarrow> nat option option" where
  "strchr [] c = None"
| "strchr (b # bs) c =
     (if b = c then Some (Some 0) else if b = 0 then Some None
      else map_option (map_option Suc) (strchr bs c))"

text \<open>The conversions \<open>%04X\<close> and \<open>%08X\<close>, for values of at most that many digits.\<close>

definition hex_digit :: "nat \<Rightarrow> u8" where
  "hex_digit n = of_nat (if n < 10 then 0x30 + n else 0x41 + (n - 10))"

fun print_hex :: "nat \<Rightarrow> nat \<Rightarrow> bytes" where
  "print_hex 0 v = []"
| "print_hex (Suc k) v = print_hex k (v div 16) @ [hex_digit (v mod 16)]"

text \<open>
  \<open>strtoul\<close> with base 0: white space, a sign, a prefix that gives the base, digits as far as they
  go; too large a number gives \<open>ULONG_MAX\<close>.
\<close>

definition is_space :: "u8 \<Rightarrow> bool" where
  "is_space c \<longleftrightarrow> c = 0x20 \<or> 9 \<le> c \<and> c \<le> 13"

definition digit_value :: "u8 \<Rightarrow> nat" where
  "digit_value c =
     (if 0x30 \<le> c \<and> c \<le> 0x39 then unat c - 0x30
      else if 0x41 \<le> c \<and> c \<le> 0x5a then unat c - 0x41 + 10
      else if 0x61 \<le> c \<and> c \<le> 0x7a then unat c - 0x61 + 10 else 36)"

fun read_digits :: "nat \<Rightarrow> nat \<Rightarrow> bytes \<Rightarrow> nat" where
  "read_digits base acc [] = acc"
| "read_digits base acc (c # s) =
     (if digit_value c < base then read_digits base (base * acc + digit_value c) s else acc)"

definition read_number :: "bytes \<Rightarrow> nat" where
  "read_number s =
     (if 3 \<le> length s \<and> s ! 0 = 0x30 \<and> (s ! 1 = 0x78 \<or> s ! 1 = 0x58) \<and> digit_value (s ! 2) < 16
      then read_digits 16 0 (drop 2 s)
      else if s \<noteq> [] \<and> s ! 0 = 0x30 then read_digits 8 0 s
      else read_digits 10 0 s)"

definition strtoul :: "bytes \<Rightarrow> u32" where
  "strtoul s =
     (let s = dropWhile is_space s;
          signed = s \<noteq> [] \<and> (s ! 0 = 0x2b \<or> s ! 0 = 0x2d);
          n = read_number (if signed then tl s else s)
      in if n > 0xffffffff then 0xffffffff
         else if signed \<and> s ! 0 = 0x2d then - of_nat n else of_nat n)"

section \<open>The hash table\<close>

fun hash_loop :: "u32 \<Rightarrow> bytes \<Rightarrow> u32" where
  "hash_loop h [] = h"
| "hash_loop h (c # s) = hash_loop (31 * h + scast c) s"

definition hash :: "bytes \<Rightarrow> u32" where
  "hash s = hash_loop 0 s"

definition bucket_of :: "bytes \<Rightarrow> nat" where
  "bucket_of name = unat (hash name mod 257)"

text \<open>The walk along a bucket: where the name is, or the length of the bucket.\<close>

fun tuple_index :: "bytes \<Rightarrow> nvram_tuple list \<Rightarrow> nat" where
  "tuple_index name [] = 0"
| "tuple_index name (t # ts) = (if t_name t = name then 0 else Suc (tuple_index name ts))"

definition nvram_free :: "nvram_handle \<Rightarrow> nvram_handle" where
  "nvram_free h = h\<lparr>nvram_hash := replicate 257 [], nvram_dead := []\<rparr>"

text \<open>One call of \<open>malloc\<close> or \<open>realloc\<close>: whether it succeeds.\<close>

definition alloc :: "nvram_handle \<Rightarrow> bool \<times> nvram_handle" where
  "alloc h = (case nv_mem h of [] \<Rightarrow> (True, h) | b # bs \<Rightarrow> (b, h\<lparr>nv_mem := bs\<rparr>))"

text \<open>
  \<open>_nvram_realloc\<close>: the tuple \<open>t\<close> as the call leaves it (a failed \<open>realloc\<close> stores NULL as its value),
  and the result.
\<close>

definition nvram_realloc_value ::
  "nvram_handle \<Rightarrow> nvram_tuple \<Rightarrow> bytes \<Rightarrow> nvram_handle \<times> nvram_tuple \<times> bool" where
  "nvram_realloc_value h t value =
     (if t_value t = None \<or> t_value t \<noteq> Some value
      then (case alloc h of (ok, h) \<Rightarrow>
              if ok then (h, t\<lparr>t_value := Some value\<rparr>, True) else (h, t\<lparr>t_value := None\<rparr>, False))
      else (h, t, True))"

definition nvram_realloc ::
  "nvram_handle \<Rightarrow> nvram_tuple option \<Rightarrow> bytes \<Rightarrow> bytes \<Rightarrow>
     nvram_handle \<times> nvram_tuple option \<times> nvram_tuple option" where
  "nvram_realloc h t name value =
     (if length value + 1 > unat (nv_length h - nv_offset h) then (h, t, None)
      else (case t of
              None \<Rightarrow>
                (case alloc h of (ok, h) \<Rightarrow>
                   if \<not> ok then (h, None, None)
                   else (case nvram_realloc_value h \<lparr>t_name = name, t_value = None\<rparr> value of
                           (h, u, ok) \<Rightarrow> (h, None, if ok then Some u else None)))
            | Some t \<Rightarrow>
                (case nvram_realloc_value h t value of
                   (h, u, ok) \<Rightarrow> (h, Some u, if ok then Some u else None))))"

definition nvram_get :: "nvram_handle \<Rightarrow> bytes \<Rightarrow> bytes option" where
  "nvram_get h name =
     (let ts = nvram_hash h ! bucket_of name; j = tuple_index name ts
      in if j < length ts then t_value (ts ! j) else None)"

text \<open>
  \<open>nvram_set\<close>. \<open>_nvram_realloc\<close> returns the tuple it was given, so the branch that moves an old tuple
  to the dead table is not reached.
\<close>

definition nvram_set :: "nvram_handle \<Rightarrow> bytes \<Rightarrow> bytes \<Rightarrow> int \<times> nvram_handle" where
  "nvram_set h name value =
     (let i = bucket_of name; ts = nvram_hash h ! i; j = tuple_index name ts;
          t = (if j < length ts then Some (ts ! j) else None)
      in case nvram_realloc h t name value of
           (h, Some t', u) \<Rightarrow>
             (if u = None then - 12 else 0, h\<lparr>nvram_hash := (nvram_hash h)[i := ts[j := t']]\<rparr>)
         | (h, None, None) \<Rightarrow> (- 12, h)
         | (h, None, Some u) \<Rightarrow> (0, h\<lparr>nvram_hash := (nvram_hash h)[i := u # ts]\<rparr>))"

definition nvram_unset :: "nvram_handle \<Rightarrow> bytes \<Rightarrow> int \<times> nvram_handle" where
  "nvram_unset h name =
     (let i = bucket_of name; ts = nvram_hash h ! i; j = tuple_index name ts
      in if j < length ts
         then (0, h\<lparr>nvram_hash := (nvram_hash h)[i := take j ts @ drop (Suc j) ts],
                    nvram_dead := ts ! j # nvram_dead h\<rparr>)
         else (0, h))"

text \<open>\<open>nvram_getall\<close>: a failing \<open>malloc\<close> ends the walk of its bucket only.\<close>

fun getall_bucket :: "nvram_tuple list \<Rightarrow> nvram_tuple list \<times> nvram_handle \<Rightarrow> nvram_tuple list \<times> nvram_handle" where
  "getall_bucket [] (l, h) = (l, h)"
| "getall_bucket (t # ts) (l, h) =
     (case alloc h of (ok, h) \<Rightarrow> if ok then getall_bucket ts (t # l, h) else (l, h))"

definition nvram_getall :: "nvram_handle \<Rightarrow> nvram_tuple list \<times> nvram_handle" where
  "nvram_getall h = fold getall_bucket (nvram_hash h) ([], h)"

section \<open>Reading the mapping\<close>

definition nvram_header :: "nvram_handle \<Rightarrow> nvram_header_t option" where
  "nvram_header h = map_option nvh_of_bytes (mem_read (nv_mmap h) (unat (nv_offset h)) 20)"

text \<open>The loop of \<open>_nvram_rehash\<close> over the memory from \<open>name\<close> on; \<open>0x3d\<close> is the equals sign.\<close>

function rehash_loop :: "bytes \<Rightarrow> nvram_handle \<Rightarrow> nvram_handle option" where
  "rehash_loop name h =
     (if name = [] then None
      else if hd name = 0 then Some h
      else do {
        eq \<leftarrow> strchr name 0x3d;
        case eq of
          None \<Rightarrow> Some h
        | Some k \<Rightarrow> do {
            value \<leftarrow> c_string (drop (k + 1) name);
            rehash_loop (drop (k + 1 + length value + 1) name) (snd (nvram_set h (take k name) value))
          }
      })"
  by pat_completeness auto
termination
  by (relation "measure (\<lambda>(name, h). length name)") auto

declare rehash_loop.simps [simp del]

definition set_missing :: "bytes \<Rightarrow> bytes \<Rightarrow> nvram_handle \<Rightarrow> nvram_handle" where
  "set_missing name buf h = (if nvram_get h name = None then snd (nvram_set h name buf) else h)"

definition rehash_sdram :: "nvram_header_t \<Rightarrow> nvram_handle \<Rightarrow> nvram_handle" where
  "rehash_sdram header h =
     (let h = set_missing (cs ''sdram_init'')
                (cs ''0x'' @ print_hex 4 (unat (ucast (drop_bit 16 (crc_ver_init header)) :: u16))) h;
          h = set_missing (cs ''sdram_config'')
                (cs ''0x'' @ print_hex 4 (unat (ucast (config_refresh header AND 0xffff) :: u16))) h;
          h = set_missing (cs ''sdram_refresh'')
                (cs ''0x'' @ print_hex 4 (unat (ucast (drop_bit 16 (config_refresh header) AND 0xffff) :: u16))) h
      in set_missing (cs ''sdram_ncdl'') (cs ''0x'' @ print_hex 8 (unat (config_ncdl header))) h)"

definition nvram_rehash :: "nvram_handle \<Rightarrow> (int \<times> nvram_handle) option" where
  "nvram_rehash h =
     do {
       header \<leftarrow> nvram_header h;
       h \<leftarrow> rehash_loop (drop (unat (nv_offset h) + 20) (nv_mmap h)) (nvram_free h);
       Some (0, rehash_sdram header h)
     }"

section \<open>Writing the mapping\<close>

definition regenerate_header :: "nvram_handle \<Rightarrow> nvram_header_t \<Rightarrow> nvram_header_t" where
  "regenerate_header h header =
     (let header = header\<lparr>nvh_magic := NVRAM_MAGIC, crc_ver_init := push_bit 8 NVRAM_VERSION\<rparr>
      in case (nvram_get h (cs ''sdram_init''), nvram_get h (cs ''sdram_config''),
               nvram_get h (cs ''sdram_refresh''), nvram_get h (cs ''sdram_ncdl'')) of
           (Some init, Some config, Some refresh, Some ncdl) \<Rightarrow>
             header\<lparr>crc_ver_init := crc_ver_init header OR push_bit 16 (strtoul init AND 0xffff),
                    config_refresh := (strtoul config AND 0xffff) OR push_bit 16 (strtoul refresh AND 0xffff),
                    config_ncdl := strtoul ncdl\<rparr>
         | _ \<Rightarrow>
             header\<lparr>crc_ver_init := crc_ver_init header OR push_bit 16 SDRAM_INIT,
                    config_refresh := SDRAM_CONFIG OR push_bit 16 SDRAM_REFRESH,
                    config_ncdl := 0\<rparr>)"

text \<open>
  The inner loop over a bucket; a tuple that does not fit ends it. The value of every tuple is
  passed to \<open>strlen\<close>, which must not see NULL.
\<close>

fun commit_bucket :: "nat \<Rightarrow> nvram_tuple list \<Rightarrow> bytes \<times> nat \<Rightarrow> (bytes \<times> nat) option" where
  "commit_bucket end [] (mm, ptr) = Some (mm, ptr)"
| "commit_bucket end (t # ts) (mm, ptr) =
     do {
       value \<leftarrow> t_value t;
       if ptr + length (t_name t) + 1 + length value + 1 > end then Some (mm, ptr)
       else do {
         mm \<leftarrow> mem_write mm ptr (t_name t @ [0x3d] @ value @ [0]);
         commit_bucket end ts (mm, ptr + (length (t_name t) + 1 + length value) + 1)
       }
     }"

fun commit_buckets :: "nat \<Rightarrow> nvram_tuple list list \<Rightarrow> bytes \<times> nat \<Rightarrow> (bytes \<times> nat) option" where
  "commit_buckets end [] s = Some s"
| "commit_buckets end (ts # tss) s = commit_bucket end ts s \<bind> commit_buckets end tss"

definition NVRAM_ROUNDUP :: "nat \<Rightarrow> nat \<Rightarrow> nat" where
  "NVRAM_ROUNDUP x y = ((x + (y - 1)) div y) * y"

text \<open>The double NUL and the padding; the result is the end of the data.\<close>

definition commit_end :: "bytes \<times> nat \<Rightarrow> (bytes \<times> nat) option" where
  "commit_end = (\<lambda>(mm, ptr). do {
     mm \<leftarrow> arr_set mm ptr 0;
     let ptr = ptr + 1;
     mm \<leftarrow> (if ptr mod 4 \<noteq> 0 then mem_write mm ptr (replicate (4 - ptr mod 4) 0) else Some mm);
     Some (mm, ptr + 1)
   })"

definition commit_crc :: "nvram_header_t \<Rightarrow> bytes \<Rightarrow> nat \<Rightarrow> u8 option" where
  "commit_crc header mm pos =
     do {
       let tmp = \<lparr>nvh_magic = 0, nvh_len = 0, crc_ver_init = crc_ver_init header,
                  config_refresh = config_refresh header, config_ncdl = config_ncdl header\<rparr>;
       let crc = hndcrc8 (drop NVRAM_CRC_START_POSITION (nvh_bytes tmp)) 0xff;
       data \<leftarrow> mem_read mm (pos + 20) (unat (nvh_len header - 20));
       Some (hndcrc8 data crc)
     }"

definition nvram_commit :: "u32 \<Rightarrow> nvram_handle \<Rightarrow> (int \<times> nvram_handle) option" where
  "nvram_commit nvram_part_size h =
     do {
       let pos = unat (nv_offset h);
       old \<leftarrow> nvram_header h;
       let header = regenerate_header h old;
       mm \<leftarrow> mem_write (nv_mmap h) pos (nvh_bytes header);
       let ptr = pos + 20;
       mm \<leftarrow> mem_write mm ptr (replicate (unat (nvram_part_size - nv_offset h - 20)) 0xff);
       let end = pos + unat nvram_part_size - unat (nv_offset h) - 2;
       s \<leftarrow> commit_buckets end (nvram_hash h) (mm, ptr);
       (mm, ptr) \<leftarrow> commit_end s;
       let header = header\<lparr>nvh_len := of_nat (NVRAM_ROUNDUP (ptr - pos) 4)\<rparr>;
       mm \<leftarrow> mem_write mm pos (nvh_bytes header);
       crc \<leftarrow> commit_crc header mm pos;
       let header = header\<lparr>crc_ver_init := crc_ver_init header OR ucast crc\<rparr>;
       mm \<leftarrow> mem_write mm pos (nvh_bytes header);
       nvram_rehash (h\<lparr>nv_mmap := mm\<rparr>)
     }"

section \<open>Opening and closing\<close>

text \<open>The search of \<open>nvram_open\<close>: the loop from word \<open>i\<close> on, with \<open>n\<close> turns to go.\<close>

fun magic_scan :: "bytes \<Rightarrow> nat \<Rightarrow> nat \<Rightarrow> int option" where
  "magic_scan mm i 0 = Some (- 1)"
| "magic_scan mm i (Suc n) =
     do {
       w \<leftarrow> mem_read mm (4 * i) 4;
       if of_le32 w = NVRAM_MAGIC then Some (sint (of_nat (4 * i) :: u32)) else magic_scan mm (i + 1) n
     }"

definition scan_turns :: "u32 \<Rightarrow> nat" where
  "scan_turns nvram_part_size = unat ((nvram_part_size - NVRAM_MIN_SPACE) div 4) + 1"

text \<open>
  \<open>nvram_open\<close> on a file that could be opened and mapped: \<open>mm\<close> are the bytes of the mapping, \<open>mem\<close> the
  outcomes of the allocations. The result has those that are left.
\<close>

definition nvram_open_mapped ::
  "u32 \<Rightarrow> bytes \<Rightarrow> bool list \<Rightarrow> bool \<Rightarrow> (nvram_handle option \<times> bool list) option" where
  "nvram_open_mapped nvram_part_size mm mem rdonly =
     do {
       offset \<leftarrow> magic_scan mm 0 (scan_turns nvram_part_size);
       if offset < 0 then Some (None, mem)
       else (case alloc \<lparr>nv_mmap = mm, nv_length = nvram_part_size, nv_offset = of_int offset,
                         nvram_hash = replicate 257 [], nvram_dead = [], nv_mem = mem\<rparr> of (ok, h) \<Rightarrow>
               if \<not> ok then Some (None, nv_mem h)
               else do {
                 header \<leftarrow> nvram_header h;
                 if nvh_magic header = NVRAM_MAGIC \<and> (rdonly \<or> nvh_len header < nv_length h - nv_offset h)
                 then do { (r, h) \<leftarrow> nvram_rehash h; Some (Some h, nv_mem h) }
                 else Some (None, nv_mem h)
               })
     }"

end
