(* ===== verification/Nvram_Vars.thy ===== *)
theory Nvram_Vars
  imports Nvram
begin

text \<open>
  The hash table as a map from names to values. \<open>var_store\<close> is the interface that the parser of the
  mapping and the command-line tool rely on: what \<open>nvram_get\<close> returns after \<open>nvram_set\<close> and
  \<open>nvram_unset\<close>, failures included. It is proved for the table of \<open>nvram.c\<close>, and the lemmas on
  sequences of assignments follow from the interface alone.
\<close>

section \<open>Buckets\<close>

definition lookup :: "nvram_tuple list \<Rightarrow> bytes \<Rightarrow> bytes option" where
  "lookup ts name = (if tuple_index name ts < length ts then t_value (ts ! tuple_index name ts) else None)"

lemma nvram_get_lookup: "nvram_get h name = lookup (nvram_hash h ! bucket_of name) name"
  by (simp add: nvram_get_def lookup_def Let_def)

lemma lookup_Nil [simp]: "lookup [] name = None"
  by (simp add: lookup_def)

lemma lookup_Cons [simp]: "lookup (t # ts) name = (if t_name t = name then t_value t else lookup ts name)"
  by (simp add: lookup_def)

lemma tuple_index_name: "tuple_index n ts < length ts \<Longrightarrow> t_name (ts ! tuple_index n ts) = n"
  by (induction ts) auto

lemma tuple_index_absent: "tuple_index n ts < length ts \<longleftrightarrow> n \<in> t_name ` set ts"
  by (induction ts) auto

lemma lookup_absent: "n \<notin> t_name ` set ts \<Longrightarrow> lookup ts n = None"
  by (simp add: lookup_def tuple_index_absent)

lemma lookup_replace:
  "tuple_index n ts < length ts \<Longrightarrow> t_name u = n \<Longrightarrow>
     lookup (ts[tuple_index n ts := u]) m = (if m = n then t_value u else lookup ts m)"
  by (induction ts) auto

lemma lookup_remove:
  "distinct (map t_name ts) \<Longrightarrow> j = tuple_index n ts \<Longrightarrow>
     lookup (take j ts @ drop (Suc j) ts) m = (if m = n then None else lookup ts m)"
  by (induction ts arbitrary: j) (auto simp: lookup_absent)

section \<open>The table invariant\<close>

text \<open>Every tuple is in the bucket of its name, and a bucket has a name once.\<close>

definition bucket_ok :: "nat \<Rightarrow> nvram_tuple list \<Rightarrow> bool" where
  "bucket_ok i ts \<longleftrightarrow> distinct (map t_name ts) \<and> (\<forall>t \<in> set ts. bucket_of (t_name t) = i)"

definition table_ok :: "nvram_handle \<Rightarrow> bool" where
  "table_ok h \<longleftrightarrow> length (nvram_hash h) = 257 \<and> (\<forall>i < 257. bucket_ok i (nvram_hash h ! i))"

lemma bucket_of_less [simp]: "bucket_of n < 257"
  by (simp add: bucket_of_def unat_mod)

lemma table_ok_update:
  "table_ok h \<Longrightarrow> nvram_hash h' = (nvram_hash h)[i := ts] \<Longrightarrow> (i < 257 \<Longrightarrow> bucket_ok i ts) \<Longrightarrow> table_ok h'"
  by (cases "i < 257") (auto simp: table_ok_def nth_list_update)

lemma get_update:
  assumes "table_ok h" and "nvram_hash h' = (nvram_hash h)[bucket_of n := ts]"
    and "\<And>m. lookup ts m = (if m = n then v else lookup (nvram_hash h ! bucket_of n) m)"
  shows "nvram_get h' = (nvram_get h)(n := v)"
proof
  fix m
  show "nvram_get h' m = ((nvram_get h)(n := v)) m"
    using assms by (auto simp: nvram_get_lookup table_ok_def nth_list_update)
qed

lemma bucket_ok_replace:
  "bucket_ok i ts \<Longrightarrow> j < length ts \<Longrightarrow> t_name u = t_name (ts ! j) \<Longrightarrow> bucket_ok i (ts[j := u])"
proof -
  assume b: "bucket_ok i ts" and j: "j < length ts" and u: "t_name u = t_name (ts ! j)"
  have "map t_name (ts[j := u]) = map t_name ts"
    using u j by (simp add: map_update list_update_same_conv)
  moreover have "\<forall>t \<in> set (ts[j := u]). bucket_of (t_name t) = i"
    using b u j by (auto simp: bucket_ok_def dest!: set_update_subset_insert [THEN subsetD])
  ultimately show ?thesis using b by (simp add: bucket_ok_def)
qed

lemma bucket_ok_remove:
  assumes b: "bucket_ok i ts" and j: "j < length ts"
  shows "bucket_ok i (take j ts @ drop (Suc j) ts)"
proof -
  have "bucket_ok i (take j ts @ ts ! j # drop (Suc j) ts)"
    using b j by (simp add: id_take_nth_drop [symmetric])
  then show ?thesis by (auto simp: bucket_ok_def)
qed

section \<open>The operations\<close>

text \<open>The part of the handle that assignments leave alone.\<close>

definition same_map :: "nvram_handle \<Rightarrow> nvram_handle \<Rightarrow> bool" where
  "same_map h h' \<longleftrightarrow> nv_mmap h' = nv_mmap h \<and> nv_length h' = nv_length h \<and> nv_offset h' = nv_offset h"

lemma realloc_value_cases:
  assumes "nvram_realloc_value h t v = (h', u, ok)"
  shows "same_map h h' \<and> nvram_hash h' = nvram_hash h \<and> nvram_dead h' = nvram_dead h \<and>
    t_name u = t_name t \<and> t_value u = (if ok then Some v else None) \<and> (nv_mem h = [] \<longrightarrow> ok \<and> nv_mem h' = [])"
  using assms
  by (auto simp: nvram_realloc_value_def alloc_def same_map_def split: if_splits list.splits)

text \<open>
  \<open>nvram_set\<close>: with success the value is stored; a failure keeps the old value, or loses it where
  \<open>realloc\<close> fails. Without memory failures it succeeds on every value that is shorter than the
  space behind the header.
\<close>

definition set_post :: "nvram_handle \<Rightarrow> bytes \<Rightarrow> bytes \<Rightarrow> int \<times> nvram_handle \<Rightarrow> bool" where
  "set_post h n v = (\<lambda>(r, h').
     same_map h h' \<and> nvram_dead h' = nvram_dead h \<and> table_ok h' \<and>
     (r = 0 \<and> nvram_get h' = (nvram_get h)(n \<mapsto> v) \<or>
      r = - 12 \<and> nvram_get h' \<in> {nvram_get h, (nvram_get h)(n := None)}) \<and>
     (nv_mem h = [] \<longrightarrow> nv_mem h' = [] \<and>
        r = (if length v < unat (nv_length h - nv_offset h) then 0 else - 12)))"

lemma table_bucket: "table_ok h \<Longrightarrow> bucket_ok (bucket_of n) (nvram_hash h ! bucket_of n)"
  by (simp add: table_ok_def)

lemma set_existing:
  assumes ok: "table_ok h" and j: "j = tuple_index n (nvram_hash h ! bucket_of n)" "j < length (nvram_hash h ! bucket_of n)"
    and u: "t_name u = n"
    and h': "nvram_hash h' = (nvram_hash h)[bucket_of n := (nvram_hash h ! bucket_of n)[j := u]]"
  shows "table_ok h' \<and> nvram_get h' = (nvram_get h)(n := t_value u)"
proof
  show "table_ok h'"
    by (rule table_ok_update [OF ok h'])
       (use u j tuple_index_name in \<open>auto intro!: bucket_ok_replace table_bucket [OF ok]\<close>)
  show "nvram_get h' = (nvram_get h)(n := t_value u)"
    by (rule get_update [OF ok h']) (use u j lookup_replace in auto)
qed

lemma set_new:
  assumes ok: "table_ok h" and j: "\<not> tuple_index n (nvram_hash h ! bucket_of n) < length (nvram_hash h ! bucket_of n)"
    and u: "t_name u = n"
    and h': "nvram_hash h' = (nvram_hash h)[bucket_of n := u # nvram_hash h ! bucket_of n]"
  shows "table_ok h' \<and> nvram_get h' = (nvram_get h)(n := t_value u)"
proof
  show "table_ok h'"
    by (rule table_ok_update [OF ok h'])
       (use u j table_bucket [OF ok, of n] in \<open>auto simp: bucket_ok_def tuple_index_absent\<close>)
  show "nvram_get h' = (nvram_get h)(n := t_value u)"
    by (rule get_update [OF ok h']) (use u in auto)
qed

lemma nvram_unset_post:
  assumes ok: "table_ok h"
  shows "case nvram_unset h n of (r, h') \<Rightarrow>
    r = 0 \<and> table_ok h' \<and> same_map h h' \<and> nv_mem h' = nv_mem h \<and> nvram_get h' = (nvram_get h)(n := None)"
proof -
  let ?ts = "nvram_hash h ! bucket_of n"
  let ?j = "tuple_index n ?ts"
  have dist: "distinct (map t_name ?ts)"
    using table_bucket [OF ok] by (simp add: bucket_ok_def)
  show ?thesis
  proof (cases "?j < length ?ts")
    case True
    have "table_ok (snd (nvram_unset h n))"
      by (rule table_ok_update [OF ok, where i = "bucket_of n" and ts = "take ?j ?ts @ drop (Suc ?j) ?ts"])
         (use True in \<open>auto simp: nvram_unset_def Let_def intro!: bucket_ok_remove table_bucket [OF ok]\<close>)
    moreover have "nvram_get (snd (nvram_unset h n)) = (nvram_get h)(n := None)"
      by (rule get_update [OF ok, where ts = "take ?j ?ts @ drop (Suc ?j) ?ts"])
         (use True dist lookup_remove in \<open>auto simp: nvram_unset_def Let_def\<close>)
    ultimately show ?thesis
      using True by (auto simp: nvram_unset_def Let_def same_map_def split: prod.splits)
  next
    case False
    then have "nvram_get h n = None" by (simp add: nvram_get_lookup lookup_def)
    with False show ?thesis
      using ok by (auto simp: nvram_unset_def Let_def same_map_def)
  qed
qed

lemma nvram_set_post:
  assumes ok: "table_ok h"
  shows "set_post h n v (nvram_set h n v)"
proof -
  let ?ts = "nvram_hash h ! bucket_of n"
  let ?j = "tuple_index n ?ts"
  consider (long) "length v + 1 > unat (nv_length h - nv_offset h)"
    | (old) "length v + 1 \<le> unat (nv_length h - nv_offset h)" "?j < length ?ts"
    | (new) "length v + 1 \<le> unat (nv_length h - nv_offset h)" "\<not> ?j < length ?ts"
    by linarith
  then show ?thesis
  proof cases
    case long
    then show ?thesis
      using ok by (auto simp: set_post_def nvram_set_def nvram_realloc_def Let_def same_map_def)
  next
    case old
    obtain h' u stored where r: "nvram_realloc_value h (?ts ! ?j) v = (h', u, stored)"
      by (metis prod_cases3)
    let ?h = "h'\<lparr>nvram_hash := (nvram_hash h)[bucket_of n := ?ts[?j := u]]\<rparr>"
    note c = realloc_value_cases [OF r]
    have "nvram_set h n v = (if stored then 0 else - 12, ?h)"
      using old r c by (auto simp: nvram_set_def nvram_realloc_def Let_def)
    moreover have "table_ok ?h \<and> nvram_get ?h = (nvram_get h)(n := t_value u)"
      by (rule set_existing [OF ok refl]) (use old c tuple_index_name in auto)
    ultimately show ?thesis
      using old c by (auto simp: set_post_def same_map_def)
  next
    case new
    show ?thesis
    proof (cases "fst (alloc h)")
      case False
      then obtain h' where a: "alloc h = (False, h')" by (cases "alloc h") auto
      then have "nvram_set h n v = (- 12, h')"
        using new by (simp add: nvram_set_def nvram_realloc_def Let_def)
      with a ok show ?thesis
        by (auto simp: set_post_def same_map_def alloc_def table_ok_def nvram_get_def split: list.splits)
    next
      case True
      then obtain h1 where a: "alloc h = (True, h1)" by (cases "alloc h") auto
      obtain h' u stored where r: "nvram_realloc_value h1 \<lparr>t_name = n, t_value = None\<rparr> v = (h', u, stored)"
        by (metis prod_cases3)
      let ?h = "h'\<lparr>nvram_hash := (nvram_hash h)[bucket_of n := u # ?ts]\<rparr>"
      note c = realloc_value_cases [OF r]
      have f: "nvram_hash h1 = nvram_hash h" "same_map h h1" "nvram_dead h1 = nvram_dead h" "nv_mem h = [] \<longrightarrow> nv_mem h1 = []"
        using a by (auto simp: alloc_def same_map_def split: list.splits)
      have "nvram_set h n v = (if stored then (0, ?h) else (- 12, h'))"
        using new r a c f by (auto simp: nvram_set_def nvram_realloc_def Let_def)
      moreover have "table_ok ?h \<and> nvram_get ?h = (nvram_get h)(n := t_value u)"
        by (rule set_new [OF ok]) (use new c in auto)
      moreover have "table_ok h' \<and> nvram_get h' = nvram_get h"
        using ok c f by (auto simp: table_ok_def nvram_get_def fun_eq_iff)
      ultimately show ?thesis
        using new c f by (auto simp: set_post_def same_map_def)
    qed
  qed
qed

section \<open>The interface\<close>

text \<open>Sequences of calls, and what they may do to a map from names to values.\<close>

datatype var_op = Put bytes bytes | Del bytes

fun run_op :: "('s \<Rightarrow> bytes \<Rightarrow> bytes \<Rightarrow> int \<times> 's) \<Rightarrow> ('s \<Rightarrow> bytes \<Rightarrow> int \<times> 's) \<Rightarrow> var_op \<Rightarrow> 's \<Rightarrow> int \<times> 's" where
  "run_op put del (Put n v) s = put s n v"
| "run_op put del (Del n) s = del s n"

fun run_ops :: "('s \<Rightarrow> bytes \<Rightarrow> bytes \<Rightarrow> int \<times> 's) \<Rightarrow> ('s \<Rightarrow> bytes \<Rightarrow> int \<times> 's) \<Rightarrow> var_op list \<Rightarrow> 's \<Rightarrow> int list \<times> 's" where
  "run_ops put del [] s = ([], s)"
| "run_ops put del (x # xs) s =
     (case run_op put del x s of (r, s) \<Rightarrow> case run_ops put del xs s of (rs, s) \<Rightarrow> (r # rs, s))"

type_synonym var_map = "bytes \<Rightarrow> bytes option"

inductive var_step :: "var_op \<Rightarrow> var_map \<Rightarrow> int \<Rightarrow> var_map \<Rightarrow> bool" where
  stored: "var_step (Put n v) m 0 (m(n \<mapsto> v))"
| refused: "r \<noteq> 0 \<Longrightarrow> var_step (Put n v) m r m"
| lost: "r \<noteq> 0 \<Longrightarrow> var_step (Put n v) m r (m(n := None))"
| removed: "var_step (Del n) m 0 (m(n := None))"

inductive_cases var_step_PutE: "var_step (Put n v) m r m'"
inductive_cases var_step_DelE: "var_step (Del n) m r m'"

inductive var_steps :: "var_op list \<Rightarrow> var_map \<Rightarrow> int list \<Rightarrow> var_map \<Rightarrow> bool" where
  nil: "var_steps [] m [] m"
| cons: "var_step x m r m' \<Longrightarrow> var_steps xs m' rs m'' \<Longrightarrow> var_steps (x # xs) m (r # rs) m''"

fun apply_op :: "var_op \<Rightarrow> var_map \<Rightarrow> var_map" where
  "apply_op (Put n v) m = m(n \<mapsto> v)"
| "apply_op (Del n) m = m(n := None)"

fun op_values :: "var_op list \<Rightarrow> bytes list" where
  "op_values [] = []"
| "op_values (Put n v # xs) = v # op_values xs"
| "op_values (Del n # xs) = op_values xs"

text \<open>
  \<open>room s v\<close>: a value like \<open>v\<close> can be stored, now and after other operations.
\<close>

locale var_store =
  fixes inv :: "'s \<Rightarrow> bool"
    and get :: "'s \<Rightarrow> var_map"
    and put :: "'s \<Rightarrow> bytes \<Rightarrow> bytes \<Rightarrow> int \<times> 's"
    and del :: "'s \<Rightarrow> bytes \<Rightarrow> int \<times> 's"
    and room :: "'s \<Rightarrow> bytes \<Rightarrow> bool"
  assumes put_inv: "inv s \<Longrightarrow> put s n v = (r, s') \<Longrightarrow> inv s'"
    and put_step: "inv s \<Longrightarrow> put s n v = (r, s') \<Longrightarrow> var_step (Put n v) (get s) r (get s')"
    and put_room: "inv s \<Longrightarrow> put s n v = (r, s') \<Longrightarrow> room s v \<Longrightarrow> r = 0"
    and put_keeps_room: "inv s \<Longrightarrow> put s n v = (r, s') \<Longrightarrow> room s w \<Longrightarrow> room s' w"
    and del_inv: "inv s \<Longrightarrow> del s n = (r, s') \<Longrightarrow> inv s'"
    and del_step: "inv s \<Longrightarrow> del s n = (r, s') \<Longrightarrow> var_step (Del n) (get s) r (get s')"
    and del_keeps_room: "inv s \<Longrightarrow> del s n = (r, s') \<Longrightarrow> room s w \<Longrightarrow> room s' w"
begin

lemma op_ok:
  "inv s \<Longrightarrow> run_op put del x s = (r, s') \<Longrightarrow>
     inv s' \<and> var_step x (get s) r (get s') \<and> (\<forall>w. room s w \<longrightarrow> room s' w)"
  by (cases x) (auto intro: put_inv put_step put_keeps_room del_inv del_step del_keeps_room)

lemma ops_simulate:
  "inv s \<Longrightarrow> run_ops put del xs s = (rs, s') \<Longrightarrow> inv s' \<and> var_steps xs (get s) rs (get s')"
proof (induction xs arbitrary: s rs)
  case (Cons x xs)
  then show ?case
    by (fastforce split: prod.splits dest: op_ok intro: var_steps.cons)
qed (auto intro: var_steps.nil)

lemma ops_with_room:
  "inv s \<Longrightarrow> run_ops put del xs s = (rs, s') \<Longrightarrow> (\<And>v. v \<in> set (op_values xs) \<Longrightarrow> room s v) \<Longrightarrow>
     get s' = fold apply_op xs (get s) \<and> (\<forall>r \<in> set rs. r = 0)"
proof (induction xs arbitrary: s rs)
  case (Cons x xs)
  obtain r s1 where x: "run_op put del x s = (r, s1)" by fastforce
  obtain rs1 where rs: "run_ops put del xs s1 = (rs1, s')" "rs = r # rs1"
    using Cons.prems(2) x by (auto split: prod.splits)
  note ok = op_ok [OF Cons.prems(1) x]
  have r: "r = 0" and g: "get s1 = apply_op x (get s)"
    using x Cons.prems(1,3) ok put_room
    by (cases x; auto elim!: var_step_PutE var_step_DelE)+
  have "room s1 v" if "v \<in> set (op_values xs)" for v
    using ok Cons.prems(3) that by (cases x) auto
  with Cons.IH [OF _ rs(1)] ok r g rs(2) show ?case by auto
qed auto

end

text \<open>The hash table of \<open>nvram.c\<close> provides it.\<close>

definition nv_room :: "nvram_handle \<Rightarrow> bytes \<Rightarrow> bool" where
  "nv_room h v \<longleftrightarrow> nv_mem h = [] \<and> length v < unat (nv_length h - nv_offset h)"

interpretation nv: var_store table_ok nvram_get nvram_set nvram_unset nv_room
proof
  fix s n v r s' w
  assume ok: "table_ok s" and p: "nvram_set s n v = (r, s')"
  have failed: "(- 12 :: int) \<noteq> 0" by simp
  note post = nvram_set_post [OF ok, of n v, unfolded p set_post_def prod.case]
  show "table_ok s'" using post by simp
  show "var_step (Put n v) (nvram_get s) r (nvram_get s')"
    using post by (auto intro: var_step.stored var_step.refused [OF failed] var_step.lost [OF failed])
  show "nv_room s v \<Longrightarrow> r = 0" using post by (simp add: nv_room_def)
  show "nv_room s w \<Longrightarrow> nv_room s' w" using post by (auto simp: nv_room_def same_map_def)
next
  fix s n r s' w
  assume ok: "table_ok s" and p: "nvram_unset s n = (r, s')"
  note post = nvram_unset_post [OF ok, of n, unfolded p prod.case]
  show "table_ok s'" using post by simp
  show "var_step (Del n) (nvram_get s) r (nvram_get s')"
    using post by (auto intro: var_step.intros)
  show "nv_room s w \<Longrightarrow> nv_room s' w" using post by (auto simp: nv_room_def same_map_def)
qed

end
