(* ===== verification/Nvram_Commit.thy ===== *)
theory Nvram_Commit
  imports Nvram_Vars "HOL-Library.Sublist"
begin

text \<open>
  What \<open>nvram_commit\<close> writes and what \<open>_nvram_rehash\<close> and \<open>nvram_open\<close> read back. The memory that a
  commit leaves is described in closed form: a header, the tuples that fit, a NUL. The parser of
  that memory performs the assignments of exactly these tuples.
\<close>

section \<open>Tuples\<close>

definition tuples :: "nvram_handle \<Rightarrow> nvram_tuple list" where
  "tuples h = concat (nvram_hash h)"

text \<open>C strings; a name has no equals sign. No value is NULL.\<close>

definition tuple_ok :: "nvram_tuple \<Rightarrow> bool" where
  "tuple_ok t \<longleftrightarrow> 0 \<notin> set (t_name t) \<and> 0x3d \<notin> set (t_name t) \<and>
     (case t_value t of None \<Rightarrow> False | Some v \<Rightarrow> 0 \<notin> set v)"

definition pair_of :: "nvram_tuple \<Rightarrow> bytes \<times> bytes" where
  "pair_of t = (t_name t, the (t_value t))"

definition ser :: "nvram_tuple \<Rightarrow> bytes" where
  "ser t = t_name t @ [0x3d] @ the (t_value t) @ [0]"

definition sers :: "nvram_tuple list \<Rightarrow> bytes" where
  "sers ts = concat (map ser ts)"

lemma sers_simps [simp]: "sers [] = []" "sers (t # ts) = ser t @ sers ts" "sers (a @ b) = sers a @ sers b"
  by (simp_all add: sers_def)

lemma length_ser: "length (ser t) = length (t_name t) + 1 + length (the (t_value t)) + 1"
  by (simp add: ser_def)

lemma tuples_set: "t \<in> set (tuples h) \<longleftrightarrow> (\<exists>i < length (nvram_hash h). t \<in> set (nvram_hash h ! i))"
  unfolding tuples_def set_concat by (metis (no_types, lifting) UN_iff in_set_conv_nth)

lemma bucket_tuples: "table_ok h \<Longrightarrow> t \<in> set (nvram_hash h ! bucket_of n) \<Longrightarrow> t \<in> set (tuples h)"
  unfolding tuples_set by (rule exI [of _ "bucket_of n"]) (simp add: table_ok_def)

lemma distinct_buckets:
  "(\<And>i. i < length tss \<Longrightarrow> distinct (map f (tss ! i)) \<and> (\<forall>t \<in> set (tss ! i). g (f t) = k + i)) \<Longrightarrow>
     distinct (map f (concat tss))"
proof (induction tss arbitrary: k)
  case (Cons ts tss)
  have "distinct (map f (concat tss))"
    by (rule Cons.IH [of "Suc k"]) (use Cons.prems [of "Suc _"] in auto)
  moreover have "g (f t) = k" if "t \<in> set ts" for t
    using Cons.prems [of 0] that by auto
  moreover have "g (f t) > k" if "t \<in> set (concat tss)" for t
  proof -
    from that obtain ts where "ts \<in> set tss" "t \<in> set ts" by auto
    then obtain i where "i < length tss" "t \<in> set (tss ! i)" by (metis in_set_conv_nth)
    then show ?thesis using Cons.prems [of "Suc i"] by auto
  qed
  ultimately show ?case using Cons.prems [of 0] by fastforce
qed simp

lemma distinct_tuples: "table_ok h \<Longrightarrow> distinct (map t_name (tuples h))"
  unfolding tuples_def
  by (rule distinct_buckets [where g = bucket_of and k = 0]) (simp add: table_ok_def bucket_ok_def)

lemma lookup_member: "distinct (map t_name ts) \<Longrightarrow> t \<in> set ts \<Longrightarrow> lookup ts (t_name t) = t_value t"
  by (induction ts) (auto simp: image_iff)

lemma lookup_SomeD: "lookup ts n = Some v \<Longrightarrow> \<exists>t \<in> set ts. t_name t = n \<and> t_value t = Some v"
  by (induction ts) (auto split: if_splits)

lemma get_tuples:
  assumes ok: "table_ok h"
  shows "nvram_get h n = Some v \<longleftrightarrow> (\<exists>t \<in> set (tuples h). t_name t = n \<and> t_value t = Some v)"
proof
  assume "nvram_get h n = Some v"
  then obtain t where "t \<in> set (nvram_hash h ! bucket_of n)" "t_name t = n" "t_value t = Some v"
    by (auto simp: nvram_get_lookup dest!: lookup_SomeD)
  then show "\<exists>t \<in> set (tuples h). t_name t = n \<and> t_value t = Some v"
    using bucket_tuples [OF ok] by blast
next
  assume "\<exists>t \<in> set (tuples h). t_name t = n \<and> t_value t = Some v"
  then obtain t i where "i < 257" "t \<in> set (nvram_hash h ! i)" "t_name t = n" "t_value t = Some v"
    using ok by (auto simp: tuples_set table_ok_def)
  moreover from this have "bucket_ok i (nvram_hash h ! i)" using ok by (simp add: table_ok_def)
  ultimately show "nvram_get h n = Some v"
    using lookup_member [of "nvram_hash h ! i" t] by (auto simp: nvram_get_lookup bucket_ok_def)
qed

lemma get_map_of:
  assumes "table_ok h" and "\<forall>t \<in> set (tuples h). tuple_ok t"
  shows "nvram_get h = map_of (map pair_of (tuples h))"
proof
  fix n
  have d: "distinct (map fst (map pair_of (tuples h)))"
    using distinct_tuples [OF assms(1)] by (simp add: pair_of_def comp_def)
  have "nvram_get h n = Some v \<longleftrightarrow> map_of (map pair_of (tuples h)) n = Some v" for v
    using assms(2) d
    by (auto simp: get_tuples [OF assms(1)] pair_of_def tuple_ok_def image_iff split: option.splits)
  then show "nvram_get h n = map_of (map pair_of (tuples h)) n" by (metis option.exhaust)
qed

lemma nvram_set_tuples:
  assumes "nvram_set h n v = (r, h')" and t: "t \<in> set (tuples h')" and ok: "table_ok h"
  shows "t \<in> set (tuples h) \<or> t_name t = n \<and> (t_value t = Some v \<or> nv_mem h \<noteq> [])"
proof -
  let ?ts = "nvram_hash h ! bucket_of n"
  have old: "t \<in> set (tuples h)" if "t \<in> set ?ts" for t
    by (rule bucket_tuples [OF ok that])
  have step: "t \<in> set (tuples h) \<or> t \<in> set ts" if "nvram_hash h' = (nvram_hash h)[bucket_of n := ts]" for ts
    using t that by (auto simp: tuples_def dest!: set_update_subset_insert [THEN subsetD])
  note [simp] = nvram_set_def nvram_realloc_def Let_def
  show ?thesis
  proof (cases "tuple_index n ?ts < length ?ts")
    case True
    obtain h1 u stored where r: "nvram_realloc_value h (?ts ! tuple_index n ?ts) v = (h1, u, stored)"
      by (metis prod_cases3)
    note c = realloc_value_cases [OF r]
    from assms(1) r c True
    have "h' = h \<or> nvram_hash h' = (nvram_hash h)[bucket_of n := ?ts[tuple_index n ?ts := u]]"
      by (auto split: if_splits)
    moreover have "t \<in> set (tuples h) \<or> t = u" if "nvram_hash h' = (nvram_hash h)[bucket_of n := ?ts[tuple_index n ?ts := u]]"
      using step [OF that] old set_update_subset_insert [of ?ts "tuple_index n ?ts" u] by auto
    ultimately show ?thesis
      using t c tuple_index_name [OF True] by auto
  next
    case False
    obtain b h1 where a: "alloc h = (b, h1)" by fastforce
    obtain h2 u stored where r: "nvram_realloc_value h1 \<lparr>t_name = n, t_value = None\<rparr> v = (h2, u, stored)"
      by (metis prod_cases3)
    note c = realloc_value_cases [OF r]
    have "nvram_hash h1 = nvram_hash h" "nv_mem h = [] \<Longrightarrow> b \<and> nv_mem h1 = []"
      using a by (auto simp: alloc_def split: list.splits)
    with assms(1) a r c False
    have "nvram_hash h' = nvram_hash h \<or> nvram_hash h' = (nvram_hash h)[bucket_of n := u # ?ts]"
      by (auto split: if_splits)
    moreover have "t \<in> set (tuples h) \<or> t = u" if "nvram_hash h' = (nvram_hash h)[bucket_of n := u # ?ts]"
      using step [OF that] old by auto
    ultimately show ?thesis
      using t c \<open>nv_mem h = [] \<Longrightarrow> b \<and> nv_mem h1 = []\<close> by (auto simp: tuples_def)
  qed
qed

section \<open>The tuples that fit\<close>

fun fit_bucket :: "nat \<Rightarrow> nat \<Rightarrow> nvram_tuple list \<Rightarrow> nvram_tuple list" where
  "fit_bucket e p [] = []"
| "fit_bucket e p (t # ts) =
     (if p + length (ser t) > e then [] else t # fit_bucket e (p + length (ser t)) ts)"

fun fit_buckets :: "nat \<Rightarrow> nat \<Rightarrow> nvram_tuple list list \<Rightarrow> nvram_tuple list" where
  "fit_buckets e p [] = []"
| "fit_buckets e p (ts # tss) =
     fit_bucket e p ts @ fit_buckets e (p + length (sers (fit_bucket e p ts))) tss"

lemma fit_bucket_subseq: "subseq (fit_bucket e p ts) ts"
  by (induction ts arbitrary: p) auto

lemma fit_buckets_subseq: "subseq (fit_buckets e p tss) (concat tss)"
  by (induction tss arbitrary: p) (auto intro: list_emb_append_mono fit_bucket_subseq)

lemma fit_bucket_end: "p \<le> e \<Longrightarrow> p + length (sers (fit_bucket e p ts)) \<le> e"
proof (induction ts arbitrary: p)
  case (Cons t ts)
  show ?case using Cons.IH [of "p + length (ser t)"] Cons.prems by auto
qed simp

lemma fit_buckets_end: "p \<le> e \<Longrightarrow> p + length (sers (fit_buckets e p tss)) \<le> e"
proof (induction tss arbitrary: p)
  case (Cons ts tss)
  show ?case using Cons.IH [OF fit_bucket_end [OF Cons.prems, of ts]] by (simp add: add.assoc)
qed simp

lemma fit_bucket_all: "p + length (sers ts) \<le> e \<Longrightarrow> fit_bucket e p ts = ts"
  by (induction ts arbitrary: p) auto

lemma fit_buckets_all: "p + length (sers (concat tss)) \<le> e \<Longrightarrow> fit_buckets e p tss = concat tss"
  by (induction tss arbitrary: p) (auto simp: fit_bucket_all)

lemma write_at: "length d \<le> length mid \<Longrightarrow> mem_write (pre @ mid) (length pre) d = Some (pre @ d @ drop (length d) mid)"
  by (simp add: mem_write_def)

lemma commit_bucket_eq:
  "\<forall>t \<in> set ts. tuple_ok t \<Longrightarrow> e \<le> length pre + length mid \<Longrightarrow> w = sers (fit_bucket e (length pre) ts) \<Longrightarrow>
     commit_bucket e ts (pre @ mid, length pre) = Some (pre @ w @ drop (length w) mid, length (pre @ w))"
proof (induction ts arbitrary: pre mid w)
  case (Cons t ts)
  obtain v where v: "t_value t = Some v" using Cons.prems(1) by (auto simp: tuple_ok_def split: option.splits)
  have s: "t_name t @ [0x3d] @ v @ [0] = ser t" using v by (simp add: ser_def)
  show ?case
  proof (cases "length pre + length (ser t) > e")
    case True
    then show ?thesis using v Cons.prems by (simp add: length_ser)
  next
    case False
    have "commit_bucket e (t # ts) (pre @ mid, length pre) =
        commit_bucket e ts ((pre @ ser t) @ drop (length (ser t)) mid, length (pre @ ser t))"
      using False v Cons.prems(2) write_at [of "ser t" mid pre] s by (simp add: length_ser)
    also have "\<dots> = Some (pre @ w @ drop (length w) mid, length (pre @ w))"
      using False Cons.prems by (subst Cons.IH [OF _ _ refl]) (auto simp: add.commute)
    finally show ?thesis .
  qed
qed simp

lemma commit_buckets_eq:
  "\<forall>t \<in> set (concat tss). tuple_ok t \<Longrightarrow> length pre \<le> e \<Longrightarrow> e \<le> length pre + length mid \<Longrightarrow>
     w = sers (fit_buckets e (length pre) tss) \<Longrightarrow>
     commit_buckets e tss (pre @ mid, length pre) = Some (pre @ w @ drop (length w) mid, length (pre @ w))"
proof (induction tss arbitrary: pre mid w)
  case (Cons ts tss)
  let ?u = "sers (fit_bucket e (length pre) ts)"
  have le: "length (pre @ ?u) \<le> e" using fit_bucket_end [OF Cons.prems(2)] by simp
  have "commit_buckets e (ts # tss) (pre @ mid, length pre) =
      commit_buckets e tss ((pre @ ?u) @ drop (length ?u) mid, length (pre @ ?u))"
    using Cons.prems by (subst commit_buckets.simps, subst commit_bucket_eq [OF _ _ refl]) auto
  also have "\<dots> = Some (pre @ w @ drop (length w) mid, length (pre @ w))"
    using Cons.prems le by (subst Cons.IH [OF _ _ _ refl]) (auto simp: add.commute add.left_commute)
  finally show ?case .
qed simp

lemma read_at: "n \<le> length mid \<Longrightarrow> mem_read (pre @ mid) (length pre) n = Some (take n mid)"
  by (simp add: mem_read_def)

lemma commit_end_eq:
  assumes "2 \<le> length mid" and "(length pre + length mid) mod 4 = 0"
  shows "\<exists>tail. commit_end (pre @ mid, length pre) = Some (pre @ 0 # tail, length pre + 2) \<and>
    Suc (length tail) = length mid"
proof -
  obtain b mid' where mid: "mid = b # mid'" using assms(1) by (cases mid) auto
  have set: "arr_set (pre @ mid) (length pre) 0 = Some (pre @ 0 # mid')"
    using mid by (simp add: arr_set_def)
  show ?thesis
  proof (cases "Suc (length pre) mod 4 = 0")
    case True
    then show ?thesis using set mid by (simp add: commit_end_def)
  next
    case False
    define k where "k = 4 - Suc (length pre) mod 4"
    have k: "k \<le> length mid'"
      using assms mid False unfolding k_def by simp presburger
    have "mem_write (pre @ 0 # mid') (Suc (length pre)) (replicate k 0) = Some (pre @ 0 # replicate k 0 @ drop k mid')"
      using k write_at [of "replicate k 0" mid' "pre @ [0]"] by simp
    then have "commit_end (pre @ mid, length pre) = Some (pre @ 0 # replicate k 0 @ drop k mid', length pre + 2)"
      using set False unfolding k_def by (simp add: commit_end_def)
    then show ?thesis using k mid by simp
  qed
qed

section \<open>The memory after a commit\<close>

text \<open>What \<open>nvram_open\<close> establishes and every operation keeps: the table, the mapping, its header.\<close>

definition layout_ok :: "u32 \<Rightarrow> nvram_handle \<Rightarrow> bool" where
  "layout_ok ps h \<longleftrightarrow> length (nv_mmap h) = unat ps \<and> nv_length h = ps \<and> unat ps mod 4 = 0 \<and>
     unat (nv_offset h) + 0x8000 \<le> unat ps \<and> unat (nv_offset h) mod 4 = 0"

definition handle_ok :: "u32 \<Rightarrow> nvram_handle \<Rightarrow> bool" where
  "handle_ok ps h \<longleftrightarrow> table_ok h \<and> (\<forall>t \<in> set (tuples h). tuple_ok t) \<and> layout_ok ps h \<and>
     magic_scan (nv_mmap h) 0 (scan_turns ps) = Some (int (unat (nv_offset h)))"

definition written :: "u32 \<Rightarrow> nvram_handle \<Rightarrow> nvram_tuple list" where
  "written ps h = fit_buckets (unat ps - 2) (unat (nv_offset h) + 20) (nvram_hash h)"

definition nv_image :: "nvram_handle \<Rightarrow> nvram_header_t \<Rightarrow> bytes \<Rightarrow> bytes" where
  "nv_image h header body = take (unat (nv_offset h)) (nv_mmap h) @ nvh_bytes header @ body"

lemma length_nvh_bytes [simp]: "length (nvh_bytes h) = 20"
  by (simp add: nvh_bytes_def)

lemma nvh_of_bytes_bytes [simp]: "nvh_of_bytes (nvh_bytes h @ rest) = h" "nvh_of_bytes (nvh_bytes h) = h"
  by (simp_all add: nvh_of_bytes_def nvh_bytes_def)

definition final_header :: "nvram_handle \<Rightarrow> nat \<Rightarrow> bytes \<Rightarrow> nvram_header_t" where
  "final_header h n body =
     (let r = (regenerate_header h \<lparr>nvh_magic = 0, nvh_len = 0, crc_ver_init = 0, config_refresh = 0, config_ncdl = 0\<rparr>)
                \<lparr>nvh_len := of_nat (NVRAM_ROUNDUP (n + 22) 4)\<rparr>;
          crc = hndcrc8 (take (NVRAM_ROUNDUP (n + 22) 4 - 20) body)
                  (hndcrc8 (drop NVRAM_CRC_START_POSITION (nvh_bytes (r\<lparr>nvh_magic := 0, nvh_len := 0\<rparr>))) 0xff)
      in r\<lparr>crc_ver_init := crc_ver_init r OR ucast crc\<rparr>)"

lemma regenerate_header_old:
  "(regenerate_header h a)\<lparr>nvh_len := n\<rparr> = (regenerate_header h b)\<lparr>nvh_len := n\<rparr>"
  by (cases a; cases b) (auto simp: regenerate_header_def Let_def split: option.splits)

lemma roundup_le: "x \<le> y \<Longrightarrow> y mod 4 = 0 \<Longrightarrow> NVRAM_ROUNDUP x 4 \<le> y"
  unfolding NVRAM_ROUNDUP_def by simp presburger

lemma roundup_ge: "x \<le> NVRAM_ROUNDUP x 4"
  unfolding NVRAM_ROUNDUP_def by simp

lemma written_end:
  assumes "layout_ok ps h"
  shows "unat (nv_offset h) + 22 + length (sers (written ps h)) \<le> unat ps"
  using assms fit_buckets_end [of "unat (nv_offset h) + 20" "unat ps - 2" "nvram_hash h"]
  unfolding written_def layout_ok_def by linarith

lemma space_left:
  assumes "layout_ok ps h"
  shows "unat (ps - nv_offset h) = unat ps - unat (nv_offset h)"
    "unat (ps - nv_offset h - 20) = unat ps - unat (nv_offset h) - 20"
proof -
  have le: "nv_offset h \<le> ps" using assms by (simp add: layout_ok_def word_le_nat_alt)
  then show d: "unat (ps - nv_offset h) = unat ps - unat (nv_offset h)" by (rule unat_sub)
  have "(20 :: u32) \<le> ps - nv_offset h" using assms d by (auto simp: layout_ok_def word_le_nat_alt)
  from unat_sub [OF this] show "unat (ps - nv_offset h - 20) = unat ps - unat (nv_offset h) - 20"
    by (simp add: d)
qed

text \<open>The three sections of a mapping, and replacing the header.\<close>

lemma split_map:
  assumes "layout_ok ps h"
  obtains B C where "nv_mmap h = take (unat (nv_offset h)) (nv_mmap h) @ B @ C" "length B = 20"
    "length C = unat ps - unat (nv_offset h) - 20"
proof
  let ?o = "unat (nv_offset h)"
  show "nv_mmap h = take ?o (nv_mmap h) @ take 20 (drop ?o (nv_mmap h)) @ drop 20 (drop ?o (nv_mmap h))"
    by (simp only: append_take_drop_id)
qed (use assms in \<open>auto simp: layout_ok_def\<close>)

lemma image_rewrite:
  assumes "layout_ok ps h"
  shows "mem_write (nv_image h a body) (unat (nv_offset h)) (nvh_bytes b) = Some (nv_image h b body)"
  using assms write_at [of "nvh_bytes b" "nvh_bytes a @ body" "take (unat (nv_offset h)) (nv_mmap h)"]
  by (simp add: nv_image_def layout_ok_def min_def)

lemma image_data:
  assumes "layout_ok ps h" and "n \<le> length body"
  shows "mem_read (nv_image h a body) (unat (nv_offset h) + 20) n = Some (take n body)"
  using assms read_at [of n body "take (unat (nv_offset h)) (nv_mmap h) @ nvh_bytes a"]
  by (simp add: nv_image_def layout_ok_def min_def)

text \<open>Up to the double NUL: the steps of \<open>nvram_commit\<close> with a regenerated header \<open>r\<close>.\<close>

lemma commit_tuples:
  assumes ok: "layout_ok ps h" and ts: "\<forall>t \<in> set (tuples h). tuple_ok t"
    and o: "o1 = unat (nv_offset h)" and w: "w = sers (written ps h)"
  obtains mm1 mm2 s tail
  where "mem_write (nv_mmap h) o1 (nvh_bytes r) = Some mm1"
    "mem_write mm1 (o1 + 20) (replicate (unat (ps - nv_offset h - 20)) 0xff) = Some mm2"
    "commit_buckets (o1 + unat ps - o1 - 2) (nvram_hash h) (mm2, o1 + 20) = Some s"
    "commit_end s = Some (nv_image h r (w @ 0 # tail), o1 + length w + 22)"
    "length (w @ 0 # tail) = unat ps - o1 - 20"
proof -
  let ?A = "take o1 (nv_mmap h)"
  obtain B C where m: "nv_mmap h = ?A @ B @ C" and B: "length B = 20" and C: "length C = unat ps - o1 - 20"
    unfolding o by (rule split_map [OF ok])
  have l: "o1 \<le> length (nv_mmap h)" "o1 + 32768 \<le> unat ps" using ok o by (simp_all add: layout_ok_def)
  let ?P = "?A @ nvh_bytes r" and ?F = "replicate (length C) 0xff :: bytes"
  have A: "length ?A = o1" and P: "length ?P = o1 + 20" using l by simp_all
  have w1: "mem_write (nv_mmap h) o1 (nvh_bytes r) = Some (?P @ C)"
    using write_at [of "nvh_bytes r" "B @ C" ?A] m A B by simp
  have w2: "mem_write (?P @ C) (o1 + 20) (replicate (unat (ps - nv_offset h - 20)) 0xff) = Some (?P @ ?F)"
    using write_at [of ?F C ?P] P C space_left [OF ok] o by simp
  have w3: "commit_buckets (o1 + unat ps - o1 - 2) (nvram_hash h) (?P @ ?F, o1 + 20) =
      Some ((?P @ w) @ drop (length w) ?F, length (?P @ w))"
    using commit_buckets_eq [of "nvram_hash h" ?P "unat ps - 2" ?F, OF _ _ _ refl] ts P l C
    by (simp add: tuples_def written_def o w)
  have n: "o1 + 22 + length w \<le> unat ps" unfolding o w by (rule written_end [OF ok])
  have c: "2 \<le> length (drop (length w) ?F)" "(length (?P @ w) + length (drop (length w) ?F)) mod 4 = 0"
    using n C P ok by (auto simp: layout_ok_def)
  from commit_end_eq [OF c] obtain tail
    where e: "commit_end ((?P @ w) @ drop (length w) ?F, length (?P @ w)) = Some ((?P @ w) @ 0 # tail, length (?P @ w) + 2)"
      and tl: "Suc (length tail) = length (drop (length w) ?F)"
    by blast
  have "commit_end ((?P @ w) @ drop (length w) ?F, length (?P @ w)) = Some (nv_image h r (w @ 0 # tail), o1 + length w + 22)"
    unfolding e using P by (simp add: nv_image_def o)
  moreover have "length (w @ 0 # tail) = unat ps - o1 - 20" using tl n C by simp
  ultimately show thesis by (rule that [OF w1 w2 w3])
qed

lemma unat_len: "20 \<le> n \<Longrightarrow> n < 4294967296 \<Longrightarrow> unat (of_nat n - 20 :: u32) = n - 20"
proof -
  assume "20 \<le> n" "n < 4294967296"
  then have "of_nat n - 20 = (of_nat (n - 20) :: u32)" by simp
  then show ?thesis using \<open>n < 4294967296\<close> by (simp add: unat_of_nat_small)
qed

lemma written_len:
  assumes "layout_ok ps h" and "n = NVRAM_ROUNDUP (length (sers (written ps h)) + 22) 4"
  shows "22 \<le> n" "n \<le> unat ps - unat (nv_offset h)" "unat (of_nat n :: u32) = n" "unat (of_nat n - 20 :: u32) = n - 20"
proof -
  let ?x = "length (sers (written ps h)) + 22" and ?y = "unat ps - unat (nv_offset h)"
  have "?x \<le> ?y" using written_end [OF assms(1)] by linarith
  moreover have "?y mod 4 = 0" using assms(1) by (auto simp: layout_ok_def mod_eq_0_iff_dvd intro: dvd_diff_nat)
  ultimately have y: "n \<le> ?y" unfolding assms(2) by (rule roundup_le)
  then have u: "n < 4294967296" using unat_u32_less [of ps] by linarith
  show g: "22 \<le> n" unfolding assms(2) using roundup_ge [of ?x] by linarith
  show "n \<le> ?y" by (fact y)
  show "unat (of_nat n :: u32) = n" using u by (simp add: unat_of_nat_small)
  show "unat (of_nat n - 20 :: u32) = n - 20" using u g by (simp add: unat_len)
qed

lemma nvram_commit_eq:
  assumes ok: "layout_ok ps h" and ts: "\<forall>t \<in> set (tuples h). tuple_ok t" and w: "w = sers (written ps h)"
  shows "\<exists>tail. nvram_commit ps h =
        nvram_rehash (h\<lparr>nv_mmap := nv_image h (final_header h (length w) (w @ 0 # tail)) (w @ 0 # tail)\<rparr>) \<and>
      length (w @ 0 # tail) = unat ps - unat (nv_offset h) - 20"
proof -
  let ?o = "unat (nv_offset h)" and ?N = "NVRAM_ROUNDUP (length w + 22) 4"
  obtain B C where m: "nv_mmap h = take ?o (nv_mmap h) @ B @ C" "length B = 20"
    by (rule split_map [OF ok])
  have l: "length (take ?o (nv_mmap h)) = ?o" using ok by (simp add: layout_ok_def)
  have old: "nvram_header h = Some (nvh_of_bytes B)"
    using read_at [of 20 "B @ C" "take ?o (nv_mmap h)"] m l by (simp add: nvram_header_def)
  define r where "r = regenerate_header h (nvh_of_bytes B)"
  define r' where "r' = r\<lparr>nvh_len := of_nat ?N\<rparr>"
  obtain mm1 mm2 s tail where steps:
    "mem_write (nv_mmap h) ?o (nvh_bytes r) = Some mm1"
    "mem_write mm1 (?o + 20) (replicate (unat (ps - nv_offset h - 20)) 0xff) = Some mm2"
    "commit_buckets (?o + unat ps - ?o - 2) (nvram_hash h) (mm2, ?o + 20) = Some s"
    "commit_end s = Some (nv_image h r (w @ 0 # tail), ?o + length w + 22)"
    and b: "length (w @ 0 # tail) = unat ps - ?o - 20"
    by (rule commit_tuples [OF ok ts refl w])
  note N = written_len [OF ok, of ?N, OF arg_cong [where f = "\<lambda>w. NVRAM_ROUNDUP (length w + 22) 4", OF w]]
  define c where "c = hndcrc8 (take (?N - 20) (w @ 0 # tail))
      (hndcrc8 (drop NVRAM_CRC_START_POSITION (nvh_bytes (r'\<lparr>nvh_magic := 0, nvh_len := 0\<rparr>))) 0xff)"
  have le: "?N - 20 \<le> length (w @ 0 # tail)" using N(2) b by linarith
  have crc: "commit_crc r' (nv_image h r' (w @ 0 # tail)) ?o = Some c"
    using image_data [OF ok le, of r'] N(4)
    by (simp add: commit_crc_def c_def Let_def r'_def nvh_bytes_def del: take_append length_append)
  have f: "final_header h (length w) (w @ 0 # tail) = r'\<lparr>crc_ver_init := crc_ver_init r' OR ucast c\<rparr>"
    unfolding final_header_def c_def r'_def r_def Let_def by (subst (1 2 3) regenerate_header_old) (rule refl)
  have cv: "crc_ver_init r' = crc_ver_init r" by (simp add: r'_def)
  have "nvram_commit ps h = nvram_rehash (h\<lparr>nv_mmap := nv_image h (final_header h (length w) (w @ 0 # tail)) (w @ 0 # tail)\<rparr>)"
    using old steps crc image_rewrite [OF ok] cv
    by (simp add: nvram_commit_def r_def [symmetric] r'_def [symmetric] f Let_def)
  with b show ?thesis by blast
qed

section \<open>Parsing\<close>

definition puts :: "nvram_tuple list \<Rightarrow> var_op list" where
  "puts ts = map (\<lambda>t. Put (t_name t) (the (t_value t))) ts"

lemma strchr_name: "0 \<notin> set a \<Longrightarrow> c \<notin> set a \<Longrightarrow> strchr (a @ c # b) c = Some (Some (length a))"
  by (induction a) auto

lemma c_string_value: "0 \<notin> set a \<Longrightarrow> c_string (a @ 0 # b) = Some a"
  by (induction a) auto

lemma rehash_loop_ser:
  assumes "tuple_ok t"
  shows "rehash_loop (ser t @ rest) h = rehash_loop rest (snd (nvram_set h (t_name t) (the (t_value t))))"
proof -
  obtain v where v: "t_value t = Some v" "0 \<notin> set v" and n: "0 \<notin> set (t_name t)" "0x3d \<notin> set (t_name t)"
    using assms by (auto simp: tuple_ok_def split: option.splits)
  let ?s = "t_name t @ 0x3d # v @ 0 # rest"
  have s: "ser t @ rest = ?s" using v by (simp add: ser_def)
  have "hd ?s \<noteq> 0" using n by (cases "t_name t") auto
  moreover have "drop (Suc (length (t_name t))) ?s = v @ 0 # rest"
    "drop (length (t_name t) + 1 + length v + 1) ?s = rest" by simp_all
  ultimately show ?thesis
    unfolding s using strchr_name [OF n] c_string_value [OF v(2)] v
    by (subst rehash_loop.simps) simp
qed

lemma rehash_loop_sers:
  "\<forall>t \<in> set ts. tuple_ok t \<Longrightarrow>
     rehash_loop (sers ts @ 0 # tail) h = Some (snd (run_ops nvram_set nvram_unset (puts ts) h))"
proof (induction ts arbitrary: h)
  case Nil
  then show ?case by (subst rehash_loop.simps) (simp add: puts_def)
next
  case (Cons t ts)
  then show ?case by (simp add: rehash_loop_ser puts_def split_beta)
qed

lemma fold_puts:
  "distinct (map t_name ts) \<Longrightarrow> fold apply_op (puts ts) m = m ++ map_of (map pair_of ts)"
proof (induction ts arbitrary: m)
  case (Cons t ts)
  have "t_name t \<notin> dom (map_of (map pair_of ts))"
    using Cons.prems by (auto simp: dom_map_of_conv_image_fst pair_of_def image_iff)
  then have upd: "m(t_name t \<mapsto> the (t_value t)) ++ map_of (map pair_of ts) = m ++ map_of (map pair_of (t # ts))"
    by (simp add: pair_of_def map_add_upd_left)
  have "fold apply_op (puts (t # ts)) m = fold apply_op (puts ts) (m(t_name t \<mapsto> the (t_value t)))"
    by (simp add: puts_def)
  also have "\<dots> = m(t_name t \<mapsto> the (t_value t)) ++ map_of (map pair_of ts)"
    by (rule Cons.IH) (use Cons.prems in simp)
  also note upd
  finally show ?case .
qed (simp add: puts_def)

lemma var_steps_only:
  "var_steps xs m rs m' \<Longrightarrow> m' n = Some v \<Longrightarrow> m n = Some v \<or> Put n v \<in> set xs"
  by (induction rule: var_steps.induct) (auto elim!: var_step.cases split: if_splits)

lemma op_values_puts: "op_values (puts ts) = map (the \<circ> t_value) ts"
  by (induction ts) (simp_all add: puts_def)

section \<open>The special parameters\<close>

definition sdram_names :: "bytes list" where
  "sdram_names = [cs ''sdram_init'', cs ''sdram_config'', cs ''sdram_refresh'', cs ''sdram_ncdl'']"

text \<open>The values that \<open>_nvram_rehash\<close> takes from a header, and those of a header without parameters.\<close>

definition sdram_of :: "nvram_header_t \<Rightarrow> var_map" where
  "sdram_of header =
     [cs ''sdram_init'' \<mapsto> cs ''0x'' @ print_hex 4 (unat (ucast (drop_bit 16 (crc_ver_init header)) :: u16)),
      cs ''sdram_config'' \<mapsto> cs ''0x'' @ print_hex 4 (unat (ucast (config_refresh header AND 0xffff) :: u16)),
      cs ''sdram_refresh'' \<mapsto> cs ''0x'' @ print_hex 4 (unat (ucast (drop_bit 16 (config_refresh header) AND 0xffff) :: u16)),
      cs ''sdram_ncdl'' \<mapsto> cs ''0x'' @ print_hex 8 (unat (config_ncdl header))]"

definition sdram_defaults :: var_map where
  "sdram_defaults =
     [cs ''sdram_init'' \<mapsto> cs ''0x0419'', cs ''sdram_config'' \<mapsto> cs ''0x0000'',
      cs ''sdram_refresh'' \<mapsto> cs ''0x8040'', cs ''sdram_ncdl'' \<mapsto> cs ''0x00000000'']"

lemma cs_names [simp]: "0 \<notin> set (cs ''sdram_init'')" "0x3d \<notin> set (cs ''sdram_init'')"
    "0 \<notin> set (cs ''sdram_config'')" "0x3d \<notin> set (cs ''sdram_config'')"
    "0 \<notin> set (cs ''sdram_refresh'')" "0x3d \<notin> set (cs ''sdram_refresh'')"
    "0 \<notin> set (cs ''sdram_ncdl'')" "0x3d \<notin> set (cs ''sdram_ncdl'')"
  by (simp_all add: cs_def)

lemma hex_digit_not_nul: "d < 16 \<Longrightarrow> hex_digit d \<noteq> 0"
proof -
  assume "d < 16"
  then have "unat (hex_digit d) = (if d < 10 then 0x30 + d else 0x41 + (d - 10))"
    unfolding hex_digit_def by (subst unat_of_nat_small) auto
  then show ?thesis by (auto split: if_splits)
qed

lemma print_hex_not_nul: "0 \<notin> set (print_hex k v)"
  by (induction k arbitrary: v) (simp_all add: hex_digit_not_nul [symmetric])

lemma length_print_hex [simp]: "length (print_hex k v) = k"
  by (induction k arbitrary: v) simp_all

text \<open>Assignments that succeed keep the tuples well formed.\<close>

definition good :: "nvram_handle \<Rightarrow> bool" where
  "good h \<longleftrightarrow> table_ok h \<and> nv_mem h = [] \<and> (\<forall>t \<in> set (tuples h). tuple_ok t)"

lemma good_set:
  assumes g: "good h" and n: "0 \<notin> set n" "0x3d \<notin> set n" and v: "0 \<notin> set v"
  shows "good (snd (nvram_set h n v)) \<and> same_map h (snd (nvram_set h n v))"
proof -
  obtain r h' where s: "nvram_set h n v = (r, h')" by fastforce
  have ok: "table_ok h" using g by (simp add: good_def)
  note post = nvram_set_post [OF ok, of n v, unfolded s set_post_def prod.case]
  have "tuple_ok t" if "t \<in> set (tuples h')" for t
    using nvram_set_tuples [OF s that ok] g n v by (auto simp: good_def tuple_ok_def)
  with post g s show ?thesis by (simp add: good_def)
qed

lemma same_map_trans: "same_map a b \<Longrightarrow> same_map b c \<Longrightarrow> same_map a c"
  by (simp add: same_map_def)

lemma good_puts:
  "good h \<Longrightarrow> \<forall>t \<in> set ts. tuple_ok t \<Longrightarrow> h' = snd (run_ops nvram_set nvram_unset (puts ts) h) \<Longrightarrow>
     good h' \<and> same_map h h'"
proof (induction ts arbitrary: h)
  case (Cons t ts)
  let ?h = "snd (nvram_set h (t_name t) (the (t_value t)))"
  have "good ?h \<and> same_map h ?h"
    by (rule good_set) (use Cons.prems in \<open>auto simp: tuple_ok_def split: option.splits\<close>)
  moreover have "h' = snd (run_ops nvram_set nvram_unset (puts ts) ?h)"
    using Cons.prems(3) by (simp add: puts_def split_beta)
  ultimately show ?case using Cons.IH [of ?h] Cons.prems(2) same_map_trans by auto
qed (simp add: puts_def same_map_def)

lemma good_set_missing:
  assumes "good h" and "0 \<notin> set n" "0x3d \<notin> set n" and "0 \<notin> set v" and "length v < unat (nv_length h - nv_offset h)"
  shows "good (set_missing n v h) \<and> same_map h (set_missing n v h) \<and> nvram_get (set_missing n v h) = [n \<mapsto> v] ++ nvram_get h"
proof -
  obtain r h' where s: "nvram_set h n v = (r, h')" by fastforce
  have "table_ok h" "nv_room h v" using assms by (simp_all add: good_def nv_room_def)
  then have "nvram_get h' = (nvram_get h)(n \<mapsto> v)"
    using nvram_set_post [of h n v] s by (auto simp: set_post_def nv_room_def)
  with good_set [OF assms(1-4)] s assms(1) show ?thesis
    by (auto simp: set_missing_def same_map_def map_add_def fun_eq_iff split: option.splits)
qed

lemma good_rehash_sdram:
  assumes "good h" and "10 < unat (nv_length h - nv_offset h)"
  shows "good (rehash_sdram H h) \<and> same_map h (rehash_sdram H h) \<and> nvram_get (rehash_sdram H h) = sdram_of H ++ nvram_get h"
proof -
  have v: "0 \<notin> set (cs ''0x'' @ print_hex k x)" "length (cs ''0x'' @ print_hex k x) = 2 + k" for k x
    using print_hex_not_nul [of k x] by (auto simp: cs_def)
  note step = good_set_missing [OF _ cs_names(1,2) v(1)] good_set_missing [OF _ cs_names(3,4) v(1)]
    good_set_missing [OF _ cs_names(5,6) v(1)] good_set_missing [OF _ cs_names(7,8) v(1)]
  let ?i = "cs ''0x'' @ print_hex 4 (unat (ucast (drop_bit 16 (crc_ver_init H)) :: u16))"
  let ?c = "cs ''0x'' @ print_hex 4 (unat (ucast (config_refresh H AND 0xffff) :: u16))"
  let ?r = "cs ''0x'' @ print_hex 4 (unat (ucast (drop_bit 16 (config_refresh H) AND 0xffff) :: u16))"
  let ?n = "cs ''0x'' @ print_hex 8 (unat (config_ncdl H))"
  define h1 where "h1 = set_missing (cs ''sdram_init'') ?i h"
  define h2 where "h2 = set_missing (cs ''sdram_config'') ?c h1"
  define h3 where "h3 = set_missing (cs ''sdram_refresh'') ?r h2"
  define h4 where "h4 = set_missing (cs ''sdram_ncdl'') ?n h3"
  have 1: "good h1 \<and> same_map h h1 \<and> nvram_get h1 = [cs ''sdram_init'' \<mapsto> ?i] ++ nvram_get h"
    unfolding h1_def by (rule step(1)) (use assms v(2) in \<open>auto simp: same_map_def\<close>)
  have 2: "good h2 \<and> same_map h1 h2 \<and> nvram_get h2 = [cs ''sdram_config'' \<mapsto> ?c] ++ nvram_get h1"
    unfolding h2_def by (rule step(2)) (use assms 1 v(2) in \<open>auto simp: same_map_def\<close>)
  have 3: "good h3 \<and> same_map h2 h3 \<and> nvram_get h3 = [cs ''sdram_refresh'' \<mapsto> ?r] ++ nvram_get h2"
    unfolding h3_def by (rule step(3)) (use assms 1 2 v(2) in \<open>auto simp: same_map_def\<close>)
  have 4: "good h4 \<and> same_map h3 h4 \<and> nvram_get h4 = [cs ''sdram_ncdl'' \<mapsto> ?n] ++ nvram_get h3"
    unfolding h4_def by (rule step(4)) (use assms 1 2 3 v(2) in \<open>auto simp: same_map_def\<close>)
  have "rehash_sdram H h = h4" by (simp add: rehash_sdram_def Let_def h1_def h2_def h3_def h4_def)
  moreover have "[cs ''sdram_ncdl'' \<mapsto> ?n] ++ ([cs ''sdram_refresh'' \<mapsto> ?r] ++ ([cs ''sdram_config'' \<mapsto> ?c] ++
      ([cs ''sdram_init'' \<mapsto> ?i] ++ g))) = sdram_of H ++ g" for g
    by (auto simp: sdram_of_def map_add_def fun_eq_iff cs_def split: option.splits)
  ultimately show ?thesis
    using 1 2 3 4 by (auto simp: same_map_def)
qed

end
