(* ===== verification/Nvram_Reopen.thy ===== *)
theory Nvram_Reopen
  imports Nvram_Commit
begin

text \<open>
  Reading a committed image back: what \<open>_nvram_rehash\<close> finds in it, where \<open>nvram_open\<close> finds its
  header, and what the header says.
\<close>

section \<open>Rehashing an image\<close>

lemma free_frame: "same_map h (nvram_free h)" "nv_mem (nvram_free h) = nv_mem h"
  by (simp_all add: nvram_free_def same_map_def)

lemma get_free [simp]: "nvram_get (nvram_free h) = Map.empty"
  by (rule ext) (simp add: nvram_get_lookup nvram_free_def)

lemma tuples_free [simp]: "tuples (nvram_free h) = []"
  by (simp add: tuples_def nvram_free_def)

lemma table_ok_free [simp]: "table_ok (nvram_free h)"
  by (simp add: table_ok_def nvram_free_def bucket_ok_def)

definition holds :: "nvram_handle \<Rightarrow> nvram_header_t \<Rightarrow> nvram_tuple list \<Rightarrow> bytes \<Rightarrow> bool" where
  "holds h H ts tail \<longleftrightarrow> (\<exists>a. nv_mmap h = a @ nvh_bytes H @ sers ts @ 0 # tail \<and> length a = unat (nv_offset h)) \<and>
     (\<forall>t \<in> set ts. tuple_ok t)"

lemma rehash_image:
  assumes "holds h H ts tail"
  shows "nvram_rehash h = Some (0, rehash_sdram H (snd (run_ops nvram_set nvram_unset (puts ts) (nvram_free h))))"
proof -
  obtain a where a: "nv_mmap h = a @ nvh_bytes H @ sers ts @ 0 # tail" "length a = unat (nv_offset h)"
    and ts: "\<forall>t \<in> set ts. tuple_ok t" using assms by (auto simp: holds_def)
  have "nvram_header h = Some H"
    using a read_at [of 20 "nvh_bytes H @ sers ts @ 0 # tail" a] by (simp add: nvram_header_def)
  moreover have "drop (unat (nv_offset h) + 20) (nv_mmap h) = sers ts @ 0 # tail"
    using a by simp
  ultimately show ?thesis
    using rehash_loop_sers [OF ts] by (simp add: nvram_rehash_def)
qed

lemma value_in_sers: "t \<in> set ts \<Longrightarrow> length (the (t_value t)) + 2 \<le> length (sers ts)"
  by (induction ts) (auto simp: length_ser)

lemma rehash_good:
  assumes im: "holds h H ts tail" and d: "distinct (map t_name ts)" and mem: "nv_mem h = []"
    and space: "length (sers ts) + 20 \<le> unat (nv_length h - nv_offset h)"
  obtains h' where "nvram_rehash h = Some (0, h')" "good h'" "same_map h h'"
    "nvram_get h' = sdram_of H ++ map_of (map pair_of ts)"
proof -
  obtain rs h1 where run: "run_ops nvram_set nvram_unset (puts ts) (nvram_free h) = (rs, h1)" by fastforce
  have ts: "\<forall>t \<in> set ts. tuple_ok t" using im by (simp add: holds_def)
  have "good (nvram_free h)" using mem by (simp add: good_def free_frame)
  then have g: "good h1" "same_map h h1"
    using good_puts [OF _ ts refl, of "nvram_free h"] run free_frame(1) [of h] by (auto intro: same_map_trans)
  have room: "nv_room (nvram_free h) v" if "v \<in> set (op_values (puts ts))" for v
    using that mem space value_in_sers free_frame [of h]
    by (fastforce simp: nv_room_def op_values_puts same_map_def)
  have "nvram_get h1 = map_of (map pair_of ts)"
    using nv.ops_with_room [OF table_ok_free run room] fold_puts [OF d] by simp
  moreover have "10 < unat (nv_length h1 - nv_offset h1)" using g(2) space by (simp add: same_map_def)
  ultimately show thesis
    using good_rehash_sdram [OF g(1), of H] rehash_image [OF im] run g(2)
    by (intro that [of "rehash_sdram H h1"]) (auto intro: same_map_trans)
qed

lemma puts_same_map:
  "table_ok h \<Longrightarrow> run_ops nvram_set nvram_unset (puts ts) h = (rs, h') \<Longrightarrow> same_map h h'"
proof (induction ts arbitrary: h rs)
  case (Cons t ts)
  obtain r h1 where s: "nvram_set h (t_name t) (the (t_value t)) = (r, h1)" by fastforce
  note post = nvram_set_post [OF Cons.prems(1), of "t_name t" "the (t_value t)", unfolded s set_post_def prod.case]
  have "same_map h1 h'"
    using Cons.IH [of h1] Cons.prems(2) s post by (auto simp: puts_def split: prod.splits)
  with post show ?case by (auto intro: same_map_trans)
qed (simp add: puts_def same_map_def)

text \<open>With failing allocations variables may be missing, but none is invented.\<close>

definition only_new :: "bytes list \<Rightarrow> nvram_handle \<Rightarrow> nvram_handle \<Rightarrow> bool" where
  "only_new ns h h' \<longleftrightarrow> table_ok h' \<and> same_map h h' \<and>
     (\<forall>m x. nvram_get h' m = Some x \<longrightarrow> m \<in> set ns \<or> nvram_get h m = Some x)"

lemma set_missing_only:
  assumes "only_new ns h h'" and "n \<in> set ns"
  shows "only_new ns h (set_missing n v h')"
proof (cases "nvram_get h' n = None")
  case True
  obtain r h2 where s: "nvram_set h' n v = (r, h2)" by fastforce
  have ok: "table_ok h'" using assms(1) by (simp add: only_new_def)
  note post = nvram_set_post [OF ok, of n v, unfolded s set_post_def prod.case]
  have "m = n \<or> nvram_get h' m = Some x" if "nvram_get h2 m = Some x" for m x
    using post that by (auto split: if_splits)
  then have "only_new ns h h2"
    using assms post by (auto simp: only_new_def same_map_def)
  with s True show ?thesis by (simp add: set_missing_def)
qed (use assms in \<open>auto simp: set_missing_def\<close>)

lemma rehash_sdram_only:
  assumes "table_ok h"
  shows "only_new sdram_names h (rehash_sdram H h)"
proof -
  have "only_new sdram_names h h" using assms by (simp add: only_new_def same_map_def)
  then show ?thesis
    unfolding rehash_sdram_def Let_def by (intro set_missing_only) (simp_all add: sdram_names_def)
qed

lemma rehash_only:
  assumes im: "holds h H ts tail"
  shows "\<exists>h'. nvram_rehash h = Some (0, h') \<and> table_ok h' \<and> same_map h h' \<and>
    (\<forall>m x. nvram_get h' m = Some x \<longrightarrow> m \<in> set sdram_names \<or> (m, x) \<in> set (map pair_of ts))"
proof -
  obtain rs h1 where run: "run_ops nvram_set nvram_unset (puts ts) (nvram_free h) = (rs, h1)" by fastforce
  note sim = nv.ops_simulate [OF table_ok_free run]
  have "nvram_get h1 m = Some x \<longrightarrow> (m, x) \<in> set (map pair_of ts)" for m x
    using var_steps_only [of _ _ rs "nvram_get h1" m x] sim
    by (fastforce simp: puts_def pair_of_def)
  moreover have "only_new sdram_names h1 (rehash_sdram H h1)"
    by (rule rehash_sdram_only) (use sim in simp)
  moreover have "same_map h h1"
    by (rule same_map_trans [OF free_frame(1) puts_same_map [OF table_ok_free run]])
  ultimately show ?thesis
    using rehash_image [OF im] run unfolding only_new_def by (auto intro: same_map_trans)
qed

section \<open>The header\<close>

lemma final_header_simps [simp]:
  "nvh_magic (final_header h n body) = NVRAM_MAGIC"
  "nvh_len (final_header h n body) = of_nat (NVRAM_ROUNDUP (n + 22) 4)"
  by (simp_all add: final_header_def regenerate_header_def Let_def split: option.splits)

lemma drop_crc: "drop_bit 16 (x OR ucast (c :: u8)) = drop_bit 16 (x :: u32)"
  by (rule bit_word_eqI) (auto simp: bit_simps dest: bit_imp_le_length)

lemma print_hex_4: "print_hex 4 v = map (\<lambda>k. hex_digit (v div 16 ^ k mod 16)) [3, 2, 1, 0]"
proof -
  have four: "4 = Suc (Suc (Suc (Suc 0)))" by simp
  show ?thesis unfolding four by (simp add: div_mult2_eq [symmetric])
qed

lemma print_hex_8:
  "print_hex 8 v = map (\<lambda>k. hex_digit (v div 16 ^ k mod 16)) [7, 6, 5, 4, 3, 2, 1, 0]"
proof -
  have eight: "8 = Suc (Suc (Suc (Suc (Suc (Suc (Suc (Suc 0)))))))" by simp
  show ?thesis unfolding eight by (simp add: div_mult2_eq [symmetric])
qed

text \<open>A header that was made without all four parameters holds the defaults.\<close>

lemma print_0419: "print_hex 4 0x419 = [0x30, 0x34, 0x31, 0x39]"
  and print_8040: "print_hex 4 0x8040 = [0x38, 0x30, 0x34, 0x30]"
  and print_0000: "print_hex 4 0 = [0x30, 0x30, 0x30, 0x30]"
  and print_00000000: "print_hex 8 0 = [0x30, 0x30, 0x30, 0x30, 0x30, 0x30, 0x30, 0x30]"
  by (simp_all add: print_hex_4 print_hex_8 hex_digit_def)

lemma regenerate_defaults:
  assumes "\<exists>n \<in> set sdram_names. nvram_get h n = None"
  shows "regenerate_header h header =
    header\<lparr>nvh_magic := NVRAM_MAGIC, crc_ver_init := 0x4190100, config_refresh := 0x80400000, config_ncdl := 0\<rparr>"
  using assms
  by (auto simp: regenerate_header_def Let_def sdram_names_def NVRAM_VERSION_def sdram_value_defs
      split: option.splits)

lemma sdram_of_defaults:
  assumes "\<exists>n \<in> set sdram_names. nvram_get h n = None"
  shows "sdram_of (final_header h k body) = sdram_defaults"
proof -
  obtain c where c: "crc_ver_init (final_header h k body) = 0x4190100 OR ucast (c :: u8)"
    and r: "config_refresh (final_header h k body) = 0x80400000"
    and n: "config_ncdl (final_header h k body) = 0"
    by (simp add: final_header_def regenerate_defaults [OF assms] Let_def)
  have "unat (ucast (drop_bit 16 (crc_ver_init (final_header h k body))) :: u16) = 0x419"
    unfolding c drop_crc by simp
  moreover have "unat (ucast (config_refresh (final_header h k body) AND 0xffff) :: u16) = 0"
    "unat (ucast (drop_bit 16 (config_refresh (final_header h k body)) AND 0xffff) :: u16) = 0x8040"
    unfolding r by simp_all
  moreover have "unat (config_ncdl (final_header h k body)) = 0" by (simp add: n)
  ultimately show ?thesis
    unfolding sdram_of_def sdram_defaults_def print_0419 print_8040 print_0000 print_00000000
    by (simp only: print_0419 print_8040 print_0000 print_00000000) (simp add: cs_def)
qed

lemma map_add_covered: "dom f \<subseteq> dom g \<Longrightarrow> f ++ g = g"
  by (rule ext) (auto simp: map_add_def split: option.splits)

lemma sdram_add:
  "sdram_of (final_header h k body) ++ nvram_get h = sdram_defaults ++ nvram_get h"
proof (cases "\<exists>n \<in> set sdram_names. nvram_get h n = None")
  case True
  then show ?thesis by (simp add: sdram_of_defaults)
next
  case False
  then have "dom (sdram_of H) \<subseteq> dom (nvram_get h)" "dom sdram_defaults \<subseteq> dom (nvram_get h)" for H
    by (auto simp: sdram_of_def sdram_defaults_def sdram_names_def split: if_splits)
  then show ?thesis by (simp add: map_add_covered)
qed

section \<open>Finding the header\<close>

lemma sint_offset:
  assumes "k < 4294967296" and "sint (of_nat k :: u32) = int o1"
  shows "k = o1"
proof -
  have "int o1 < 2 ^ 31" using sint_lt [of "of_nat k :: u32"] assms(2) by simp
  then have "o1 < 2147483648" by simp
  moreover have "(of_nat k :: u32) = of_nat o1"
    using arg_cong [OF assms(2), of "of_int :: int \<Rightarrow> u32"] by simp
  then have "unat (of_nat k :: u32) = unat (of_nat o1 :: u32)" by simp
  ultimately show ?thesis using assms(1) by (simp add: unat_of_nat)
qed

lemma scan_ge:
  "magic_scan mm i n = Some (int o1) \<Longrightarrow> length mm < 4294967296 \<Longrightarrow> 4 * i \<le> o1 \<and> o1 mod 4 = 0 \<and> o1 + 4 \<le> length mm"
proof (induction n arbitrary: i)
  case (Suc n)
  obtain w where w: "mem_read mm (4 * i) 4 = Some w" using Suc.prems(1) by (auto split: bind_splits)
  then have "4 * i + 4 \<le> length mm" by (simp add: mem_read_def split: if_splits)
  then show ?case
    using Suc.prems w Suc.IH [of "Suc i"] sint_offset [of "4 * i" o1] by (auto split: if_splits)
qed simp

text \<open>The search ends at the same place in every image that agrees before it and has the magic there.\<close>

lemma scan_again:
  assumes "take o1 mm' = take o1 mm" and "length mm' = length mm" and "length mm < 4294967296"
    and "mem_read mm' o1 4 = Some (le32 NVRAM_MAGIC)"
  shows "magic_scan mm i n = Some (int o1) \<Longrightarrow> magic_scan mm' i n = Some (int o1)"
proof (induction n arbitrary: i)
  case (Suc n)
  obtain w where w: "mem_read mm (4 * i) 4 = Some w" using Suc.prems(1) by (auto split: bind_splits)
  then have le: "4 * i + 4 \<le> length mm" by (simp add: mem_read_def split: if_splits)
  show ?case
  proof (cases "of_le32 w = NVRAM_MAGIC")
    case True
    then have "sint (of_nat (4 * i) :: u32) = int o1" using Suc.prems w by simp
    moreover from this have "4 * i = o1" using sint_offset [of "4 * i" o1] le assms(3) by simp
    ultimately show ?thesis using assms(4) by simp
  next
    case False
    then have nx: "magic_scan mm (Suc i) n = Some (int o1)" using Suc.prems w by simp
    then have "4 * i + 4 \<le> o1" using scan_ge [OF nx assms(3)] by simp
    then have "take 4 (drop (4 * i) mm') = take 4 (drop (4 * i) mm)"
      using arg_cong [OF assms(1), of "\<lambda>x. take 4 (drop (4 * i) x)"] by (simp add: drop_take)
    then have "mem_read mm' (4 * i) 4 = Some w" using w assms(2) by (simp add: mem_read_def split: if_splits)
    then show ?thesis using False Suc.IH [OF nx] by simp
  qed
qed simp

end
