(* ===== verification/Nvram_Size.thy ===== *)
theory Nvram_Size
  imports Nvram_Reopen
begin

text \<open>
  How many bytes the variables take in an image, and how far assignments can raise that number:
  what a caller needs to know for the next commit to keep everything.
\<close>

section \<open>The size of the table\<close>

definition load :: "nvram_handle \<Rightarrow> nat" where
  "load h = length (sers (tuples h))"

definition op_size :: "var_op \<Rightarrow> nat" where
  "op_size x = (case x of Put n v \<Rightarrow> length n + length v + 2 | Del n \<Rightarrow> 0)"

lemma sers_update:
  "i < length ts \<Longrightarrow> length (sers (ts[i := u])) + length (ser (ts ! i)) = length (sers ts) + length (ser u)"
  by (induction ts arbitrary: i) (auto split: nat.splits)

lemma sers_concat_update:
  "i < length tss \<Longrightarrow>
     length (sers (concat (tss[i := ts]))) + length (sers (tss ! i)) = length (sers (concat tss)) + length (sers ts)"
  by (induction tss arbitrary: i) (auto split: nat.splits)

lemma load_bucket:
  assumes "table_ok h" and "nvram_hash h' = (nvram_hash h)[bucket_of n := ts]"
    and "length (sers ts) \<le> length (sers (nvram_hash h ! bucket_of n)) + k"
  shows "load h' \<le> load h + k"
  using sers_concat_update [of "bucket_of n" "nvram_hash h" ts] assms
  by (simp add: load_def tuples_def table_ok_def)

text \<open>\<open>nvram_set\<close> where allocations succeed.\<close>

lemma nvram_set_no_fail:
  assumes "nv_mem h = []" and "ts = nvram_hash h ! bucket_of n" and "j = tuple_index n ts"
  shows "nvram_set h n v =
    (if length v + 1 > unat (nv_length h - nv_offset h) then (- 12, h)
     else (0, h\<lparr>nvram_hash := (nvram_hash h)[bucket_of n :=
       if j < length ts then ts[j := (ts ! j)\<lparr>t_value := Some v\<rparr>] else \<lparr>t_name = n, t_value = Some v\<rparr> # ts]\<rparr>))"
proof -
  note defs = nvram_set_def nvram_realloc_def nvram_realloc_value_def alloc_def Let_def
  show ?thesis
  proof (cases "j < length ts \<and> t_value (ts ! j) = Some v")
    case True
    then have "(ts ! j)\<lparr>t_value := Some v\<rparr> = ts ! j" by (cases "ts ! j") simp
    then have "(nvram_hash h)[bucket_of n := ts[j := (ts ! j)\<lparr>t_value := Some v\<rparr>]] = nvram_hash h"
      using assms(2) by simp
    moreover have "(nvram_hash h)[bucket_of n := ts] = nvram_hash h" using assms(2) by simp
    ultimately show ?thesis using True assms by (simp add: defs)
  next
    case False
    then show ?thesis using assms by (auto simp: defs)
  qed
qed

lemma set_load:
  assumes ok: "table_ok h" and mem: "nv_mem h = []"
  shows "load (snd (nvram_set h n v)) \<le> load h + op_size (Put n v)"
proof -
  let ?ts = "nvram_hash h ! bucket_of n" and ?j = "tuple_index n (nvram_hash h ! bucket_of n)"
  let ?u = "if ?j < length ?ts then ?ts[?j := (?ts ! ?j)\<lparr>t_value := Some v\<rparr>] else \<lparr>t_name = n, t_value = Some v\<rparr> # ?ts"
  have "length (sers ?u) \<le> length (sers ?ts) + op_size (Put n v)"
    using sers_update [of ?j ?ts "(?ts ! ?j)\<lparr>t_value := Some v\<rparr>"] tuple_index_name [of n ?ts]
    by (auto simp: op_size_def length_ser)
  then have "load (h\<lparr>nvram_hash := (nvram_hash h)[bucket_of n := ?u]\<rparr>) \<le> load h + op_size (Put n v)"
    by (intro load_bucket [OF ok]) auto
  then show ?thesis
    using nvram_set_no_fail [OF mem refl refl, of n v] by auto
qed

lemma unset_load:
  assumes ok: "table_ok h"
  shows "load (snd (nvram_unset h n)) \<le> load h"
proof -
  let ?ts = "nvram_hash h ! bucket_of n" and ?j = "tuple_index n (nvram_hash h ! bucket_of n)"
  have le: "length (sers (take ?j ?ts @ drop (Suc ?j) ?ts)) \<le> length (sers ?ts) + 0" if "?j < length ?ts"
    by (subst (3) id_take_nth_drop [OF that]) simp
  show ?thesis
  proof (cases "?j < length ?ts")
    case True
    have "load (snd (nvram_unset h n)) \<le> load h + 0"
      by (rule load_bucket [OF ok _ le [OF True]]) (use True in \<open>simp add: nvram_unset_def Let_def\<close>)
    then show ?thesis by simp
  qed (simp add: nvram_unset_def Let_def)
qed

section \<open>Sequences of operations\<close>

definition op_ok :: "var_op \<Rightarrow> bool" where
  "op_ok x = (case x of Put n v \<Rightarrow> 0 \<notin> set n \<and> 0x3d \<notin> set n \<and> 0 \<notin> set v | Del n \<Rightarrow> True)"

lemma good_unset:
  assumes g: "good h"
  shows "good (snd (nvram_unset h n)) \<and> same_map h (snd (nvram_unset h n))"
proof -
  have ok: "table_ok h" using g by (simp add: good_def)
  have "t \<in> set (tuples h)" if "t \<in> set (tuples (snd (nvram_unset h n)))" for t
  proof (cases "t \<in> set (tuples h)")
    case False
    then have "t \<in> set (nvram_hash h ! bucket_of n)"
      using that
      by (auto simp: nvram_unset_def Let_def tuples_def dest!: set_update_subset_insert [THEN subsetD]
          dest: in_set_takeD in_set_dropD split: if_splits)
    then show ?thesis by (rule bucket_tuples [OF ok])
  qed
  with nvram_unset_post [OF ok, of n] g show ?thesis by (auto simp: good_def split: prod.splits)
qed

lemma good_op:
  assumes "good h" and "op_ok x" and "run_op nvram_set nvram_unset x h = (r, h')"
  shows "good h' \<and> same_map h h' \<and> load h' \<le> load h + op_size x"
proof -
  have ok: "table_ok h" "nv_mem h = []" using assms(1) by (simp_all add: good_def)
  show ?thesis
  proof (cases x)
    case (Put n v)
    with assms show ?thesis
      using good_set [OF assms(1), of n v] set_load [OF ok, of n v] by (simp add: op_ok_def)
  next
    case (Del n)
    with assms show ?thesis
      using good_unset [OF assms(1), of n] unset_load [OF ok(1), of n] by (simp add: op_size_def)
  qed
qed

lemma good_ops:
  "good h \<Longrightarrow> \<forall>x \<in> set xs. op_ok x \<Longrightarrow> run_ops nvram_set nvram_unset xs h = (rs, h') \<Longrightarrow>
     good h' \<and> same_map h h' \<and> load h' \<le> load h + sum_list (map op_size xs)"
proof (induction xs arbitrary: h rs)
  case (Cons x xs)
  obtain r h1 where x: "run_op nvram_set nvram_unset x h = (r, h1)" by fastforce
  obtain rs1 where xs: "run_ops nvram_set nvram_unset xs h1 = (rs1, h')"
    using Cons.prems(3) x by (auto split: prod.splits)
  have one: "good h1 \<and> same_map h h1 \<and> load h1 \<le> load h + op_size x"
    by (rule good_op [OF Cons.prems(1) _ x]) (use Cons.prems(2) in simp)
  have "good h' \<and> same_map h1 h' \<and> load h' \<le> load h1 + sum_list (map op_size xs)"
    by (rule Cons.IH [OF _ _ xs]) (use one Cons.prems(2) in auto)
  with one show ?case by (auto intro: same_map_trans)
qed (simp add: same_map_def)


section \<open>After rehashing\<close>

lemma puts_size: "sum_list (map op_size (puts ts)) = length (sers ts)"
  by (induction ts) (simp_all add: puts_def op_size_def length_ser)

lemma puts_ok: "\<forall>t \<in> set ts. tuple_ok t \<Longrightarrow> \<forall>x \<in> set (puts ts). op_ok x"
  by (auto simp: puts_def op_ok_def tuple_ok_def split: option.splits)

lemma load_free [simp]: "load (nvram_free h) = 0"
  by (simp add: load_def)

lemma set_missing_load:
  assumes "table_ok h" and "nv_mem h = []"
  shows "load (set_missing n v h) \<le> load h + (length n + length v + 2) \<and> table_ok (set_missing n v h) \<and>
    nv_mem (set_missing n v h) = []"
  using set_load [OF assms, of n v] nvram_set_post [OF assms(1), of n v] assms
  by (auto simp: set_missing_def set_post_def op_size_def split: prod.splits)

text \<open>The four special parameters take at most 81 bytes.\<close>

lemma rehash_sdram_load:
  assumes "table_ok h" and "nv_mem h = []"
  shows "load (rehash_sdram H h) \<le> load h + 81"
proof -
  define s where "s n k x h = set_missing (cs n) (cs ''0x'' @ print_hex k x) h" for n k x h
  have s: "load (s n k x h) \<le> load h + (length n + k + 4) \<and> table_ok (s n k x h) \<and> nv_mem (s n k x h) = []"
    if "table_ok h \<and> nv_mem h = []" for n k x h
    using set_missing_load [of h "cs n" "cs ''0x'' @ print_hex k x"] that by (simp add: s_def cs_def)
  obtain a b c d where r: "rehash_sdram H h =
      s ''sdram_ncdl'' 8 a (s ''sdram_refresh'' 4 b (s ''sdram_config'' 4 c (s ''sdram_init'' 4 d h)))"
    unfolding rehash_sdram_def s_def Let_def by blast
  let ?h1 = "s ''sdram_init'' 4 d h"
  let ?h2 = "s ''sdram_config'' 4 c ?h1"
  let ?h3 = "s ''sdram_refresh'' 4 b ?h2"
  have 1: "load ?h1 \<le> load h + 18 \<and> table_ok ?h1 \<and> nv_mem ?h1 = []" using s [of h "''sdram_init''" 4 d] assms by simp
  have 2: "load ?h2 \<le> load ?h1 + 20 \<and> table_ok ?h2 \<and> nv_mem ?h2 = []" using s [of ?h1 "''sdram_config''" 4 c] 1 by simp
  have 3: "load ?h3 \<le> load ?h2 + 21 \<and> table_ok ?h3 \<and> nv_mem ?h3 = []" using s [of ?h2 "''sdram_refresh''" 4 b] 2 by simp
  have 4: "load (s ''sdram_ncdl'' 8 a ?h3) \<le> load ?h3 + 22" using s [of ?h3 "''sdram_ncdl''" 8 a] 3 by simp
  from 1 2 3 4 show ?thesis unfolding r by linarith
qed

lemma rehash_load:
  assumes im: "holds h H ts tail" and mem: "nv_mem h = []" and r: "nvram_rehash h = Some (0, h')"
  shows "load h' \<le> length (sers ts) + 81"
proof -
  obtain rs h1 where run: "run_ops nvram_set nvram_unset (puts ts) (nvram_free h) = (rs, h1)" by fastforce
  have ts: "\<forall>t \<in> set ts. tuple_ok t" using im by (simp add: holds_def)
  have "good (nvram_free h)" using mem by (simp add: good_def free_frame)
  then have g: "good h1" "load h1 \<le> length (sers ts)"
    using good_ops [OF _ puts_ok [OF ts] run] by (simp_all add: puts_size)
  have "h' = rehash_sdram H h1" using r rehash_image [OF im] run by simp
  then show ?thesis using g rehash_sdram_load [of h1 H] by (simp add: good_def)
qed

end
