(* ===== verification/Nvram_Cli.thy ===== *)
theory Nvram_Cli
  imports Nvram
begin

text \<open>
  The files of the NVRAM library (\<open>nvram_find_mtd\<close>, \<open>nvram_find_staging\<close>, \<open>nvram_to_staging\<close>,
  \<open>staging_to_nvram\<close>, the outer part of \<open>nvram_open\<close>, \<open>nvram_close\<close>) and its command-line tool
  (\<open>cli.c\<close>).

  The system is a record: the files by their path, the global \<open>nvram_part_size\<close>, and the outcomes of
  the coming system calls that may fail (\<open>fopen\<close>, \<open>open\<close>, \<open>mmap\<close>, \<open>read\<close>, \<open>write\<close>, \<open>unlink\<close>) and of the
  coming allocations; where a list ends, every further call succeeds. A failing \<open>write\<close> writes
  nothing. A mapping shows the file, and reading it behind the end of the file is undefined.
\<close>

section \<open>The system\<close>

record fnode =
  st_mode :: u32
  content :: bytes

record nv_system =
  files :: "bytes \<Rightarrow> fnode option"
  nvram_part_size :: u32
  io :: "bool list"
  mem :: "bool list"

definition S_IFREG :: u32 where "S_IFREG = 0x8000"
definition S_IFBLK :: u32 where "S_IFBLK = 0x6000"
definition S_IFMT :: u32 where "S_IFMT = 0xf000"
definition S_IFDIR :: u32 where "S_IFDIR = 0x4000"

definition NVRAM_STAGING :: bytes where "NVRAM_STAGING = cs ''/tmp/.nvram''"

definition syscall :: "nv_system \<Rightarrow> bool \<times> nv_system" where
  "syscall w = (case io w of [] \<Rightarrow> (True, w) | b # bs \<Rightarrow> (b, w\<lparr>io := bs\<rparr>))"

definition malloc :: "nv_system \<Rightarrow> bool \<times> nv_system" where
  "malloc w = (case mem w of [] \<Rightarrow> (True, w) | b # bs \<Rightarrow> (b, w\<lparr>mem := bs\<rparr>))"

text \<open>Opening a file that exists; a directory cannot be opened for reading bytes or for writing.\<close>

definition open_file :: "nv_system \<Rightarrow> bytes \<Rightarrow> fnode option \<times> nv_system" where
  "open_file w path =
     (case files w path of
        None \<Rightarrow> (None, w)
      | Some f \<Rightarrow> if st_mode f AND S_IFMT = S_IFDIR then (None, w)
                  else (case syscall w of (ok, w) \<Rightarrow> (if ok then Some f else None, w)))"

text \<open>Writing from the start of a file, over what it has there.\<close>

definition overwrite :: "bytes \<Rightarrow> bytes \<Rightarrow> bytes" where
  "overwrite old new = new @ drop (length new) old"

definition put_file :: "nv_system \<Rightarrow> bytes \<Rightarrow> fnode \<Rightarrow> bytes \<Rightarrow> nv_system" where
  "put_file w path f data = w\<lparr>files := (files w)(path \<mapsto> f\<lparr>content := overwrite (content f) data\<rparr>)\<rparr>"

section \<open>Finding the partition\<close>

text \<open>\<open>strstr\<close>: where the first occurrence is.\<close>

fun strstr :: "bytes \<Rightarrow> bytes \<Rightarrow> nat option" where
  "strstr [] pat = (if pat = [] then Some 0 else None)"
| "strstr (c # s) pat =
     (if take (length pat) (c # s) = pat then Some 0 else map_option Suc (strstr s pat))"

text \<open>\<open>fgets\<close> with a buffer of \<open>PATH_MAX\<close> bytes: a line with its newline, or the first 4095 bytes of it.\<close>

definition PATH_MAX :: nat where "PATH_MAX = 4096"

fun fgets :: "nat \<Rightarrow> bytes \<Rightarrow> bytes \<times> bytes" where
  "fgets 0 s = ([], s)"
| "fgets (Suc n) [] = ([], [])"
| "fgets (Suc n) (c # s) =
     (if c = 0x0a then ([c], s) else (case fgets n s of (l, rest) \<Rightarrow> (c # l, rest)))"

lemma fgets_split: "fgets n s = (l, rest) \<Longrightarrow> s = l @ rest \<and> (0 < n \<longrightarrow> s \<noteq> [] \<longrightarrow> l \<noteq> [])"
  by (induction n s arbitrary: l rest rule: fgets.induct) (auto split: if_splits prod.splits)

lemma fgets_shorter: "(l, rest) = fgets (PATH_MAX - 1) s \<Longrightarrow> s \<noteq> [] \<Longrightarrow> length rest < length s"
  using fgets_split [of "PATH_MAX - 1" s l rest] by (auto simp: PATH_MAX_def)

text \<open>
  \<open>sscanf(dev, "mtd%d: %08x", &i, &part_size)\<close>: the number of conversions and the values so far. A
  number that is no \<open>int\<close> is undefined.
\<close>

definition scan_int :: "bytes \<Rightarrow> (int \<times> bytes) option option" where
  "scan_int s =
     (let s = dropWhile is_space s;
          signed = s \<noteq> [] \<and> (s ! 0 = 0x2b \<or> s ! 0 = 0x2d);
          digits = takeWhile (\<lambda>c. digit_value c < 10) (if signed then tl s else s);
          rest = dropWhile (\<lambda>c. digit_value c < 10) (if signed then tl s else s);
          n = int (read_digits 10 0 digits);
          n = (if signed \<and> s ! 0 = 0x2d then - n else n)
      in if digits = [] then Some None
         else if n < - 2147483648 \<or> 2147483647 < n then None else Some (Some (n, rest)))"

definition scan_hex8 :: "bytes \<Rightarrow> u32 option" where
  "scan_hex8 s =
     (let s = take 8 (dropWhile is_space s);
          signed = s \<noteq> [] \<and> (s ! 0 = 0x2b \<or> s ! 0 = 0x2d);
          t = (if signed then tl s else s);
          t = (if 2 \<le> length t \<and> t ! 0 = 0x30 \<and> (t ! 1 = 0x78 \<or> t ! 1 = 0x58) then drop 2 t else t);
          digits = takeWhile (\<lambda>c. digit_value c < 16) t;
          n = of_nat (read_digits 16 0 digits)
      in if digits = [] then None else Some (if signed \<and> s ! 0 = 0x2d then - n else n))"

definition sscanf_mtd :: "bytes \<Rightarrow> (int option \<times> u32 option) option" where
  "sscanf_mtd s =
     (if take 3 s \<noteq> cs ''mtd'' then Some (None, None)
      else do {
        r \<leftarrow> scan_int (drop 3 s);
        case r of
          None \<Rightarrow> Some (None, None)
        | Some (i, rest) \<Rightarrow>
            if rest = [] \<or> hd rest \<noteq> 0x3a then Some (Some i, None)
            else Some (Some i, scan_hex8 (tl rest))
      })"

text \<open>\<open>%d\<close>.\<close>

function print_nat :: "nat \<Rightarrow> bytes" where
  "print_nat n = (if n < 10 then [] else print_nat (n div 10)) @ [of_nat (0x30 + n mod 10)]"
  by pat_completeness auto
termination
  by (relation "measure id") auto

declare print_nat.simps [simp del]

definition print_int :: "int \<Rightarrow> bytes" where
  "print_int i = (if i < 0 then 0x2d # print_nat (nat (- i)) else print_nat (nat i))"

text \<open>
  One line of \<open>nvram_find_mtd\<close>: the number of the partition, if the line names it, and the local
  variable \<open>part_size\<close>, which has no value until a line has set it.
\<close>

definition mtd_line :: "bytes \<Rightarrow> u32 option \<Rightarrow> (int option \<times> u32 option) option" where
  "mtd_line dev part_size =
     (if strstr dev (cs ''nvram'') = None then Some (None, part_size)
      else do {
        (i, size) \<leftarrow> sscanf_mtd dev;
        Some (i, if size = None then part_size else size)
      })"

function find_mtd_loop :: "bytes \<Rightarrow> u32 option \<Rightarrow> nv_system \<Rightarrow> (bytes option \<times> nv_system) option" where
  "find_mtd_loop fp part_size w =
     (if fp = [] then Some (None, w)
      else case fgets (PATH_MAX - 1) fp of (line, fp) \<Rightarrow> do {
        (i, part_size) \<leftarrow> mtd_line (takeWhile (\<lambda>c. c \<noteq> 0) line) part_size;
        case i of
          None \<Rightarrow> find_mtd_loop fp part_size w
        | Some i \<Rightarrow> do {
            size \<leftarrow> part_size;
            let w = w\<lparr>nvram_part_size := size\<rparr>;
            let dev = cs ''/dev/mtdblock'' @ print_int i;
            case files w dev of
              None \<Rightarrow> find_mtd_loop fp part_size w
            | Some f \<Rightarrow>
                if st_mode f AND S_IFBLK = 0 then find_mtd_loop fp part_size w
                else (case malloc w of (ok, w) \<Rightarrow>
                        if ok then Some (Some dev, w) else find_mtd_loop fp part_size w)
          }
      })"
  by pat_completeness auto
termination
  by (relation "measure (\<lambda>(fp, part_size, w). length fp)") (auto dest: fgets_shorter [simplified])

declare find_mtd_loop.simps [simp del]

definition nvram_find_mtd :: "nv_system \<Rightarrow> (bytes option \<times> nv_system) option" where
  "nvram_find_mtd w =
     (case open_file w (cs ''/proc/mtd'') of
        (None, w) \<Rightarrow> Some (None, w)
      | (Some fp, w) \<Rightarrow> find_mtd_loop (content fp) None w)"

definition nvram_find_staging :: "nv_system \<Rightarrow> bytes option" where
  "nvram_find_staging w =
     (case files w NVRAM_STAGING of
        None \<Rightarrow> None
      | Some s \<Rightarrow> if st_mode s AND S_IFREG \<noteq> 0 then Some NVRAM_STAGING else None)"

section \<open>Opening and closing a file\<close>

text \<open>
  The outer part of \<open>nvram_open\<close>. An open handle comes with the file its mapping is shared with, if
  it is; the file is given by its path. Opening without a name takes the partition.
\<close>

type_synonym nv_session = "nvram_handle \<times> bytes option"

definition nvram_open_at :: "nv_system \<Rightarrow> bytes \<Rightarrow> bool \<Rightarrow> (nv_session option \<times> nv_system) option" where
  "nvram_open_at w path rdonly =
     (case open_file w path of
        (None, w) \<Rightarrow> Some (None, w)
      | (Some f, w) \<Rightarrow>
          (case syscall w of (mapped, w) \<Rightarrow>
             if \<not> mapped then Some (None, w)
             else do {
               (h, m) \<leftarrow> nvram_open_mapped (nvram_part_size w)
                 (take (unat (nvram_part_size w)) (content f)) (mem w) rdonly;
               Some (map_option (\<lambda>h. (h, if rdonly then None else Some path)) h, w\<lparr>mem := m\<rparr>)
             }))"

definition nvram_open :: "nv_system \<Rightarrow> bytes option \<Rightarrow> bool \<Rightarrow> (nv_session option \<times> nv_system) option" where
  "nvram_open w file rdonly =
     (if nvram_part_size w = 0 \<or> file = None
      then do {
        (mtd, w) \<leftarrow> nvram_find_mtd w;
        case mtd of
          None \<Rightarrow> Some (None, w)
        | Some mtd \<Rightarrow>
            if nvram_part_size w = 0 then Some (None, w)
            else nvram_open_at w (case file of Some f \<Rightarrow> f | None \<Rightarrow> mtd) rdonly
      }
      else nvram_open_at w (the file) rdonly)"

text \<open>\<open>nvram_commit\<close> writes through a shared mapping to the file.\<close>

definition session_commit :: "nv_system \<Rightarrow> nv_session \<Rightarrow> (int \<times> nv_session \<times> nv_system) option" where
  "session_commit w = (\<lambda>(h, shared).
     do {
       (r, h) \<leftarrow> nvram_commit (nvram_part_size w) h;
       let w = (case shared of
                  None \<Rightarrow> w
                | Some path \<Rightarrow> (case files w path of None \<Rightarrow> w | Some f \<Rightarrow> put_file w path f (nv_mmap h)));
       Some (r, (h, shared), w)
     })"

definition nvram_close :: "nv_system \<Rightarrow> nv_session \<Rightarrow> nv_system" where
  "nvram_close w = (\<lambda>(h, shared). w\<lparr>mem := nv_mem (nvram_free h)\<rparr>)"

section \<open>The staging file\<close>

text \<open>Reading \<open>nvram_part_size\<close> bytes from the start of a file.\<close>

definition read_file :: "nv_system \<Rightarrow> fnode \<Rightarrow> bytes option \<times> nv_system" where
  "read_file w f =
     (case syscall w of (ok, w) \<Rightarrow>
        (if ok \<and> unat (nvram_part_size w) \<le> length (content f)
         then Some (take (unat (nvram_part_size w)) (content f)) else None, w))"

definition write_file :: "nv_system \<Rightarrow> bytes \<Rightarrow> fnode \<Rightarrow> bytes \<Rightarrow> nv_system" where
  "write_file w path f buf = (case syscall w of (ok, w) \<Rightarrow> if ok then put_file w path f buf else w)"

text \<open>\<open>open\<close> with \<open>O_CREAT\<close>: a missing file becomes an empty regular one with mode 0600.\<close>

definition creat_file :: "nv_system \<Rightarrow> bytes \<Rightarrow> fnode option \<times> nv_system" where
  "creat_file w path =
     (case files w path of
        Some f \<Rightarrow> open_file w path
      | None \<Rightarrow>
          (case syscall w of (ok, w) \<Rightarrow>
             if ok then (let f = \<lparr>st_mode = S_IFREG OR 0x180, content = []\<rparr>
                         in (Some f, w\<lparr>files := (files w)(path \<mapsto> f)\<rparr>))
             else (None, w)))"

definition nvram_to_staging :: "nv_system \<Rightarrow> (int \<times> nv_system) option" where
  "nvram_to_staging w =
     do {
       (mtd, w) \<leftarrow> nvram_find_mtd w;
       Some (case mtd of
         None \<Rightarrow> (- 1, w)
       | Some mtd \<Rightarrow>
           if nvram_part_size w = 0 then (- 1, w)
           else (case open_file w mtd of
                   (None, w) \<Rightarrow> (- 1, w)
                 | (Some fdmtd, w) \<Rightarrow>
                     (case read_file w fdmtd of
                        (None, w) \<Rightarrow> (- 1, w)
                      | (Some buf, w) \<Rightarrow>
                          (case creat_file w NVRAM_STAGING of
                             (None, w) \<Rightarrow> (- 1, w)
                           | (Some fdstg, w) \<Rightarrow> (0, write_file w NVRAM_STAGING fdstg buf)))))
     }"

definition unlink :: "nv_system \<Rightarrow> bytes \<Rightarrow> int \<times> nv_system" where
  "unlink w path =
     (case syscall w of (ok, w) \<Rightarrow>
        if ok then (0, w\<lparr>files := (files w)(path := None)\<rparr>) else (- 1, w))"

definition staging_to_nvram :: "nv_system \<Rightarrow> (int \<times> nv_system) option" where
  "staging_to_nvram w =
     do {
       (mtd, w) \<leftarrow> nvram_find_mtd w;
       Some (case mtd of
         None \<Rightarrow> (- 1, w)
       | Some mtd \<Rightarrow>
           if nvram_part_size w = 0 then (- 1, w)
           else (case open_file w NVRAM_STAGING of
                   (None, w) \<Rightarrow> (- 1, w)
                 | (Some fdstg, w) \<Rightarrow>
                     (case read_file w fdstg of
                        (None, w) \<Rightarrow> (- 1, w)
                      | (Some buf, w) \<Rightarrow>
                          (case open_file w mtd of
                             (None, w) \<Rightarrow> (- 1, w)
                           | (Some fdmtd, w) \<Rightarrow>
                               let w = write_file w mtd fdmtd buf
                               in case unlink w NVRAM_STAGING of (r, w) \<Rightarrow> (if r \<noteq> 0 then 1 else 0, w)))))
     }"

section \<open>The command line\<close>

text \<open>What the tool prints. Of \<open>do_info\<close> the numbers, but not the percentage.\<close>

datatype cli_out =
    Line bytes
  | Info nvram_header_t u32 u8 u32
  | Usage
  | Needs_argument bytes
  | Unknown_option bytes
  | Could_not_open

definition nvram_open_rdonly :: "nv_system \<Rightarrow> (nv_session option \<times> nv_system) option" where
  "nvram_open_rdonly w =
     do {
       (file, w) \<leftarrow> (case nvram_find_staging w of
                      Some f \<Rightarrow> Some (Some f, w)
                    | None \<Rightarrow> nvram_find_mtd w);
       case file of
         None \<Rightarrow> Some (None, w)
       | Some file \<Rightarrow> nvram_open w (Some file) True
     }"

definition nvram_open_staging :: "nv_system \<Rightarrow> (nv_session option \<times> nv_system) option" where
  "nvram_open_staging w =
     (if nvram_find_staging w \<noteq> None then nvram_open w (Some NVRAM_STAGING) False
      else do {
        (r, w) \<leftarrow> nvram_to_staging w;
        if r = 0 then nvram_open w (Some NVRAM_STAGING) False else Some (None, w)
      })"

text \<open>A tuple without value would be given to \<open>printf\<close>.\<close>

fun show_lines :: "nvram_tuple list \<Rightarrow> cli_out list option" where
  "show_lines [] = Some []"
| "show_lines (t # ts) =
     do { v \<leftarrow> t_value t; ls \<leftarrow> show_lines ts; Some (Line (t_name t @ [0x3d] @ v) # ls) }"

definition do_show :: "nvram_handle \<Rightarrow> (int \<times> cli_out list \<times> nvram_handle) option" where
  "do_show h =
     (case nvram_getall h of (l, h) \<Rightarrow>
        if l = [] then Some (1, [], h)
        else do { ls \<leftarrow> show_lines l; Some (0, ls, h) })"

definition do_get :: "nvram_handle \<Rightarrow> bytes \<Rightarrow> int \<times> cli_out list" where
  "do_get h var = (case nvram_get h var of None \<Rightarrow> (1, []) | Some val \<Rightarrow> (0, [Line val]))"

definition do_set :: "nvram_handle \<Rightarrow> bytes \<Rightarrow> int \<times> nvram_handle" where
  "do_set h pair =
     (case strstr pair (cs ''='') of
        None \<Rightarrow> (1, h)
      | Some k \<Rightarrow> nvram_set h (take k pair) (drop (k + 1) pair))"

definition info_crc :: "nvram_handle \<Rightarrow> u8 option" where
  "info_crc h =
     do {
       hdr \<leftarrow> nvram_header h;
       bs \<leftarrow> mem_read (nv_mmap h) (unat (nv_offset h) + NVRAM_CRC_START_POSITION)
               (unat (nvh_len hdr - of_nat NVRAM_CRC_START_POSITION));
       Some (hndcrc8 bs 0xff)
     }"

definition do_info :: "nvram_handle \<Rightarrow> (int \<times> cli_out list) option" where
  "do_info h =
     do {
       hdr \<leftarrow> nvram_header h;
       crc \<leftarrow> info_crc h;
       Some (0, [Info hdr (nv_offset h) crc (nv_length h - nv_offset h - nvh_len hdr)])
     }"

text \<open>The loop over the arguments: handle, output, \<open>stat\<close>, \<open>done\<close> and \<open>commit\<close>.\<close>

record cli_state =
  c_h :: nvram_handle
  c_out :: "cli_out list"
  c_stat :: int
  c_done :: nat
  c_commit :: bool

fun cli_loop :: "bytes list \<Rightarrow> cli_state \<Rightarrow> cli_state option" where
  "cli_loop [] s = Some s"
| "cli_loop (a # args) s =
     (if a = cs ''show'' then do {
        (r, out, h) \<leftarrow> do_show (c_h s);
        cli_loop args (s\<lparr>c_h := h, c_out := c_out s @ out, c_stat := r, c_done := c_done s + 1\<rparr>)
      }
      else if a = cs ''info'' then do {
        (r, out) \<leftarrow> do_info (c_h s);
        cli_loop args (s\<lparr>c_out := c_out s @ out, c_stat := r, c_done := c_done s + 1\<rparr>)
      }
      else if a = cs ''get'' \<or> a = cs ''unset'' \<or> a = cs ''set'' then
        (case args of
           [] \<Rightarrow> Some (s\<lparr>c_out := c_out s @ [Needs_argument a], c_done := 0\<rparr>)
         | v # args \<Rightarrow>
             cli_loop args
               (if a = cs ''get'' then
                  (case do_get (c_h s) v of (r, out) \<Rightarrow>
                     s\<lparr>c_out := c_out s @ out, c_stat := r, c_done := c_done s + 1\<rparr>)
                else if a = cs ''unset'' then
                  (case nvram_unset (c_h s) v of (r, h) \<Rightarrow> s\<lparr>c_h := h, c_stat := r, c_done := c_done s + 1\<rparr>)
                else
                  (case do_set (c_h s) v of (r, h) \<Rightarrow> s\<lparr>c_h := h, c_stat := r, c_done := c_done s + 1\<rparr>)))
      else if a = cs ''commit'' then cli_loop args (s\<lparr>c_commit := True, c_done := c_done s + 1\<rparr>)
      else Some (s\<lparr>c_out := c_out s @ [Unknown_option a], c_done := 0\<rparr>))"

definition expects_write :: "bytes list \<Rightarrow> bool" where
  "expects_write args \<longleftrightarrow>
     hd args = cs ''set'' \<and> 1 < length args \<or> hd args = cs ''unset'' \<and> 1 < length args \<or> hd args = cs ''commit''"

text \<open>\<open>main\<close> on the arguments behind the name of the program: status, output, system.\<close>

definition cli_main :: "bytes list \<Rightarrow> nv_system \<Rightarrow> (int \<times> cli_out list \<times> nv_system) option" where
  "cli_main args w =
     (if args = [] then Some (1, [Usage], w)
      else do {
        let write = expects_write args;
        (nvram, w) \<leftarrow> (if write then nvram_open_staging w else nvram_open_rdonly w);
        case nvram of
          None \<Rightarrow> Some (1, [Could_not_open], w)
        | Some (h, shared) \<Rightarrow> do {
            s \<leftarrow> cli_loop args \<lparr>c_h = h, c_out = [], c_stat = 1, c_done = 0, c_commit = False\<rparr>;
            (stat, (h, shared), w) \<leftarrow> (if write then session_commit w (c_h s, shared)
                                       else Some (c_stat s, (c_h s, shared), w));
            let w = nvram_close w (h, shared);
            (stat, w) \<leftarrow> (if c_commit s then staging_to_nvram w else Some (stat, w));
            Some (if c_done s = 0 then (1, c_out s @ [Usage], w) else (stat, c_out s, w))
          }
      })"

end
