(* ===== verification/Nvram_Roundtrip.thy ===== *)
theory Nvram_Roundtrip
  imports Nvram_Size Nvram_Cli
begin

text \<open>
  The life of the variables across \<open>nvram_commit\<close> and \<open>nvram_open\<close>: what a commit leaves in the
  handle and in the mapping, that the checksum it stores is the one \<open>nvram info\<close> computes, and when
  the image can be opened again.
\<close>

section \<open>The tuples of a commit\<close>

lemma subseq_set: "subseq xs ys \<Longrightarrow> set xs \<subseteq> set ys"
  by (induction rule: list_emb.induct) auto

lemma subseq_distinct: "subseq xs ys \<Longrightarrow> distinct ys \<Longrightarrow> distinct xs"
  by (induction rule: list_emb.induct) (auto dest: subseq_set)

lemma written_subseq: "subseq (written ps h) (tuples h)"
  unfolding written_def tuples_def by (rule fit_buckets_subseq)

lemma written_distinct: "table_ok h \<Longrightarrow> distinct (map t_name (written ps h))"
  by (rule subseq_distinct [OF subseq_map [OF written_subseq] distinct_tuples])

definition fits :: "u32 \<Rightarrow> nvram_handle \<Rightarrow> bool" where
  "fits ps h \<longleftrightarrow> unat (nv_offset h) + 22 + load h \<le> unat ps"

lemma written_all: "fits ps h \<Longrightarrow> written ps h = tuples h"
  unfolding fits_def written_def tuples_def load_def by (rule fit_buckets_all) simp

section \<open>Committing\<close>

definition final :: "u32 \<Rightarrow> nvram_handle \<Rightarrow> bytes \<Rightarrow> nvram_header_t" where
  "final ps h tail = final_header h (length (sers (written ps h))) (sers (written ps h) @ 0 # tail)"

lemma length_image:
  "layout_ok ps h \<Longrightarrow> length body = unat ps - unat (nv_offset h) - 20 \<Longrightarrow> length (nv_image h H body) = unat ps"
  by (auto simp: nv_image_def layout_ok_def)

lemma image_scan:
  assumes ok: "handle_ok ps h" and H: "nvh_magic H = NVRAM_MAGIC"
    and b: "length body = unat ps - unat (nv_offset h) - 20"
  shows "magic_scan (nv_image h H body) 0 (scan_turns ps) = Some (int (unat (nv_offset h)))"
proof (rule scan_again)
  let ?o = "unat (nv_offset h)"
  have lay: "layout_ok ps h" using ok by (simp add: handle_ok_def)
  then have l: "length (take ?o (nv_mmap h)) = ?o" by (simp add: layout_ok_def)
  show "take ?o (nv_image h H body) = take ?o (nv_mmap h)" using l by (simp add: nv_image_def)
  show "length (nv_image h H body) = length (nv_mmap h)"
    using length_image [OF lay b] lay by (simp add: layout_ok_def)
  show "length (nv_mmap h) < 4294967296" using lay unat_u32_less [of ps] by (simp add: layout_ok_def)
  show "mem_read (nv_image h H body) ?o 4 = Some (le32 NVRAM_MAGIC)"
    using read_at [of 4 "nvh_bytes H @ body" "take ?o (nv_mmap h)"] l H
    by (simp add: nv_image_def nvh_bytes_def)
  show "magic_scan (nv_mmap h) 0 (scan_turns ps) = Some (int ?o)" using ok by (simp add: handle_ok_def)
qed

lemma holds_image:
  assumes "layout_ok ps h" and "\<forall>t \<in> set ts. tuple_ok t"
  shows "holds (h\<lparr>nv_mmap := nv_image h H (sers ts @ 0 # tail)\<rparr>) H ts tail"
  unfolding holds_def using assms
  by (auto simp: nv_image_def layout_ok_def intro!: exI [of _ "take (unat (nv_offset h)) (nv_mmap h)"])

lemma commit_result:
  assumes ok: "handle_ok ps h" and mem: "nv_mem h = []"
  obtains h' tail where "nvram_commit ps h = Some (0, h')" "handle_ok ps h'" "nv_mem h' = []"
    "nv_mmap h' = nv_image h (final ps h tail) (sers (written ps h) @ 0 # tail)" "nv_offset h' = nv_offset h"
    "length (sers (written ps h) @ 0 # tail) = unat ps - unat (nv_offset h) - 20"
    "nvram_get h' = sdram_of (final ps h tail) ++ map_of (map pair_of (written ps h))"
proof -
  have lay: "layout_ok ps h" and ts: "\<forall>t \<in> set (tuples h). tuple_ok t" and tab: "table_ok h"
    using ok by (simp_all add: handle_ok_def)
  obtain tail where c: "nvram_commit ps h =
        nvram_rehash (h\<lparr>nv_mmap := nv_image h (final ps h tail) (sers (written ps h) @ 0 # tail)\<rparr>)"
    and b: "length (sers (written ps h) @ 0 # tail) = unat ps - unat (nv_offset h) - 20"
    using nvram_commit_eq [OF lay ts refl] unfolding final_def by blast
  let ?m = "nv_image h (final ps h tail) (sers (written ps h) @ 0 # tail)"
  have wr: "\<forall>t \<in> set (written ps h). tuple_ok t" using ts subseq_set [OF written_subseq] by blast
  have len: "nv_length h = ps" using lay by (simp add: layout_ok_def)
  obtain h' where h': "nvram_rehash (h\<lparr>nv_mmap := ?m\<rparr>) = Some (0, h')" "good h'" "same_map (h\<lparr>nv_mmap := ?m\<rparr>) h'"
    "nvram_get h' = sdram_of (final ps h tail) ++ map_of (map pair_of (written ps h))"
    by (rule rehash_good [OF holds_image [OF lay wr] written_distinct [OF tab]])
       (use mem written_end [OF lay] space_left [OF lay] len in auto)
  have "layout_ok ps h'"
    using lay h'(3) length_image [OF lay b] by (simp add: layout_ok_def same_map_def)
  moreover have "magic_scan (nv_mmap h') 0 (scan_turns ps) = Some (int (unat (nv_offset h')))"
    using image_scan [OF ok _ b] h'(3) by (simp add: same_map_def final_def)
  ultimately have "handle_ok ps h'" using h'(2) by (simp add: handle_ok_def good_def)
  with h' c b show thesis by (intro that [of h' tail]) (auto simp: same_map_def good_def)
qed

text \<open>Where every tuple fits, a commit keeps all variables.\<close>

lemma commit_keeps:
  assumes "handle_ok ps h" and "nv_mem h = []" and "fits ps h"
  obtains h' where "nvram_commit ps h = Some (0, h')" "handle_ok ps h'" "nv_mem h' = []"
    "nvram_get h' = sdram_defaults ++ nvram_get h"
proof -
  obtain h' tail where c: "nvram_commit ps h = Some (0, h')" "handle_ok ps h'" "nv_mem h' = []"
    and g: "nvram_get h' = sdram_of (final ps h tail) ++ map_of (map pair_of (written ps h))"
    by (rule commit_result [OF assms(1,2)])
  have "map_of (map pair_of (written ps h)) = nvram_get h"
    using assms(1) get_map_of [of h] written_all [OF assms(3)] by (simp add: handle_ok_def)
  then have "nvram_get h' = sdram_defaults ++ nvram_get h"
    using g sdram_add [of h] by (simp add: final_def)
  with c show thesis by (rule that)
qed

section \<open>The checksum\<close>

text \<open>The checksum that is stored, as \<open>do_info\<close> prints it beside the one it computes.\<close>

definition stored_crc :: "nvram_header_t \<Rightarrow> u8" where
  "stored_crc hdr = ucast (crc_ver_init hdr AND 0xFF)"

lemma le32_or_crc: "tl (le32 (x OR ucast (c :: u8))) = tl (le32 x)"
proof -
  have "drop_bit n (x OR ucast c) = drop_bit n x" if "8 \<le> n" for n
    by (rule bit_word_eqI) (use that in \<open>auto simp: bit_simps dest: bit_imp_le_length\<close>)
  then show ?thesis by (simp add: le32_def)
qed

lemma low_byte: "ucast (((push_bit 8 x OR push_bit 16 y) OR ucast c) AND 0xFF :: u32) = (c :: u8)"
proof (rule bit_word_eqI)
  have m: "(0xFF :: u32) = mask 8" by (simp add: mask_eq_exp_minus_1)
  fix n assume "n < LENGTH(8)"
  then show "bit (ucast (((push_bit 8 x OR push_bit 16 y) OR ucast c) AND 0xFF :: u32) :: u8) n = bit c n"
    unfolding m by (auto simp: bit_simps)
qed

lemma regenerated_low: "\<exists>y. crc_ver_init (regenerate_header h H) = push_bit 8 NVRAM_VERSION OR push_bit 16 y"
  by (cases "nvram_get h (cs ''sdram_init'')"; cases "nvram_get h (cs ''sdram_config'')";
      cases "nvram_get h (cs ''sdram_refresh'')"; cases "nvram_get h (cs ''sdram_ncdl'')")
     (auto simp: regenerate_header_def Let_def simp del: push_bit_and)

lemma nvh_bytes_crc:
  "drop NVRAM_CRC_START_POSITION (nvh_bytes H) = tl (le32 (crc_ver_init H)) @ le32 (config_refresh H) @ le32 (config_ncdl H)"
proof -
  have "drop 9 (nvh_bytes H) = drop 1 (le32 (crc_ver_init H) @ le32 (config_refresh H) @ le32 (config_ncdl H))"
    by (simp add: nvh_bytes_def)
  then show ?thesis
    by (simp add: NVRAM_CRC_START_POSITION_def drop_Suc le32_def)
qed

lemma final_header_crc:
  "stored_crc (final_header h n body) =
     hndcrc8 (drop NVRAM_CRC_START_POSITION (nvh_bytes (final_header h n body)) @ take (NVRAM_ROUNDUP (n + 22) 4 - 20) body) 0xff"
proof -
  obtain r c where f: "final_header h n body = r\<lparr>crc_ver_init := crc_ver_init r OR ucast (c :: u8)\<rparr>"
    and c: "c = hndcrc8 (take (NVRAM_ROUNDUP (n + 22) 4 - 20) body)
        (hndcrc8 (drop NVRAM_CRC_START_POSITION (nvh_bytes (r\<lparr>nvh_magic := 0, nvh_len := 0\<rparr>))) 0xff)"
    and r: "\<exists>y. crc_ver_init r = push_bit 8 NVRAM_VERSION OR push_bit 16 y"
    using regenerated_low [of h] unfolding final_header_def Let_def by fastforce
  have "stored_crc (final_header h n body) = c"
    using r low_byte [of NVRAM_VERSION _ c] unfolding f stored_crc_def by auto
  then show ?thesis
    unfolding f c hndcrc8_append nvh_bytes_crc by (simp add: le32_or_crc)
qed

lemma image_crc_bytes:
  assumes lay: "layout_ok ps h" and n: "20 \<le> n" "n - 20 \<le> length body"
  shows "mem_read (nv_image h H body) (unat (nv_offset h) + NVRAM_CRC_START_POSITION) (n - NVRAM_CRC_START_POSITION) =
    Some (drop NVRAM_CRC_START_POSITION (nvh_bytes H) @ take (n - 20) body)"
proof -
  let ?a = "take (unat (nv_offset h)) (nv_mmap h) @ take 9 (nvh_bytes H)" and ?b = "drop 9 (nvh_bytes H) @ body"
  have i: "nv_image h H body = ?a @ ?b"
    unfolding nv_image_def append_assoc by (simp only: append_take_drop_id append_assoc [symmetric])
  have a: "length ?a = unat (nv_offset h) + 9" using lay by (simp add: layout_ok_def)
  have "mem_read (?a @ ?b) (length ?a) (n - 9) = Some (take (n - 9) ?b)" by (rule read_at) (use n in simp)
  moreover have "take (n - 9) ?b = drop 9 (nvh_bytes H) @ take (n - 20) body" using n by simp
  ultimately show ?thesis unfolding i NVRAM_CRC_START_POSITION_def a by simp
qed

lemma commit_crc_ok:
  assumes ok: "handle_ok ps h" and mem: "nv_mem h = []"
  shows "returns (nvram_commit ps h) (\<lambda>(r, h'). info_crc h' = map_option stored_crc (nvram_header h') \<and> info_crc h' \<noteq> None)"
proof -
  obtain h' tail where c: "nvram_commit ps h = Some (0, h')"
    and m: "nv_mmap h' = nv_image h (final ps h tail) (sers (written ps h) @ 0 # tail)" "nv_offset h' = nv_offset h"
    and b: "length (sers (written ps h) @ 0 # tail) = unat ps - unat (nv_offset h) - 20"
    by (rule commit_result [OF ok mem])
  have lay: "layout_ok ps h" using ok by (simp add: handle_ok_def)
  let ?n = "NVRAM_ROUNDUP (length (sers (written ps h)) + 22) 4"
  note n = written_len [OF lay refl]
  have H: "nvram_header h' = Some (final ps h tail)"
    using read_at [of 20 "nvh_bytes (final ps h tail) @ sers (written ps h) @ 0 # tail" "take (unat (nv_offset h)) (nv_mmap h)"] lay
    by (simp add: nvram_header_def m nv_image_def layout_ok_def)
  have "unat (nvh_len (final ps h tail) - of_nat NVRAM_CRC_START_POSITION) = ?n - NVRAM_CRC_START_POSITION"
    using n by (subst unat_sub) (auto simp: final_def NVRAM_CRC_START_POSITION_def word_le_nat_alt)
  then have "info_crc h' = Some (hndcrc8 (drop NVRAM_CRC_START_POSITION (nvh_bytes (final ps h tail)) @
      take (?n - 20) (sers (written ps h) @ 0 # tail)) 0xff)"
    using image_crc_bytes [OF lay, of ?n "sers (written ps h) @ 0 # tail"] n b H by (simp add: info_crc_def m)
  then show ?thesis
    using c H final_header_crc [of h] by (simp add: final_def)
qed

section \<open>Opening an image\<close>

text \<open>An image in a partition of \<open>ps\<close> bytes: the header at \<open>p\<close>, the tuples behind it, a NUL.\<close>

definition image_ok :: "u32 \<Rightarrow> bytes \<Rightarrow> nat \<Rightarrow> nvram_header_t \<Rightarrow> nvram_tuple list \<Rightarrow> bool" where
  "image_ok ps mm p H ts \<longleftrightarrow>
     length mm = unat ps \<and> unat ps mod 4 = 0 \<and> p mod 4 = 0 \<and> p + 0x8000 \<le> unat ps \<and>
     magic_scan mm 0 (scan_turns ps) = Some (int p) \<and> nvh_magic H = NVRAM_MAGIC \<and>
     (\<exists>a tail. mm = a @ nvh_bytes H @ sers ts @ 0 # tail \<and> length a = p) \<and>
     distinct (map t_name ts) \<and> (\<forall>t \<in> set ts. tuple_ok t)"

lemma commit_image:
  assumes ok: "handle_ok ps h" and mem: "nv_mem h = []"
  obtains h' tail where "nvram_commit ps h = Some (0, h')" "handle_ok ps h'" "nv_mem h' = []"
    "image_ok ps (nv_mmap h') (unat (nv_offset h)) (final ps h tail) (written ps h)" "nv_offset h' = nv_offset h"
    "nvram_get h' = sdram_of (final ps h tail) ++ map_of (map pair_of (written ps h))"
proof -
  obtain h' tail where c: "nvram_commit ps h = Some (0, h')" "handle_ok ps h'" "nv_mem h' = []"
    and m: "nv_mmap h' = nv_image h (final ps h tail) (sers (written ps h) @ 0 # tail)" "nv_offset h' = nv_offset h"
    and g: "nvram_get h' = sdram_of (final ps h tail) ++ map_of (map pair_of (written ps h))"
    by (rule commit_result [OF ok mem])
  have lay: "layout_ok ps h" and ts: "\<forall>t \<in> set (tuples h). tuple_ok t" and tab: "table_ok h"
    using ok by (simp_all add: handle_ok_def)
  have "length (take (unat (nv_offset h)) (nv_mmap h)) = unat (nv_offset h)" using lay by (simp add: layout_ok_def)
  then have "\<exists>a tail'. nv_mmap h' = a @ nvh_bytes (final ps h tail) @ sers (written ps h) @ 0 # tail' \<and> length a = unat (nv_offset h)"
    unfolding m nv_image_def by blast
  moreover have "\<forall>t \<in> set (written ps h). tuple_ok t" using ts subseq_set [OF written_subseq] by blast
  ultimately have "image_ok ps (nv_mmap h') (unat (nv_offset h)) (final ps h tail) (written ps h)"
    using c(2) m(2) written_distinct [OF tab]
    by (auto simp: image_ok_def handle_ok_def layout_ok_def final_def)
  with c m(2) g show thesis by (intro that [of h' tail]) auto
qed

lemma image_space:
  assumes "image_ok ps mm p H ts"
  shows "unat (of_nat p :: u32) = p" "unat (ps - of_nat p) = unat ps - p" "length (sers ts) + 21 \<le> unat ps - p"
proof -
  have le: "p + 0x8000 \<le> unat ps" using assms by (simp add: image_ok_def)
  then show p: "unat (of_nat p :: u32) = p" using unat_u32_less [of ps] by (simp add: unat_of_nat_small)
  show "unat (ps - of_nat p) = unat ps - p"
    by (subst unat_sub) (use le p in \<open>auto simp: word_le_nat_alt\<close>)
  show "length (sers ts) + 21 \<le> unat ps - p" using assms by (auto simp: image_ok_def)
qed

lemma open_image:
  assumes im: "image_ok ps mm p H ts"
  obtains h where
    "nvram_open_mapped ps mm [] rdonly = Some (if rdonly \<or> unat (nvh_len H) < unat ps - p then Some h else None, [])"
    "handle_ok ps h" "nv_mem h = []" "nv_mmap h = mm" "unat (nv_offset h) = p"
    "nvram_get h = sdram_of H ++ map_of (map pair_of ts)" "load h \<le> length (sers ts) + 81"
proof -
  define h0 where "h0 = \<lparr>nv_mmap = mm, nv_length = ps, nv_offset = of_nat p, nvram_hash = replicate 257 [], nvram_dead = [], nv_mem = []\<rparr>"
  note sp = image_space [OF im]
  obtain a tail where a: "mm = a @ nvh_bytes H @ sers ts @ 0 # tail" "length a = p" using im by (auto simp: image_ok_def)
  have hold: "holds h0 H ts tail" unfolding holds_def using a sp(1) im by (auto simp: h0_def image_ok_def)
  have hdr: "nvram_header h0 = Some H"
    using a sp(1) read_at [of 20 "nvh_bytes H @ sers ts @ 0 # tail" a] by (simp add: h0_def nvram_header_def)
  obtain h where h: "nvram_rehash h0 = Some (0, h)" "good h" "same_map h0 h" "nvram_get h = sdram_of H ++ map_of (map pair_of ts)"
    by (rule rehash_good [OF hold]) (use im sp in \<open>auto simp: image_ok_def h0_def\<close>)
  have "handle_ok ps h"
    using h(2,3) im sp(1) by (simp add: handle_ok_def good_def same_map_def h0_def layout_ok_def image_ok_def)
  moreover have "alloc h0 = (True, h0)" by (simp add: alloc_def h0_def)
  then have "nvram_open_mapped ps mm [] rdonly = Some (if rdonly \<or> unat (nvh_len H) < unat ps - p then Some h else None, [])"
    using im hdr h(1,2) sp(2)
    by (simp add: nvram_open_mapped_def good_def image_ok_def h0_def [symmetric] word_less_nat_alt)
       (simp add: h0_def)
  ultimately show thesis
    using h sp(1) rehash_load [OF hold _ h(1)] by (intro that [of h]) (auto simp: same_map_def h0_def good_def)
qed

end
