(* ===== verification/Nvram_Session.thy ===== *)
theory Nvram_Session
  imports Nvram_Roundtrip
begin

text \<open>
  The command-line tool as a client of the library: what a sequence of \<open>set\<close> and \<open>unset\<close> commands
  in one call leaves for the next call, and what \<open>commit\<close> moves to the partition.
\<close>

section \<open>Finding the partition\<close>

text \<open>The search reads \<open>/proc/mtd\<close> and the modes of the block devices, nothing else.\<close>

definition same_modes :: "nv_system \<Rightarrow> nv_system \<Rightarrow> bool" where
  "same_modes w w' \<longleftrightarrow> (\<forall>x. map_option st_mode (files w' (cs ''/dev/mtdblock'' @ x)) =
     map_option st_mode (files w (cs ''/dev/mtdblock'' @ x)))"

lemma same_modesD:
  assumes "same_modes w w'"
  shows "files w (cs ''/dev/mtdblock'' @ x) = None \<Longrightarrow> files w' (cs ''/dev/mtdblock'' @ x) = None"
    and "files w (cs ''/dev/mtdblock'' @ x) = Some f \<Longrightarrow>
      \<exists>f'. files w' (cs ''/dev/mtdblock'' @ x) = Some f' \<and> st_mode f' = st_mode f"
  using assms [unfolded same_modes_def, rule_format, of x] by auto

lemma same_modes_update: "same_modes w w' \<Longrightarrow> same_modes (w\<lparr>nvram_part_size := a\<rparr>) (w'\<lparr>nvram_part_size := b\<rparr>)"
  by (simp add: same_modes_def)

lemma find_mtd_loop_frame:
  assumes "find_mtd_loop fp p w = Some (Some d, v)" and "mem w = []" "mem w' = []" and "same_modes w w'"
  shows "find_mtd_loop fp p w' = Some (Some d, w'\<lparr>nvram_part_size := nvram_part_size v\<rparr>) \<and>
     (\<exists>x. d = cs ''/dev/mtdblock'' @ x) \<and> files w d \<noteq> None"
  using assms
proof (induction "length fp" arbitrary: fp p w w' rule: less_induct)
  case less
  have ne: "fp \<noteq> []" using less.prems(1) by (auto simp: find_mtd_loop.simps)
  obtain line rest where l: "fgets (PATH_MAX - 1) fp = (line, rest)" by fastforce
  have short: "length rest < length fp" using fgets_shorter l ne by metis
  obtain i q where m: "mtd_line (takeWhile (\<lambda>c. c \<noteq> 0) line) p = Some (i, q)"
    using less.prems(1) ne l by (subst (asm) find_mtd_loop.simps) (auto split: bind_splits)
  show ?case
  proof (cases i)
    case None
    have u: "find_mtd_loop fp p w = find_mtd_loop rest q w" for w
      using ne l m None by (subst find_mtd_loop.simps) simp
    show ?thesis using less.hyps [OF short, of q w w'] less.prems unfolding u by blast
  next
    case (Some i)
    obtain size where q: "q = Some size"
      using less.prems(1) ne l m Some by (subst (asm) find_mtd_loop.simps) (cases q, auto)
    let ?d = "cs ''/dev/mtdblock'' @ print_int i"
    have u: "find_mtd_loop fp p w =
        (if \<exists>f. files w ?d = Some f \<and> st_mode f AND S_IFBLK \<noteq> 0
         then Some (Some ?d, w\<lparr>nvram_part_size := size\<rparr>)
         else find_mtd_loop rest q (w\<lparr>nvram_part_size := size\<rparr>))" if "mem w = []" for w
      using ne l m Some q that by (subst find_mtd_loop.simps) (auto simp: malloc_def Let_def split: option.splits)
    have same: "(\<exists>f. files w' ?d = Some f \<and> st_mode f AND S_IFBLK \<noteq> 0) =
        (\<exists>f. files w ?d = Some f \<and> st_mode f AND S_IFBLK \<noteq> 0)"
      using same_modesD [OF less.prems(4), of "print_int i"] by (cases "files w ?d") fastforce+
    note ih = less.hyps [OF short, of q "w\<lparr>nvram_part_size := size\<rparr>" "w'\<lparr>nvram_part_size := size\<rparr>"]
    show ?thesis
      using less.prems ih same_modes_update [OF less.prems(4), of size size]
      unfolding u [OF less.prems(2)] u [OF less.prems(3)] same by (auto split: if_splits)
  qed
qed

text \<open>A system with the partition \<open>dev\<close> of \<open>ps\<close> bytes, in which nothing fails, at the start of a process.\<close>

definition device :: "u32 \<Rightarrow> bytes \<Rightarrow> nv_system \<Rightarrow> bool" where
  "device ps dev w \<longleftrightarrow> io w = [] \<and> mem w = [] \<and> ps \<noteq> 0 \<and>
     nvram_find_mtd w = Some (Some dev, w\<lparr>nvram_part_size := ps\<rparr>)"

definition openable :: "fnode \<Rightarrow> bool" where
  "openable f \<longleftrightarrow> st_mode f AND S_IFMT \<noteq> S_IFDIR"

lemma open_file_ok: "io w = [] \<Longrightarrow> files w path = Some f \<Longrightarrow> openable f \<Longrightarrow> open_file w path = (Some f, w)"
  by (simp add: open_file_def openable_def syscall_def)

lemma device_frame:
  assumes d: "device ps dev w" and "io w' = []" "mem w' = []" and m: "same_modes w w'"
    and proc: "files w' (cs ''/proc/mtd'') = files w (cs ''/proc/mtd'')"
  shows "device ps dev w'"
proof -
  obtain f where f: "files w (cs ''/proc/mtd'') = Some f" "openable f"
    "find_mtd_loop (content f) None w = Some (Some dev, w\<lparr>nvram_part_size := ps\<rparr>)"
    using d by (auto simp: device_def nvram_find_mtd_def open_file_def syscall_def openable_def split: option.splits if_splits)
  then have "open_file w' (cs ''/proc/mtd'') = (Some f, w')" using proc assms(2) by (simp add: open_file_ok)
  then show ?thesis
    using d find_mtd_loop_frame [OF f(3) _ assms(3) m] assms(2,3)
    by (simp add: device_def nvram_find_mtd_def)
qed

lemma device_path:
  assumes "device ps dev w"
  shows "(\<exists>x. dev = cs ''/dev/mtdblock'' @ x) \<and> files w dev \<noteq> None"
proof -
  obtain f :: fnode where f: "find_mtd_loop (content f) None w = Some (Some dev, w\<lparr>nvram_part_size := ps\<rparr>)"
    using assms by (auto simp: device_def nvram_find_mtd_def open_file_def syscall_def split: option.splits if_splits)
  show ?thesis
    using find_mtd_loop_frame [OF f, of w] assms by (simp add: device_def same_modes_def)
qed

lemma paths_differ [simp]:
  "NVRAM_STAGING \<noteq> cs ''/proc/mtd''" "cs ''/proc/mtd'' \<noteq> NVRAM_STAGING"
  "NVRAM_STAGING \<noteq> cs ''/dev/mtdblock'' @ x" "cs ''/dev/mtdblock'' @ x \<noteq> NVRAM_STAGING"
  "cs ''/proc/mtd'' \<noteq> cs ''/dev/mtdblock'' @ x" "cs ''/dev/mtdblock'' @ x \<noteq> cs ''/proc/mtd''"
  by (simp_all add: NVRAM_STAGING_def cs_def)

text \<open>Changing the staging file, or the bytes of the partition, keeps the partition where it is.\<close>

lemma device_staging:
  "device ps dev w \<Longrightarrow> io w' = [] \<Longrightarrow> mem w' = [] \<Longrightarrow> files w' = (files w)(NVRAM_STAGING := f) \<Longrightarrow> device ps dev w'"
  by (erule device_frame) (simp_all add: same_modes_def)

lemma device_written:
  assumes "device ps dev w" and "io w' = []" "mem w' = []" and "files w dev = Some f"
    and "files w' = (files w)(dev \<mapsto> f\<lparr>content := c\<rparr>)"
  shows "device ps dev w'"
  by (rule device_frame [OF assms(1-3)])
     (use device_path [OF assms(1)] assms(4,5) in \<open>auto simp: same_modes_def\<close>)

lemma device_part_size:
  assumes "device ps dev w"
  shows "device ps dev (w\<lparr>nvram_part_size := a\<rparr>)"
  by (rule device_frame [OF assms]) (use assms in \<open>simp_all add: same_modes_def device_def\<close>)

section \<open>Opening\<close>

text \<open>The file \<open>path\<close> holds an image.\<close>

definition stored :: "u32 \<Rightarrow> nv_system \<Rightarrow> bytes \<Rightarrow> nat \<Rightarrow> nvram_header_t \<Rightarrow> nvram_tuple list \<Rightarrow> bool" where
  "stored ps w path p H ts \<longleftrightarrow> (\<exists>f. files w path = Some f \<and> openable f \<and> unat ps \<le> length (content f) \<and>
     image_ok ps (take (unat ps) (content f)) p H ts)"

definition regular :: "nv_system \<Rightarrow> bool" where
  "regular w \<longleftrightarrow> (\<exists>f. files w NVRAM_STAGING = Some f \<and> st_mode f AND S_IFREG \<noteq> 0)"

lemma find_staging: "nvram_find_staging w = (if regular w then Some NVRAM_STAGING else None)"
  by (auto simp: nvram_find_staging_def regular_def split: option.splits)

lemma open_stored:
  assumes d: "device ps dev w" and st: "stored ps w path p H ts"
    and s: "nvram_part_size w = 0 \<or> nvram_part_size w = ps" and rw: "rdonly \<or> unat (nvh_len H) < unat ps - p"
  obtains h where "nvram_open w (Some path) rdonly = Some (Some (h, if rdonly then None else Some path), w\<lparr>nvram_part_size := ps\<rparr>)"
    "handle_ok ps h" "nv_mem h = []" "unat (nv_offset h) = p"
    "nvram_get h = sdram_of H ++ map_of (map pair_of ts)" "load h \<le> length (sers ts) + 81"
proof -
  obtain f where f: "files w path = Some f" "openable f" and im: "image_ok ps (take (unat ps) (content f)) p H ts"
    using st by (auto simp: stored_def)
  obtain h where h: "nvram_open_mapped ps (take (unat ps) (content f)) [] rdonly = Some (Some h, [])"
    and r: "handle_ok ps h" "nv_mem h = []" "unat (nv_offset h) = p"
      "nvram_get h = sdram_of H ++ map_of (map pair_of ts)" "load h \<le> length (sers ts) + 81"
    using rw by (rule_tac open_image [OF im, of rdonly]) auto
  let ?w = "w\<lparr>nvram_part_size := ps\<rparr>"
  have "nvram_open_at ?w path rdonly = Some (Some (h, if rdonly then None else Some path), ?w)"
    using d f h open_file_ok [of ?w path f] by (simp add: nvram_open_at_def device_def syscall_def)
  moreover have "w\<lparr>nvram_part_size := nvram_part_size w\<rparr> = w" by simp
  ultimately have "nvram_open w (Some path) rdonly = Some (Some (h, if rdonly then None else Some path), ?w)"
    using d s by (auto simp: nvram_open_def device_def)
  with r show thesis by (intro that [of h]) auto
qed

section \<open>Commands\<close>

definition args_of :: "var_op \<Rightarrow> bytes list" where
  "args_of x = (case x of Put n v \<Rightarrow> [cs ''set'', n @ [0x3d] @ v] | Del n \<Rightarrow> [cs ''unset'', n])"

lemma strstr_eq: "0x3d \<notin> set n \<Longrightarrow> strstr (n @ 0x3d # v) (cs ''='') = Some (length n)"
  by (induction n) (auto simp: cs_def)

lemma do_set_pair: "0x3d \<notin> set n \<Longrightarrow> do_set h (n @ 0x3d # v) = nvram_set h n v"
  by (simp add: do_set_def strstr_eq)

lemma commands_differ [simp]:
  "cs ''set'' \<noteq> cs ''show''" "cs ''set'' \<noteq> cs ''info''" "cs ''set'' \<noteq> cs ''get''" "cs ''set'' \<noteq> cs ''unset''"
  "cs ''unset'' \<noteq> cs ''show''" "cs ''unset'' \<noteq> cs ''info''" "cs ''unset'' \<noteq> cs ''get''" "cs ''get'' \<noteq> cs ''show''"
  "cs ''get'' \<noteq> cs ''info''" "cs ''get'' \<noteq> cs ''set''" "cs ''get'' \<noteq> cs ''unset''" "cs ''get'' \<noteq> cs ''commit''"
  "cs ''commit'' \<noteq> cs ''show''" "cs ''commit'' \<noteq> cs ''info''" "cs ''commit'' \<noteq> cs ''get''"
  "cs ''commit'' \<noteq> cs ''unset''" "cs ''commit'' \<noteq> cs ''set''"
  by (simp_all add: cs_def)

lemma cli_loop_op:
  "op_ok x \<Longrightarrow> cli_loop (args_of x @ args) s =
     cli_loop args (s\<lparr>c_h := snd (run_op nvram_set nvram_unset x (c_h s)),
       c_stat := fst (run_op nvram_set nvram_unset x (c_h s)), c_done := c_done s + 1\<rparr>)"
  by (cases x) (auto simp: args_of_def op_ok_def do_set_pair split: prod.splits)

lemma cli_loop_ops:
  "\<forall>x \<in> set xs. op_ok x \<Longrightarrow>
     \<exists>st. cli_loop (concat (map args_of xs) @ args) s =
       cli_loop args (s\<lparr>c_h := snd (run_ops nvram_set nvram_unset xs (c_h s)), c_stat := st, c_done := c_done s + length xs\<rparr>)"
proof (induction xs arbitrary: s)
  case Nil
  have "s = s\<lparr>c_h := c_h s, c_stat := c_stat s, c_done := c_done s\<rparr>" by simp
  then show ?case by (metis append_Nil concat.simps(1) list.map(1) list.size(3) run_ops.simps(1) snd_conv add_0_right)
next
  case (Cons x xs)
  let ?h = "snd (run_op nvram_set nvram_unset x (c_h s))"
  have ok: "op_ok x" using Cons.prems by simp
  define st where "st = fst (run_op nvram_set nvram_unset x (c_h s))"
  have 1: "cli_loop (args_of x @ concat (map args_of xs) @ args) s =
      cli_loop (concat (map args_of xs) @ args) (s\<lparr>c_h := ?h, c_stat := st, c_done := c_done s + 1\<rparr>)"
    unfolding st_def by (rule cli_loop_op [OF ok])
  obtain st' where "cli_loop (concat (map args_of xs) @ args) (s\<lparr>c_h := ?h, c_stat := st, c_done := c_done s + 1\<rparr>) =
      cli_loop args (s\<lparr>c_h := snd (run_ops nvram_set nvram_unset xs ?h), c_stat := st', c_done := c_done s + 1 + length xs\<rparr>)"
    using Cons.IH [of "s\<lparr>c_h := ?h, c_stat := st, c_done := c_done s + 1\<rparr>"] Cons.prems by auto
  with 1 show ?case by (auto simp: split_beta)
qed

text \<open>A commit through a shared mapping.\<close>

lemma session_commit_ok:
  assumes ok: "handle_ok ps h" and mem: "nv_mem h = []" and fit: "fits ps h" and ps: "nvram_part_size w = ps"
    and f: "files w path = Some f" "openable f" "unat ps \<le> length (content f)"
  obtains h' H ts c where "session_commit w (h, Some path) =
      Some (0, (h', Some path), w\<lparr>files := (files w)(path \<mapsto> f\<lparr>content := c\<rparr>)\<rparr>)"
    "length c = length (content f)" "image_ok ps (take (unat ps) c) (unat (nv_offset h)) H ts" "nv_mem h' = []"
    "sdram_of H ++ map_of (map pair_of ts) = sdram_defaults ++ nvram_get h"
    "nvh_len H = of_nat (NVRAM_ROUNDUP (load h + 22) 4)" "length (sers ts) = load h"
proof -
  obtain h' tail where c: "nvram_commit ps h = Some (0, h')" "nv_mem h' = []"
    and im: "image_ok ps (nv_mmap h') (unat (nv_offset h)) (final ps h tail) (written ps h)"
    by (rule commit_image [OF ok mem])
  have len: "length (nv_mmap h') = unat ps" using im by (simp add: image_ok_def)
  let ?c = "overwrite (content f) (nv_mmap h')"
  have cc: "take (unat ps) ?c = nv_mmap h'" "length ?c = length (content f)" using len f(3) by (simp_all add: overwrite_def)
  have w: "written ps h = tuples h" by (rule written_all [OF fit])
  have "map_of (map pair_of (written ps h)) = nvram_get h"
    using ok get_map_of [of h] w by (simp add: handle_ok_def)
  then have "sdram_of (final ps h tail) ++ map_of (map pair_of (written ps h)) = sdram_defaults ++ nvram_get h"
    using sdram_add [of h] by (simp add: final_def)
  moreover have "nvh_len (final ps h tail) = of_nat (NVRAM_ROUNDUP (load h + 22) 4)"
    by (simp add: final_def w load_def)
  moreover have "session_commit w (h, Some path) = Some (0, (h', Some path), w\<lparr>files := (files w)(path \<mapsto> f\<lparr>content := ?c\<rparr>)\<rparr>)"
    using c f(1) ps by (simp add: session_commit_def put_file_def)
  ultimately show thesis
    using im cc c(2) w by (intro that [of h' ?c "final ps h tail" "written ps h"]) (auto simp: load_def)
qed

section \<open>Processes\<close>

text \<open>A call of the tool: the global variable starts as 0.\<close>

definition nvram_process :: "bytes list \<Rightarrow> nv_system \<Rightarrow> (int \<times> cli_out list \<times> nv_system) option" where
  "nvram_process args w = cli_main args (w\<lparr>nvram_part_size := 0\<rparr>)"

text \<open>The variables that the tool sees, and the answer of \<open>nvram get\<close>.\<close>

definition answer :: "bytes option \<Rightarrow> int \<times> cli_out list" where
  "answer v = (case v of None \<Rightarrow> (1, []) | Some v \<Rightarrow> (0, [Line v]))"

lemma stored_part_size [simp]: "stored ps (w\<lparr>nvram_part_size := a\<rparr>) = stored ps w"
  "regular (w\<lparr>nvram_part_size := a\<rparr>) = regular w"
  by (simp_all add: stored_def [abs_def] regular_def)

lemma get_process:
  assumes d: "device ps dev w" and st: "stored ps w path p H ts"
    and path: "path = (if regular w then NVRAM_STAGING else dev)"
  shows "nvram_process [cs ''get'', n] w =
    Some (fst (answer ((sdram_of H ++ map_of (map pair_of ts)) n)), snd (answer ((sdram_of H ++ map_of (map pair_of ts)) n)),
      w\<lparr>nvram_part_size := ps\<rparr>)"
proof -
  let ?w = "w\<lparr>nvram_part_size := 0\<rparr>" and ?wp = "w\<lparr>nvram_part_size := ps\<rparr>"
  have d0: "device ps dev ?w" by (rule device_part_size [OF d])
  have dp: "device ps dev ?wp" by (rule device_part_size [OF d])
  define w1 where "w1 = (if regular w then ?w else ?wp)"
  have w1: "device ps dev w1" "stored ps w1 path p H ts" "nvram_part_size w1 = 0 \<or> nvram_part_size w1 = ps"
    "w1\<lparr>nvram_part_size := ps\<rparr> = ?wp"
    using d0 dp st by (auto simp: w1_def)
  obtain h where o: "nvram_open w1 (Some path) True = Some (Some (h, None), ?wp)"
    and h: "nv_mem h = []" "nvram_get h = sdram_of H ++ map_of (map pair_of ts)"
    using w1(4) by (rule_tac open_stored [OF w1(1-3), of True]) auto
  have "nvram_open_rdonly ?w = Some (Some (h, None), ?wp)"
    using o d0 path by (auto simp: nvram_open_rdonly_def find_staging w1_def device_def split: if_splits)
  moreover have "cli_loop [cs ''get'', n] \<lparr>c_h = h, c_out = [], c_stat = 1, c_done = 0, c_commit = False\<rparr> =
      Some \<lparr>c_h = h, c_out = snd (answer (nvram_get h n)), c_stat = fst (answer (nvram_get h n)), c_done = 1, c_commit = False\<rparr>"
    by (simp add: do_get_def answer_def split: option.splits)
  moreover have "nvram_close ?wp (h, None) = ?wp"
    using h(1) d by (simp add: nvram_close_def free_frame device_def)
  ultimately show ?thesis
    using h(2) by (simp add: nvram_process_def cli_main_def expects_write_def Let_def)
qed

text \<open>A call that writes to an existing staging file: the operations, and perhaps \<open>commit\<close>.\<close>

definition fits_ops :: "u32 \<Rightarrow> nat \<Rightarrow> nvram_tuple list \<Rightarrow> var_op list \<Rightarrow> bool" where
  "fits_ops ps p ts xs \<longleftrightarrow> p + 110 + length (sers ts) + sum_list (map op_size xs) \<le> unat ps"

lemma expects_write_ops: "xs \<noteq> [] \<Longrightarrow> expects_write (concat (map args_of xs) @ args)"
  by (cases xs) (auto simp: expects_write_def args_of_def split: var_op.splits)

lemma handle_good: "handle_ok ps h \<Longrightarrow> nv_mem h = [] \<Longrightarrow> good h"
  by (simp add: handle_ok_def good_def)

lemma handle_same:
  "handle_ok ps h \<Longrightarrow> good h' \<Longrightarrow> same_map h h' \<Longrightarrow> handle_ok ps h'"
  by (simp add: handle_ok_def good_def same_map_def layout_ok_def)

lemma op_value_size: "v \<in> set (op_values xs) \<Longrightarrow> length v + 2 \<le> sum_list (map op_size xs)"
  by (induction xs rule: op_values.induct) (auto simp: op_size_def)

lemma roundup_slack: "NVRAM_ROUNDUP n 4 \<le> n + 3"
  unfolding NVRAM_ROUNDUP_def by simp

lemma ops_handle:
  assumes h: "handle_ok ps h" "nv_mem h = []" and p: "unat (nv_offset h) = p" and ld: "load h \<le> length (sers ts) + 81"
    and ops: "\<forall>x \<in> set xs. op_ok x" and fit: "fits_ops ps p ts xs"
    and h': "h' = snd (run_ops nvram_set nvram_unset xs h)"
  shows "handle_ok ps h' \<and> nv_mem h' = [] \<and> unat (nv_offset h') = p \<and> fits ps h' \<and>
    load h' \<le> length (sers ts) + 81 + sum_list (map op_size xs) \<and> nvram_get h' = fold apply_op xs (nvram_get h)"
proof -
  obtain rs where run: "run_ops nvram_set nvram_unset xs h = (rs, h')" using h' by (metis prod.collapse)
  note g = good_ops [OF handle_good [OF h] ops run]
  have lay: "layout_ok ps h" and tab: "table_ok h" using h(1) by (simp_all add: handle_ok_def)
  have "nv_room h v" if "v \<in> set (op_values xs)" for v
    using op_value_size [OF that] fit h(2) p space_left(1) [OF lay] lay
    by (simp add: nv_room_def fits_ops_def layout_ok_def)
  from nv.ops_with_room [OF tab run this] have "nvram_get h' = fold apply_op xs (nvram_get h)" by blast
  moreover have "fits ps h'" using g p ld fit by (simp add: fits_def fits_ops_def same_map_def)
  ultimately show ?thesis
    using g p ld handle_same [OF h(1)] by (auto simp: good_def same_map_def)
qed

text \<open>
  The arguments \<open>args\<close> make the tool perform the operations \<open>xs\<close> silently on what it has opened for
  writing; \<open>cm\<close> says whether \<open>commit\<close> is among them.
\<close>

definition cli_init :: "nvram_handle \<Rightarrow> cli_state" where
  "cli_init h = \<lparr>c_h = h, c_out = [], c_stat = 1, c_done = 0, c_commit = False\<rparr>"

definition performs :: "bytes list \<Rightarrow> var_op list \<Rightarrow> bool \<Rightarrow> bool" where
  "performs args xs cm \<longleftrightarrow> args \<noteq> [] \<and> expects_write args \<and>
     (\<forall>h. \<exists>st k. cli_loop args (cli_init h) =
        Some \<lparr>c_h = snd (run_ops nvram_set nvram_unset xs h), c_out = [], c_stat = st, c_done = Suc k, c_commit = cm\<rparr>)"

lemma write_args:
  assumes "xs \<noteq> [] \<or> cm"
  shows "expects_write (concat (map args_of xs) @ (if cm then [cs ''commit''] else [])) \<and>
    concat (map args_of xs) @ (if cm then [cs ''commit''] else []) \<noteq> []"
proof (cases xs)
  case Nil
  then show ?thesis using assms by (simp add: expects_write_def)
next
  case (Cons x ys)
  then show ?thesis
    using expects_write_ops [of xs] by (auto simp: args_of_def split: var_op.splits)
qed

lemma performs_ops:
  assumes "xs \<noteq> [] \<or> cm" and "\<forall>x \<in> set xs. op_ok x"
  shows "performs (concat (map args_of xs) @ (if cm then [cs ''commit''] else [])) xs cm"
proof -
  let ?args = "concat (map args_of xs) @ (if cm then [cs ''commit''] else [])"
  have "\<exists>st k. cli_loop ?args (cli_init h) =
      Some \<lparr>c_h = snd (run_ops nvram_set nvram_unset xs h), c_out = [], c_stat = st, c_done = Suc k, c_commit = cm\<rparr>" for h
    using cli_loop_ops [OF assms(2), of "if cm then [cs ''commit''] else []" "cli_init h"] assms(1)
    by (cases xs) (auto simp: cli_init_def)
  with write_args [OF assms(1)] show ?thesis by (auto simp: performs_def)
qed

text \<open>A \<open>set\<close> without equals sign performs nothing.\<close>

lemma strstr_none: "0x3d \<notin> set pair \<Longrightarrow> strstr pair (cs ''='') = None"
  by (induction pair) (auto simp: cs_def)

lemma performs_nothing: "0x3d \<notin> set pair \<Longrightarrow> performs [cs ''set'', pair] [] False"
  by (auto simp: performs_def expects_write_def cli_init_def do_set_def strstr_none)

text \<open>The call up to \<open>nvram_close\<close>.\<close>

lemma write_session:
  assumes d: "device ps dev w" and f: "files w NVRAM_STAGING = Some f"
    and s: "nvram_part_size w = 0 \<or> nvram_part_size w = ps" and st: "stored ps w NVRAM_STAGING p H ts" and rw: "unat (nvh_len H) < unat ps - p"
    and ops: "\<forall>x \<in> set xs. op_ok x" and fit: "fits_ops ps p ts xs" and perf: "performs args xs cm"
  obtains h s h' H' ts' c
  where "nvram_open w (Some NVRAM_STAGING) False = Some (Some (h, Some NVRAM_STAGING), w\<lparr>nvram_part_size := ps\<rparr>)"
    "cli_loop args (cli_init h) = Some s" "c_out s = []" "c_done s > 0" "c_commit s = cm"
    "session_commit (w\<lparr>nvram_part_size := ps\<rparr>) (c_h s, Some NVRAM_STAGING) = Some (0, (h', Some NVRAM_STAGING),
       w\<lparr>nvram_part_size := ps, files := (files w)(NVRAM_STAGING \<mapsto> f\<lparr>content := c\<rparr>)\<rparr>)"
    "nv_mem h' = []" "length c = length (content f)" "image_ok ps (take (unat ps) c) p H' ts'"
    "sdram_of H' ++ map_of (map pair_of ts') = sdram_defaults ++ fold apply_op xs (sdram_of H ++ map_of (map pair_of ts))"
    "unat (nvh_len H') < unat ps - p" "length (sers ts') \<le> length (sers ts) + 81 + sum_list (map op_size xs)"
proof -
  let ?wp = "w\<lparr>nvram_part_size := ps\<rparr>"
  obtain h where o: "nvram_open w (Some NVRAM_STAGING) False = Some (Some (h, Some NVRAM_STAGING), ?wp)"
    and h: "handle_ok ps h" "nv_mem h = []" "unat (nv_offset h) = p" "load h \<le> length (sers ts) + 81"
    and g: "nvram_get h = sdram_of H ++ map_of (map pair_of ts)"
    using rw by (rule_tac open_stored [OF d st s, of False]) auto
  define h1 where "h1 = snd (run_ops nvram_set nvram_unset xs h)"
  note h1 = ops_handle [OF h ops fit h1_def]
  obtain st k where loop: "cli_loop args (cli_init h) =
      Some \<lparr>c_h = h1, c_out = [], c_stat = st, c_done = Suc k, c_commit = cm\<rparr>"
    using perf unfolding performs_def h1_def by blast
  have of: "openable f" "unat ps \<le> length (content f)" using st f by (auto simp: stored_def)
  obtain h' H' ts' c where sc: "session_commit ?wp (h1, Some NVRAM_STAGING) = Some (0, (h', Some NVRAM_STAGING),
       ?wp\<lparr>files := (files ?wp)(NVRAM_STAGING \<mapsto> f\<lparr>content := c\<rparr>)\<rparr>)"
    and c: "length c = length (content f)" "image_ok ps (take (unat ps) c) (unat (nv_offset h1)) H' ts'" "nv_mem h' = []"
    and m: "sdram_of H' ++ map_of (map pair_of ts') = sdram_defaults ++ nvram_get h1"
    and l: "nvh_len H' = of_nat (NVRAM_ROUNDUP (load h1 + 22) 4)" "length (sers ts') = load h1"
    by (rule session_commit_ok [of ps h1 ?wp NVRAM_STAGING f]) (use h1 f of in auto)
  have small: "NVRAM_ROUNDUP (load h1 + 22) 4 < unat ps - p"
    using roundup_slack [of "load h1 + 22"] h1 fit unfolding fits_ops_def by linarith
  then have "unat (nvh_len H') < unat ps - p"
    using unat_u32_less [of ps] by (simp add: l(1) unat_of_nat_small)
  then show thesis
    using o loop sc c m l h1 g by (intro that [of h _ h' c H' ts']) auto
qed

section \<open>The staging file\<close>

text \<open>The system once there is a staging file: as it is, or with a copy of the partition.\<close>

definition staged :: "u32 \<Rightarrow> bytes \<Rightarrow> nv_system \<Rightarrow> nv_system" where
  "staged ps dev w =
     (if regular w then w\<lparr>nvram_part_size := 0\<rparr>
      else w\<lparr>nvram_part_size := ps, files := (files w)(NVRAM_STAGING \<mapsto>
        \<lparr>st_mode = S_IFREG OR 0x180, content = take (unat ps) (content (the (files w dev)))\<rparr>)\<rparr>)"

definition sees :: "u32 \<Rightarrow> bytes \<Rightarrow> nv_system \<Rightarrow> nat \<Rightarrow> nvram_header_t \<Rightarrow> nvram_tuple list \<Rightarrow> bool" where
  "sees ps dev w p H ts \<longleftrightarrow> device ps dev w \<and> (regular w \<or> files w NVRAM_STAGING = None) \<and>
     stored ps w (if regular w then NVRAM_STAGING else dev) p H ts"

lemma open_staged:
  assumes "sees ps dev w p H ts"
  shows "nvram_open_staging (w\<lparr>nvram_part_size := 0\<rparr>) = nvram_open (staged ps dev w) (Some NVRAM_STAGING) False"
proof (cases "regular w")
  case True
  then show ?thesis by (simp add: nvram_open_staging_def find_staging staged_def)
next
  case False
  then obtain f where f: "files w dev = Some f" "openable f" "unat ps \<le> length (content f)" and n: "files w NVRAM_STAGING = None"
    using assms by (auto simp: sees_def stored_def)
  have d: "device ps dev (w\<lparr>nvram_part_size := 0\<rparr>)" using assms device_part_size by (auto simp: sees_def)
  let ?wp = "w\<lparr>nvram_part_size := ps\<rparr>"
  have "open_file ?wp dev = (Some f, ?wp)" using open_file_ok [of ?wp] f d by (simp add: device_def)
  moreover have "read_file ?wp f = (Some (take (unat ps) (content f)), ?wp)"
    using d f by (simp add: read_file_def syscall_def device_def)
  ultimately have "nvram_to_staging (w\<lparr>nvram_part_size := 0\<rparr>) = Some (0, staged ps dev w)"
    using d n False f
    by (simp add: nvram_to_staging_def device_def creat_file_def write_file_def syscall_def put_file_def overwrite_def staged_def Let_def)
  with False show ?thesis by (simp add: nvram_open_staging_def find_staging)
qed

lemma staged_ok:
  assumes "sees ps dev w p H ts"
  shows "device ps dev (staged ps dev w)" "stored ps (staged ps dev w) NVRAM_STAGING p H ts"
    "nvram_part_size (staged ps dev w) = 0 \<or> nvram_part_size (staged ps dev w) = ps" "regular (staged ps dev w)"
    "files (staged ps dev w) dev = files w dev"
proof -
  have d: "device ps dev w" using assms by (simp add: sees_def)
  have mode: "(S_IFREG OR 0x180) AND S_IFREG \<noteq> 0" "(S_IFREG OR 0x180) AND S_IFMT \<noteq> S_IFDIR"
    by (simp_all add: S_IFREG_def S_IFMT_def S_IFDIR_def)
  have p: "dev \<noteq> NVRAM_STAGING" using device_path [OF d] by auto
  show "device ps dev (staged ps dev w)"
  proof (cases "regular w")
    case True
    then show ?thesis using device_part_size [OF d] by (simp add: staged_def)
  next
    case False
    then show ?thesis by (intro device_staging [OF d]) (use d in \<open>auto simp: staged_def device_def\<close>)
  qed
  show "stored ps (staged ps dev w) NVRAM_STAGING p H ts"
    using assms mode by (auto simp: staged_def sees_def stored_def openable_def split: if_splits)
  show "nvram_part_size (staged ps dev w) = 0 \<or> nvram_part_size (staged ps dev w) = ps" by (simp add: staged_def)
  show "regular (staged ps dev w)" using mode by (simp add: staged_def regular_def)
  show "files (staged ps dev w) dev = files w dev" using p by (simp add: staged_def)
qed

section \<open>Writing calls\<close>

lemma staging_to_nvram_ok:
  assumes d: "device ps dev w" and f: "files w NVRAM_STAGING = Some f" "openable f" "unat ps \<le> length (content f)"
    and fd: "files w dev = Some fd" "openable fd"
  shows "staging_to_nvram w = Some (0, w\<lparr>nvram_part_size := ps,
    files := (files w)(dev \<mapsto> fd\<lparr>content := overwrite (content fd) (take (unat ps) (content f))\<rparr>, NVRAM_STAGING := None)\<rparr>)"
proof -
  let ?wp = "w\<lparr>nvram_part_size := ps\<rparr>"
  have "open_file ?wp NVRAM_STAGING = (Some f, ?wp)" "open_file ?wp dev = (Some fd, ?wp)"
    using open_file_ok [of ?wp] f fd d by (simp_all add: device_def)
  moreover have "read_file ?wp f = (Some (take (unat ps) (content f)), ?wp)"
    using d f by (simp add: read_file_def syscall_def device_def)
  ultimately show ?thesis
    using d by (simp add: staging_to_nvram_def device_def write_file_def unlink_def syscall_def put_file_def Let_def)
qed

text \<open>After \<open>staging_to_nvram\<close> the partition has the image of the staging file.\<close>

lemma moved_to_device:
  assumes d: "device ps dev w" and f: "files w NVRAM_STAGING = Some f" "openable f" "unat ps \<le> length (content f)"
    and im: "image_ok ps (take (unat ps) (content f)) p H ts"
    and fd: "files w dev = Some fd" "openable fd" "unat ps \<le> length (content fd)"
  shows "\<exists>w'. staging_to_nvram w = Some (0, w') \<and> sees ps dev w' p H ts \<and> \<not> regular w'"
proof -
  let ?fd = "fd\<lparr>content := overwrite (content fd) (take (unat ps) (content f))\<rparr>"
  define w' where "w' = w\<lparr>nvram_part_size := ps, files := (files w)(dev \<mapsto> ?fd, NVRAM_STAGING := None)\<rparr>"
  have p: "dev \<noteq> NVRAM_STAGING" using device_path [OF d] by auto
  have "device ps dev (w\<lparr>files := (files w)(dev \<mapsto> ?fd)\<rparr>)"
    by (rule device_written [OF d _ _ fd(1)]) (use d in \<open>auto simp: device_def\<close>)
  then have "device ps dev w'"
    by (rule device_staging) (use d in \<open>auto simp: w'_def device_def\<close>)
  moreover have "files w' dev = Some ?fd" "files w' NVRAM_STAGING = None" using p by (simp_all add: w'_def)
  moreover have "take (unat ps) (content ?fd) = take (unat ps) (content f)" "unat ps \<le> length (content ?fd)"
    using f by (simp_all add: overwrite_def)
  moreover have "openable ?fd" using fd(2) by (simp add: openable_def)
  ultimately have "sees ps dev w' p H ts" "\<not> regular w'"
    using im by (simp_all add: sees_def regular_def stored_def)
  with staging_to_nvram_ok [OF d f fd(1,2)] show ?thesis by (auto simp: w'_def)
qed

text \<open>
  One call with operations and perhaps \<open>commit\<close>: the answers of the next calls are those of the map
  after the operations.
\<close>

lemma write_process:
  assumes s: "sees ps dev w p H ts" and rw: "unat (nvh_len H) < unat ps - p"
    and ops: "\<forall>x \<in> set xs. op_ok x" and fit: "fits_ops ps p ts xs" and perf: "performs args xs cm"
    and fd: "files w dev = Some fd" "openable fd" "unat ps \<le> length (content fd)"
  shows "\<exists>w' H' ts'. nvram_process args w = Some (0, [], w') \<and>
    sees ps dev w' p H' ts' \<and> unat (nvh_len H') < unat ps - p \<and> regular w' = (\<not> cm) \<and>
    sdram_of H' ++ map_of (map pair_of ts') = sdram_defaults ++ fold apply_op xs (sdram_of H ++ map_of (map pair_of ts))"
proof -
  let ?w = "staged ps dev w"
  note st = staged_ok [OF s]
  obtain f where f: "files ?w NVRAM_STAGING = Some f" "openable f" "unat ps \<le> length (content f)" "st_mode f AND S_IFREG \<noteq> 0"
    using st(2,4) by (auto simp: stored_def regular_def)
  obtain h l h' H' ts' c where o: "nvram_open ?w (Some NVRAM_STAGING) False = Some (Some (h, Some NVRAM_STAGING), ?w\<lparr>nvram_part_size := ps\<rparr>)"
    and l: "cli_loop args (cli_init h) = Some l" "c_out l = []" "c_done l > 0" "c_commit l = cm"
    and sc: "session_commit (?w\<lparr>nvram_part_size := ps\<rparr>) (c_h l, Some NVRAM_STAGING) = Some (0, (h', Some NVRAM_STAGING),
       ?w\<lparr>nvram_part_size := ps, files := (files ?w)(NVRAM_STAGING \<mapsto> f\<lparr>content := c\<rparr>)\<rparr>)" "nv_mem h' = []"
    and c: "length c = length (content f)" "image_ok ps (take (unat ps) c) p H' ts'"
    and m: "sdram_of H' ++ map_of (map pair_of ts') = sdram_defaults ++ fold apply_op xs (sdram_of H ++ map_of (map pair_of ts))"
      "unat (nvh_len H') < unat ps - p"
    by (rule write_session [OF st(1) f(1) st(3) st(2) rw ops fit perf])
  define w1 where "w1 = ?w\<lparr>nvram_part_size := ps, files := (files ?w)(NVRAM_STAGING \<mapsto> f\<lparr>content := c\<rparr>)\<rparr>"
  have d1: "device ps dev w1"
    by (rule device_staging [OF st(1)]) (use st(1) in \<open>auto simp: w1_def device_def\<close>)
  have close: "nvram_close w1 (h', Some NVRAM_STAGING) = w1"
    using sc(2) d1 by (simp add: nvram_close_def free_frame device_def)
  have ex: "expects_write args" "args \<noteq> []" using perf by (simp_all add: performs_def)
  have main: "nvram_process args w =
      (if cm then staging_to_nvram w1 else Some (0, w1)) \<bind> (\<lambda>(stat, w'). Some (stat, [], w'))"
    using o l sc(1) ex open_staged [OF s] close
    by (auto simp: nvram_process_def cli_main_def Let_def w1_def [symmetric] cli_init_def [symmetric])
  have st1: "files w1 NVRAM_STAGING = Some (f\<lparr>content := c\<rparr>)" "openable (f\<lparr>content := c\<rparr>)"
    using f by (simp_all add: w1_def openable_def)
  show ?thesis
  proof (cases cm)
    case False
    have "sees ps dev w1 p H' ts'" "regular w1"
      using d1 st1 c f by (auto simp: sees_def regular_def stored_def w1_def)
    with False main m show ?thesis by auto
  next
    case True
    have "dev \<noteq> NVRAM_STAGING" using device_path [OF d1] by auto
    then have fd1: "files w1 dev = Some fd" using st(5) fd(1) by (simp add: w1_def)
    have "\<exists>w'. staging_to_nvram w1 = Some (0, w') \<and> sees ps dev w' p H' ts' \<and> \<not> regular w'"
      by (rule moved_to_device [OF d1 st1 _ _ fd1 fd(2,3)]) (use c f in simp_all)
    then obtain w' where w': "staging_to_nvram w1 = Some (0, w')" "sees ps dev w' p H' ts'" "\<not> regular w'" by blast
    show ?thesis
      by (intro exI [of _ w'] exI [of _ H'] exI [of _ ts']) (use True main m w' in simp)
  qed
qed

text \<open>The answers of \<open>nvram get\<close> are those of the map \<open>m\<close>.\<close>

definition answers :: "nv_system \<Rightarrow> var_map \<Rightarrow> bool" where
  "answers w m \<longleftrightarrow> (\<forall>n. returns (nvram_process [cs ''get'', n] w) (\<lambda>(r, out, w'). (r, out) = answer (m n)))"

lemma sees_answers: "sees ps dev w p H ts \<Longrightarrow> answers w (sdram_of H ++ map_of (map pair_of ts))"
  using get_process [of ps dev w _ p H ts, OF _ _ refl] by (auto simp: answers_def sees_def)

lemma answers_unique:
  assumes "answers w m" and "answers w m'"
  shows "m = m'"
proof
  fix n
  have "answer (m n) = answer (m' n)"
    using assms [unfolded answers_def, rule_format, of n] by (auto simp: returns_iff)
  then show "m n = m' n" by (auto simp: answer_def split: option.splits)
qed

end
