(* ===== verification/Nvram_Spec.thy ===== *)
theory Nvram_Spec
  imports Nvram_Session
begin

text \<open>
  The properties of the NVRAM library and its tool, with an example system: a partition of 32 KiB
  that holds one variable.
\<close>

section \<open>An example\<close>

definition ex_ps :: u32 where "ex_ps = 0x8000"

definition ex_header :: nvram_header_t where
  "ex_header = \<lparr>nvh_magic = NVRAM_MAGIC, nvh_len = 28, crc_ver_init = 0x4190100, config_refresh = 0x80400000, config_ncdl = 0\<rparr>"

definition ex_tuple :: nvram_tuple where
  "ex_tuple = \<lparr>t_name = cs ''lan'', t_value = Some (cs ''1'')\<rparr>"

definition ex_image :: bytes where
  "ex_image = nvh_bytes ex_header @ sers [ex_tuple] @ 0 # replicate 32741 0xff"

definition ex_dev :: bytes where "ex_dev = cs ''/dev/mtdblock0''"

definition ex_line :: bytes where "ex_line = cs ''mtd0: 00008000 00001000 nvram''"

definition ex_system :: nv_system where
  "ex_system = \<lparr>files = [cs ''/proc/mtd'' \<mapsto> \<lparr>st_mode = 0x8124, content = ex_line @ [0x0a]\<rparr>,
      ex_dev \<mapsto> \<lparr>st_mode = 0x6180, content = ex_image\<rparr>],
    nvram_part_size = 0, io = [], mem = []\<rparr>"

lemma fgets_line: "0x0a \<notin> set l \<Longrightarrow> length l < n \<Longrightarrow> fgets n (l @ 0x0a # r) = (l @ [0x0a], r)"
proof (induction l arbitrary: n)
  case Nil
  then show ?case by (cases n) auto
next
  case (Cons c l)
  then show ?case by (cases n) auto
qed

lemma ex_mtd_line: "mtd_line (ex_line @ [0x0a]) None = Some (Some 0, Some 0x8000)"
  by (simp add: mtd_line_def ex_line_def cs_def sscanf_mtd_def scan_int_def scan_hex8_def Let_def
      is_space_def digit_value_def)

lemma ex_find_mtd: "find_mtd_loop (ex_line @ [0x0a]) None ex_system = Some (Some ex_dev, ex_system\<lparr>nvram_part_size := 0x8000\<rparr>)"
proof -
  have g: "fgets (PATH_MAX - 1) (ex_line @ [0x0a]) = (ex_line @ [0x0a], [])"
    by (rule fgets_line) (simp_all add: ex_line_def cs_def PATH_MAX_def)
  have n: "takeWhile (\<lambda>c. c \<noteq> 0) (ex_line @ [0x0a]) = ex_line @ [0x0a]"
    by (simp add: ex_line_def cs_def)
  have d: "cs ''/dev/mtdblock'' @ print_int 0 = ex_dev"
    by (simp add: print_int_def print_nat.simps cs_def ex_dev_def)
  have f: "files ex_system ex_dev = Some \<lparr>st_mode = 0x6180, content = ex_image\<rparr>"
    by (simp add: ex_system_def)
  show ?thesis
    by (subst find_mtd_loop.simps)
       (use g n f d ex_mtd_line in \<open>simp add: Let_def malloc_def S_IFBLK_def ex_system_def\<close>)
qed

lemma ex_device: "device ex_ps ex_dev ex_system"
proof -
  have "open_file ex_system (cs ''/proc/mtd'') = (Some \<lparr>st_mode = 0x8124, content = ex_line @ [0x0a]\<rparr>, ex_system)"
    by (rule open_file_ok) (simp_all add: ex_system_def ex_dev_def openable_def S_IFMT_def S_IFDIR_def cs_def)
  then show ?thesis
    using ex_find_mtd by (simp add: device_def nvram_find_mtd_def ex_ps_def ex_system_def)
qed

lemma ex_tuple_ok: "tuple_ok ex_tuple"
  by (simp add: tuple_ok_def ex_tuple_def cs_def)

lemma length_ex_tuple: "length (sers [ex_tuple]) = 6"
  by (simp add: length_ser ex_tuple_def cs_def)

lemma length_ex_image: "length ex_image = 0x8000"
  using length_ex_tuple by (simp add: ex_image_def)

lemma ex_scan: "magic_scan ex_image 0 (scan_turns ex_ps) = Some 0"
proof -
  have "scan_turns ex_ps = Suc 0" by (simp add: scan_turns_def ex_ps_def NVRAM_MIN_SPACE_def)
  moreover have "mem_read ex_image 0 4 = Some (le32 NVRAM_MAGIC)"
    using read_at [of 4 ex_image "[]"] length_ex_image
    by (simp add: ex_image_def nvh_bytes_def ex_header_def)
  ultimately show ?thesis by simp
qed

lemma ex_image_ok: "image_ok ex_ps ex_image 0 ex_header [ex_tuple]"
proof -
  have "\<exists>a tail. ex_image = a @ nvh_bytes ex_header @ sers [ex_tuple] @ 0 # tail \<and> length a = 0"
    unfolding ex_image_def by (rule exI [of _ "[]"]) simp
  then show ?thesis
    using length_ex_image ex_scan ex_tuple_ok by (simp add: image_ok_def ex_ps_def ex_header_def)
qed

lemma ex_sees: "sees ex_ps ex_dev ex_system 0 ex_header [ex_tuple]"
proof -
  have "files ex_system NVRAM_STAGING = None"
    by (simp add: ex_system_def ex_dev_def NVRAM_STAGING_def cs_def)
  moreover have "files ex_system ex_dev = Some \<lparr>st_mode = 0x6180, content = ex_image\<rparr>"
    by (simp add: ex_system_def)
  ultimately show ?thesis
    using ex_device ex_image_ok length_ex_image
    by (simp add: sees_def regular_def stored_def openable_def S_IFMT_def S_IFDIR_def ex_ps_def)
qed

text \<open>The handle on the example image.\<close>

definition ex_handle :: nvram_handle where
  "ex_handle = the (fst (the (nvram_open_mapped ex_ps ex_image [] False)))"

lemma ex_handle_ok:
  "handle_ok ex_ps ex_handle \<and> nv_mem ex_handle = [] \<and> unat (nv_offset ex_handle) = 0 \<and> load ex_handle \<le> 87 \<and>
   nvram_get ex_handle = sdram_of ex_header ++ [cs ''lan'' \<mapsto> cs ''1'']"
proof -
  obtain h where o: "nvram_open_mapped ex_ps ex_image [] False = Some (Some h, [])"
    and h: "handle_ok ex_ps h" "nv_mem h = []" "unat (nv_offset h) = 0" "load h \<le> length (sers [ex_tuple]) + 81"
      "nvram_get h = sdram_of ex_header ++ map_of (map pair_of [ex_tuple])"
    by (rule open_image [OF ex_image_ok, of False]) (auto simp: ex_header_def ex_ps_def)
  then have "ex_handle = h" by (simp add: ex_handle_def)
  with h length_ex_tuple show ?thesis by (simp add: pair_of_def ex_tuple_def)
qed

lemma ex_nv_fits: "fits ex_ps ex_handle"
  using ex_handle_ok by (simp add: fits_def ex_ps_def)

section \<open>Properties\<close>

text \<open>
  C9: the hash table implements a map from names to values. Along every sequence of assignments and
  removals the table stays well formed, and each step does to the map what its return value says: 0
  stores or removes; an error keeps the old value, or loses it where \<open>realloc\<close> failed.
\<close>

theorem hash_table_is_map:
  assumes "table_ok h" and "run_ops nvram_set nvram_unset xs h = (rs, h')"
  shows "table_ok h' \<and> var_steps xs (nvram_get h) rs (nvram_get h')"
  using assms by (rule nv.ops_simulate)

theorem hash_table_is_map_witness:
  "\<exists>rs h'. run_ops nvram_set nvram_unset [Put (cs ''a'') (cs ''b''), Del (cs ''lan'')] ex_handle = (rs, h') \<and>
     table_ok h' \<and> var_steps [Put (cs ''a'') (cs ''b''), Del (cs ''lan'')] (nvram_get ex_handle) rs (nvram_get h')"
proof -
  obtain rs h' where r: "run_ops nvram_set nvram_unset [Put (cs ''a'') (cs ''b''), Del (cs ''lan'')] ex_handle = (rs, h')"
    by (metis prod.collapse)
  have "table_ok ex_handle" using ex_handle_ok by (simp add: handle_ok_def)
  from hash_table_is_map [OF this r] r show ?thesis by blast
qed

text \<open>
  C8: \<open>nvram_commit\<close> returns; where all tuples fit, the reparsed table has every variable with its value,
  and the special parameters that were missing with their default values.
\<close>

theorem commit_keeps_variables:
  assumes "handle_ok ps h" and "nv_mem h = []" and "fits ps h"
  shows "returns (nvram_commit ps h) (\<lambda>(r, h'). r = 0 \<and> handle_ok ps h' \<and> nvram_get h' = sdram_defaults ++ nvram_get h)"
  by (rule commit_keeps [OF assms]) auto

theorem commit_keeps_variables_witness:
  "returns (nvram_commit ex_ps ex_handle)
     (\<lambda>(r, h'). r = 0 \<and> handle_ok ex_ps h' \<and> nvram_get h' = sdram_defaults ++ nvram_get ex_handle)"
  by (rule commit_keeps_variables) (use ex_handle_ok ex_nv_fits in auto)

text \<open>
  C11: the checksum that \<open>nvram_commit\<close> stores in the header is the one that \<open>nvram info\<close> computes over
  the image, also when tuples had to be dropped.
\<close>

theorem commit_checksum:
  assumes "handle_ok ps h" and "nv_mem h = []"
  shows "returns (nvram_commit ps h) (\<lambda>(r, h'). info_crc h' = map_option stored_crc (nvram_header h') \<and> info_crc h' \<noteq> None)"
  using assms by (rule commit_crc_ok)

theorem commit_checksum_witness:
  "returns (nvram_commit ex_ps ex_handle) (\<lambda>(r, h'). info_crc h' = map_option stored_crc (nvram_header h') \<and> info_crc h' \<noteq> None)"
  by (rule commit_checksum) (use ex_handle_ok in auto)

text \<open>
  C10: after a commit the image opens again with the same variables, always for reading; for writing
  only if it does not reach the last four bytes of the partition. A commit that fills the partition
  leaves an image that \<open>nvram_open\<close> refuses to write.
\<close>

theorem reopen_after_commit:
  assumes "handle_ok ps h" and "nv_mem h = []"
  shows "returns (nvram_commit ps h) (\<lambda>(r, h').
    if rdonly \<or> NVRAM_ROUNDUP (length (sers (written ps h)) + 22) 4 < unat ps - unat (nv_offset h)
    then returns (nvram_open_mapped ps (nv_mmap h') [] rdonly) (\<lambda>(r, m). returns r (\<lambda>h2. nvram_get h2 = nvram_get h'))
    else nvram_open_mapped ps (nv_mmap h') [] rdonly = Some (None, []))"
proof -
  obtain h' tail where c: "nvram_commit ps h = Some (0, h')"
    and im: "image_ok ps (nv_mmap h') (unat (nv_offset h)) (final ps h tail) (written ps h)"
    and g: "nvram_get h' = sdram_of (final ps h tail) ++ map_of (map pair_of (written ps h))"
    by (rule commit_image [OF assms])
  have "layout_ok ps h" using assms by (simp add: handle_ok_def)
  then have l: "unat (nvh_len (final ps h tail)) = NVRAM_ROUNDUP (length (sers (written ps h)) + 22) 4"
    using written_len(3) [OF _ refl] by (simp add: final_def)
  obtain h2 where o: "nvram_open_mapped ps (nv_mmap h') [] rdonly = Some (if rdonly \<or>
      unat (nvh_len (final ps h tail)) < unat ps - unat (nv_offset h) then Some h2 else None, [])"
    and h2: "nvram_get h2 = sdram_of (final ps h tail) ++ map_of (map pair_of (written ps h))"
    by (rule open_image [OF im])
  have "nvram_get h2 = nvram_get h'" by (simp only: g h2)
  then show ?thesis unfolding c returns_Some prod.case o l by simp
qed

theorem reopen_after_commit_witness:
  "returns (nvram_commit ex_ps ex_handle) (\<lambda>(r, h').
    if False \<or> NVRAM_ROUNDUP (length (sers (written ex_ps ex_handle)) + 22) 4 < unat ex_ps - unat (nv_offset ex_handle)
    then returns (nvram_open_mapped ex_ps (nv_mmap h') [] False) (\<lambda>(r, m). returns r (\<lambda>h2. nvram_get h2 = nvram_get h'))
    else nvram_open_mapped ex_ps (nv_mmap h') [] False = Some (None, []))"
  by (rule reopen_after_commit) (use ex_handle_ok in auto)

text \<open>
  C7: the tool. Let \<open>m\<close> be the variables that \<open>nvram get\<close> answers with. One call with any sequence of
  \<open>set\<close> and \<open>unset\<close>, with or without a final \<open>commit\<close>, exits with 0 and prints nothing; from then on \<open>nvram
  get\<close> answers with \<open>m\<close> after these operations, the special parameters never missing. With \<open>commit\<close> the
  answers come from the partition, and the staging file is gone.
\<close>

theorem tool_stores_variables:
  assumes "sees ps dev w p H ts" and "unat (nvh_len H) < unat ps - p" and "answers w m"
    and "\<forall>x \<in> set xs. op_ok x" and "xs \<noteq> [] \<or> cm" and "fits_ops ps p ts xs"
    and "files w dev = Some fd" and "openable fd" and "unat ps \<le> length (content fd)"
  shows "returns (nvram_process (concat (map args_of xs) @ (if cm then [cs ''commit''] else [])) w)
    (\<lambda>(r, out, w'). r = 0 \<and> out = [] \<and> answers w' (sdram_defaults ++ fold apply_op xs m) \<and>
      (nvram_find_staging w' = None) = cm)"
proof -
  have m: "m = sdram_of H ++ map_of (map pair_of ts)"
    by (rule answers_unique [OF assms(3) sees_answers [OF assms(1)]])
  obtain w' H' ts' where p: "nvram_process (concat (map args_of xs) @ (if cm then [cs ''commit''] else [])) w = Some (0, [], w')"
    and s: "sees ps dev w' p H' ts'" and r: "regular w' = (\<not> cm)"
    and e: "sdram_of H' ++ map_of (map pair_of ts') = sdram_defaults ++ fold apply_op xs m"
    using write_process [OF assms(1,2,4,6) performs_ops [OF assms(5,4)] assms(7-9)] unfolding m by blast
  have "answers w' (sdram_defaults ++ fold apply_op xs m)" using sees_answers [OF s] unfolding e .
  with r show ?thesis unfolding p by (simp add: find_staging)
qed

theorem tool_stores_variables_witness:
  "returns (nvram_process (concat (map args_of [Put (cs ''wan'') (cs ''2''), Del (cs ''lan'')]) @ (if True then [cs ''commit''] else [])) ex_system)
    (\<lambda>(r, out, w'). r = 0 \<and> out = [] \<and>
      answers w' (sdram_defaults ++ fold apply_op [Put (cs ''wan'') (cs ''2''), Del (cs ''lan'')]
        (sdram_of ex_header ++ map_of (map pair_of [ex_tuple]))) \<and>
      (nvram_find_staging w' = None) = True)"
  by (rule tool_stores_variables [OF ex_sees _ sees_answers [OF ex_sees], where fd = "\<lparr>st_mode = 0x6180, content = ex_image\<rparr>"])
     (use length_ex_tuple length_ex_image in \<open>auto simp: ex_header_def ex_ps_def op_ok_def cs_def fits_ops_def op_size_def
        ex_system_def ex_dev_def openable_def S_IFMT_def S_IFDIR_def\<close>)

text \<open>
  C39: a \<open>set\<close> without equals sign fails in \<open>do_set\<close>, but the commit that follows overwrites the status:
  the tool exits with 0 and prints nothing, and no variable has changed.
\<close>

theorem failed_set_exits_with_success:
  assumes "sees ps dev w p H ts" and "unat (nvh_len H) < unat ps - p" and "answers w m"
    and "0x3d \<notin> set pair" and "fits_ops ps p ts []"
    and "files w dev = Some fd" and "openable fd" and "unat ps \<le> length (content fd)"
  shows "fst (do_set h pair) = 1 \<and> returns (nvram_process [cs ''set'', pair] w)
    (\<lambda>(r, out, w'). r = 0 \<and> out = [] \<and> answers w' (sdram_defaults ++ m))"
proof -
  have m: "m = sdram_of H ++ map_of (map pair_of ts)"
    by (rule answers_unique [OF assms(3) sees_answers [OF assms(1)]])
  obtain w' H' ts' where p: "nvram_process [cs ''set'', pair] w = Some (0, [], w')" and s: "sees ps dev w' p H' ts'"
    and e: "sdram_of H' ++ map_of (map pair_of ts') = sdram_defaults ++ fold apply_op [] m"
    using write_process [OF assms(1,2) _ assms(5) performs_nothing [OF assms(4)] assms(6-8)] unfolding m by auto
  have "answers w' (sdram_defaults ++ m)" using sees_answers [OF s] unfolding e by simp
  then show ?thesis unfolding p by (simp add: do_set_def strstr_none [OF assms(4)])
qed

theorem failed_set_exits_with_success_witness:
  "fst (do_set ex_handle (cs ''lan'')) = 1 \<and> returns (nvram_process [cs ''set'', cs ''lan''] ex_system)
    (\<lambda>(r, out, w'). r = 0 \<and> out = [] \<and> answers w' (sdram_defaults ++ (sdram_of ex_header ++ map_of (map pair_of [ex_tuple]))))"
  by (rule failed_set_exits_with_success [OF ex_sees _ sees_answers [OF ex_sees], where fd = "\<lparr>st_mode = 0x6180, content = ex_image\<rparr>"])
     (use length_ex_tuple length_ex_image in \<open>auto simp: ex_header_def ex_ps_def cs_def fits_ops_def
        ex_system_def ex_dev_def openable_def S_IFMT_def S_IFDIR_def\<close>)

text \<open>C40: the table-driven \<open>hndcrc8\<close> computes the bitwise reflected CRC-8 with polynomial \<open>0xAB\<close>.\<close>

theorem hndcrc8_bitwise: "hndcrc8 bs crc = crc8_ref bs crc"
  by (rule hndcrc8_ref)

end
