(* ===== verification/Spec2Isabelle.thy ===== *)
theory Spec2Isabelle
  imports Nmbm_Spec Nmbm_Mtd_Spec Mtdsplit_Spec Nvram_Spec
begin

text \<open>
  Verification of the flash-management code of the firmware tree: code that decides where data
  lies on raw flash, how it is found again, and what happens when blocks go bad or contents are
  damaged. This theory collects the development; the other theories hold the model, its lemmas
  and the properties.

  \<^bold>\<open>The parts and how they interact.\<close>

  \<^item> \<^emph>\<open>NMBM\<close>, the NAND mapped-block management (\<open>target/linux/generic/files-5.4/drivers/mtd/nmbm\<close>,
    \<open>include/nmbm\<close>). It presents a chip with bad blocks as a smaller one without. The end of the chip
    holds a signature and two copies of an info table with the state of every block and the
    mapping from logic to physical blocks.
  \<^item> Its \<^emph>\<open>MTD layer\<close> (\<open>nmbm-mtd.c\<close>) gives NMBM a lower MTD device, registers the logic chip as an
    upper one, and serialises the users of the upper one.
  \<^item> The \<^emph>\<open>mtdsplit\<close> parsers (\<open>target/linux/generic/files/drivers/mtd/mtdsplit\<close>) cut a firmware
    partition of such a device into kernel and root file system.
  \<^item> The \<^emph>\<open>nvram\<close> library and tool (\<open>package/utils/nvram\<close>) keep the variables of a board in a flash
    partition, with a staging file in front of it.
  \<^item> The CRC-32 of the \<^emph>\<open>mtd\<close> tool (\<open>package/system/mtd/src/crc32.c\<close>) is the instance of the checksum
    that NMBM takes as a parameter.

  \<^bold>\<open>Conventions.\<close> \<open>Prelude\<close> fixes them: machine integers are words of their width; a C function
  that touches memory or loops returns an option, with \<^term>\<open>None\<close> for what C leaves undefined (an
  access outside of a buffer, a NULL string) and for a loop that does not end; state is passed
  explicitly in records that follow the structures of the C code. \<^const>\<open>returns\<close> states total
  correctness: the call returns, without undefined behaviour, and its result satisfies a
  predicate. Error codes are integers, as in the code.

  \<^bold>\<open>Theories and code.\<close>

  \<^item> \<open>Nmbm_Device\<close>, \<open>Nmbm_State\<close>, \<open>Nmbm_Header\<close>: structures of \<open>nmbm-private.h\<close>, access to the lower chip
    with retries, the packed block states and the walks over good blocks, headers and checksums.
  \<^item> \<open>Nmbm_Write\<close>, \<open>Nmbm_Table\<close>, \<open>Nmbm_Map\<close>, \<open>Nmbm_Load\<close>: writing management data, the info tables with their
    rescue procedures, mapping and creation, loading.
  \<^item> \<open>Nmbm_Attach\<close>, \<open>Nmbm_Logic\<close>, \<open>Nmbm_Create\<close>: attaching, the logic-block interface, creation on a new
    chip. \<open>Nmbm_Image\<close>, \<open>Nmbm_Store\<close>: serialised tables and stored pages. \<open>Nmbm_Example\<close>: a chip in memory
    for the witnesses. \<open>Nmbm_Spec\<close>: the properties.
  \<^item> \<open>Nmbm_Mtd\<close>, \<open>Nmbm_Requests\<close>, \<open>Nmbm_Probe\<close>, \<open>Nmbm_Mtd_Spec\<close>: the MTD layer; the handlers and the
    interleaving of their callers; probing; the properties.
  \<^item> \<open>Mtdsplit\<close>, \<open>Mtdsplit_Fw\<close>, \<open>Mtdsplit_Wfi\<close>: the shared search, fourteen firmware parsers, the Broadcom
    whole-flash images. \<open>Mtdsplit_Contracts\<close>, \<open>Mtdsplit_Spec\<close>: contracts and properties.
  \<^item> \<open>Nvram_Crc\<close>, \<open>Nvram\<close>, \<open>Nvram_Cli\<close>: \<open>crc.c\<close>, the hash table and image format of \<open>nvram.c\<close>, its files and
    \<open>cli.c\<close>. \<open>Nvram_Vars\<close>: the table as a map. \<open>Nvram_Commit\<close>, \<open>Nvram_Reopen\<close>, \<open>Nvram_Size\<close>, \<open>Nvram_Roundtrip\<close>: what
    a commit writes, what is parsed from it, how large it is. \<open>Nvram_Session\<close>: calls of the tool.
    \<open>Nvram_Spec\<close>: the properties.
  \<^item> \<open>Mtd_Crc\<close>: the CRC-32.

  \<^bold>\<open>Interfaces.\<close> \<open>crc_incremental\<close> is what NMBM needs of a checksum; \<open>crc32\<close> of the \<open>mtd\<close> tool
  interprets it. \<open>split_parser\<close> and \<open>total_split_parser\<close> are the contracts of parsers that tile a
  partition, interpreted by the LZMA, minor, WRGG, ELF and CFE parsers. \<open>var_store\<close> is what the
  parser of an image and the command line need of a table of variables; the hash table of \<open>nvram.c\<close>
  interprets it.

  \<^bold>\<open>What is shown.\<close>

  \<^item> NMBM: creation, attaching and every operation of the interface end without undefined
    behaviour on chips that fail in any way; they keep the invariant of tables and mapping and
    touch only the area they own; tables and pages are read back as written; read-only mode
    never changes the chip.
  \<^item> MTD layer: a probed device carries out every sequence of requests; however callers
    interleave, one task at a time uses the device, and none after a shutdown.
  \<^item> mtdsplit: the parsers end on every flash, except for the CFE parser, whose search hangs on a
    node of length 0; the partitions tile the flash, or lie where the header says.
  \<^item> nvram: the hash table implements a map, allocation failures included; a commit is parsed
    back to the same variables with a valid checksum; calls of the tool compose, through the
    staging file and the partition.
  \<^item> The table-driven CRCs compute the bitwise ones.

  \<^bold>\<open>Parameters.\<close> Code that is not in the tree is an argument: the callbacks of the lower chip, the
  functions of the MTD core (\<open>mtd_core\<close>, \<open>split_mtd\<close>), \<open>crc32_le\<close>, the list and registration functions,
  the device tree. Their documented behaviour is stated as named hypotheses such as \<open>lower_ok\<close>,
  \<open>dev_frame\<close>, \<open>nm_ok\<close>, \<open>split_ok\<close>; the witnesses instantiate them with a chip, an MTD device or a file
  system in memory. \<open>is_power_of_2\<close>, \<open>ffs\<close>, \<open>round_up\<close> and the string functions are modelled as the kernel
  and the C standard define them.

  \<^bold>\<open>Bounds and fuel.\<close> No loop is cut short. Loops are structural or have a measure; the loops whose
  end depends on data (retries with remapping, searches of the parsers) are
  \<open>partial_function (option)\<close>, and the properties show that they return. Sizes keep their width:
  \<open>size_t\<close> has 64 bits in the kernel code and 32 bits in nvram.

  \<^bold>\<open>Not modelled.\<close> Log messages, the watchdog, checks for NULL handles, the registration of
  drivers. Drivers whose behaviour is that of hardware registers (switches, Ethernet, DSL, SNAND
  controllers), vendored copies of upstream projects (NTFS3, igc, miniupnpd, kconfig, tinysrp), glue
  to programs outside of the tree (hostapd, ubus), boot code and the build system: their
  correctness cannot be stated without the hardware or the program they belong to.
\<close>

end
